(* ===== verification/Strings.thy ===== *)
theory Strings
  imports Prelude
begin

text \<open>
  The parts of Rust's \<open>str\<close> that the program calls, on the UTF-8 bytes of a string:
  \<open>strip_prefix\<close>, \<open>strip_suffix\<close>, \<open>contains\<close>, \<open>replace\<close>, the ASCII classes,
  \<open>to_string\<close> of an unsigned integer and \<open>parse\<close> back, and the interface \<open>text_codec\<close> of a
  printer with its parser, interpreted here on the decimal numbers.
\<close>

section \<open>Bytes of a string\<close>

definition as_bytes :: "string \<Rightarrow> bytes" where
  "as_bytes s = map of_char s"

definition of_bytes :: "bytes \<Rightarrow> string" where
  "of_bytes bs = map (\<lambda>b. char_of (unat b)) bs"

definition char_code :: "char \<Rightarrow> nat" where
  "char_code c = of_char c"

lemma char_code_less: "char_code c < 256"
  by (simp add: char_code_def)

lemma char_code_inject [simp]: "char_code c = char_code d \<longleftrightarrow> c = d"
  by (simp add: char_code_def)

lemma of_char_u8: "(of_char c :: u8) = of_nat (char_code c)"
  by (simp add: char_code_def of_nat_of_char)

lemma of_bytes_as_bytes [simp]: "of_bytes (as_bytes s) = s"
proof -
  have "char_of (unat (of_char c :: u8)) = c" for c
    using char_code_less [of c] by (simp add: of_char_u8 unat_of_nat char_code_def)
  then show ?thesis by (simp add: of_bytes_def as_bytes_def comp_def)
qed

lemma as_bytes_inject: "as_bytes s = as_bytes t \<longleftrightarrow> s = t"
  by (metis of_bytes_as_bytes)

lemma length_as_bytes [simp]: "length (as_bytes s) = length s"
  by (simp add: as_bytes_def)

lemma as_bytes_Nil [simp]: "as_bytes s = [] \<longleftrightarrow> s = []"
  by (simp add: as_bytes_def)

definition is_ascii_lower :: "char \<Rightarrow> bool" where
  "is_ascii_lower c \<longleftrightarrow> 97 \<le> char_code c \<and> char_code c \<le> 122"

definition is_ascii_digit :: "char \<Rightarrow> bool" where
  "is_ascii_digit c \<longleftrightarrow> 48 \<le> char_code c \<and> char_code c \<le> 57"

definition is_ascii_hexdigit :: "char \<Rightarrow> bool" where
  "is_ascii_hexdigit c \<longleftrightarrow> is_ascii_digit c \<or>
     (65 \<le> char_code c \<and> char_code c \<le> 70) \<or> (97 \<le> char_code c \<and> char_code c \<le> 102)"

definition to_ascii_upper :: "char \<Rightarrow> char" where
  "to_ascii_upper c = (if is_ascii_lower c then char_of (char_code c - 32) else c)"

section \<open>Searching and replacing\<close>

fun strip_prefix :: "string \<Rightarrow> string \<Rightarrow> string option" where
  "strip_prefix [] s = Some s"
| "strip_prefix (p # ps) [] = None"
| "strip_prefix (p # ps) (c # cs) = (if p = c then strip_prefix ps cs else None)"

definition strip_suffix :: "string \<Rightarrow> string \<Rightarrow> string option" where
  "strip_suffix p s = map_option rev (strip_prefix (rev p) (rev s))"

lemma strip_prefix_Some: "strip_prefix p s = Some t \<longleftrightarrow> s = p @ t"
  by (induction p s rule: strip_prefix.induct) auto

lemma strip_prefix_append [simp]: "strip_prefix p (p @ t) = Some t"
  by (simp add: strip_prefix_Some)

lemma strip_prefix_None: "strip_prefix p s = None \<longleftrightarrow> \<not> prefix p s"
  by (metis not_None_eq prefix_def strip_prefix_Some)

lemma strip_suffix_Some: "strip_suffix p s = Some t \<longleftrightarrow> s = t @ p"
proof -
  have "strip_suffix p s = Some t \<longleftrightarrow> rev s = rev p @ rev t"
    by (auto simp: strip_suffix_def strip_prefix_Some)
  also have "\<dots> \<longleftrightarrow> s = t @ p" by (metis rev_append rev_rev_ident)
  finally show ?thesis .
qed

lemma strip_suffix_append [simp]: "strip_suffix p (t @ p) = Some t"
  by (simp add: strip_suffix_Some)

lemma strip_suffix_None: "strip_suffix p s = None \<longleftrightarrow> \<not> suffix p s"
  by (metis not_None_eq suffix_def strip_suffix_Some)

text \<open>Whether a needle occurs in a haystack: what \<open>str::contains\<close> decides.\<close>

fun contains_sub :: "'a list \<Rightarrow> 'a list \<Rightarrow> bool" where
  "contains_sub n [] \<longleftrightarrow> n = []"
| "contains_sub n (c # cs) \<longleftrightarrow> take (length n) (c # cs) = n \<or> contains_sub n cs"

lemma contains_sub_sublist: "contains_sub n h \<longleftrightarrow> sublist n h"
proof (induction h)
  case (Cons c cs)
  have "take (length n) (c # cs) = n \<longleftrightarrow> prefix n (c # cs)"
    by (metis append_eq_conv_conj append_take_drop_id prefix_def)
  with Cons show ?case by (simp add: sublist_Cons_right)
qed simp

text \<open>\<open>str::replace\<close> for a non-empty pattern: leftmost, non-overlapping matches.\<close>

function replace_all :: "string \<Rightarrow> string \<Rightarrow> string \<Rightarrow> string" where
  "replace_all p t [] = []"
| "replace_all p t (c # cs) =
     (if p \<noteq> [] \<and> take (length p) (c # cs) = p
      then t @ replace_all p t (drop (length p) (c # cs))
      else c # replace_all p t cs)"
  by pat_completeness auto
termination
proof (relation "measure (\<lambda>(p, t, s). length s)", goal_cases)
  case (2 p t c cs)
  then have "0 < length p" by simp
  then show ?case by simp
qed simp_all

lemma replace_all_absent: "\<not> sublist p s \<Longrightarrow> replace_all p t s = s"
proof (induction p t s rule: replace_all.induct)
  case (2 p t c cs)
  have "take (length p) (c # cs) \<noteq> p"
    using "2.prems" by (metis prefix_imp_sublist take_is_prefix)
  moreover have "\<not> sublist p cs"
    using "2.prems" by (simp add: sublist_Cons_right)
  ultimately show ?case using "2.IH"(2) by simp
qed simp

lemma replace_all_pattern:
  "p \<noteq> [] \<Longrightarrow> replace_all p t (p @ s) = t @ replace_all p t s"
  by (cases p) auto

text \<open>The first position of a character, as the tables of the text encodings use it.\<close>

fun char_index :: "string \<Rightarrow> char \<Rightarrow> nat option" where
  "char_index [] c = None"
| "char_index (d # ds) c = (if c = d then Some 0 else map_option Suc (char_index ds c))"

lemma char_index_nth: "distinct ds \<Longrightarrow> n < length ds \<Longrightarrow> char_index ds (ds ! n) = Some n"
  by (induction ds arbitrary: n) (auto simp: nth_Cons split: nat.splits)

section \<open>Decimal numbers\<close>

definition digit_char :: "nat \<Rightarrow> char" where
  "digit_char d = char_of (48 + d)"

fun show_nat :: "nat \<Rightarrow> string" where
  "show_nat n = (if n < 10 then [digit_char n] else show_nat (n div 10) @ [digit_char (n mod 10)])"

declare show_nat.simps [simp del]

abbreviation show_word :: "'a::len word \<Rightarrow> string" where
  "show_word w \<equiv> show_nat (unat w)"

definition digits_value :: "string \<Rightarrow> nat" where
  "digits_value ds = foldl (\<lambda>n c. 10 * n + (char_code c - 48)) 0 ds"

text \<open>
  \<open>str::parse\<close> at an unsigned type of \<open>w\<close> bits: an optional leading plus sign, then at least
  one digit and nothing else, and a value in range.
\<close>

definition unsigned_digits :: "string \<Rightarrow> string" where
  "unsigned_digits s = (case strip_prefix ''+'' s of Some r \<Rightarrow> r | None \<Rightarrow> s)"

definition parse_unsigned :: "nat \<Rightarrow> string \<Rightarrow> nat option" where
  "parse_unsigned w s =
     (let ds = unsigned_digits s in
      if ds = [] \<or> \<not> list_all is_ascii_digit ds then None
      else if digits_value ds < 2 ^ w then Some (digits_value ds) else None)"

definition parse_u64 :: "string \<Rightarrow> u64 option" where
  "parse_u64 s = map_option of_nat (parse_unsigned 64 s)"

definition parse_u16 :: "string \<Rightarrow> u16 option" where
  "parse_u16 s = map_option of_nat (parse_unsigned 16 s)"

lemma char_code_digit: "d < 10 \<Longrightarrow> char_code (digit_char d) = 48 + d"
  by (simp add: char_code_def digit_char_def)

lemma is_ascii_digit_digit: "d < 10 \<Longrightarrow> is_ascii_digit (digit_char d)"
  by (simp add: is_ascii_digit_def char_code_digit)

lemma show_nat_digits: "list_all is_ascii_digit (show_nat n)"
proof (induction n rule: show_nat.induct)
  case (1 n)
  then show ?case
    by (subst show_nat.simps) (auto simp: is_ascii_digit_digit)
qed

lemma show_nat_nonempty [simp]: "show_nat n \<noteq> []"
  by (subst show_nat.simps) simp

lemma digits_value_snoc: "digits_value (ds @ [c]) = 10 * digits_value ds + (char_code c - 48)"
  by (simp add: digits_value_def)

lemma digits_value_show: "digits_value (show_nat n) = n"
proof (induction n rule: show_nat.induct)
  case (1 n)
  show ?case
  proof (cases "n < 10")
    case True
    then show ?thesis
      by (subst show_nat.simps) (simp add: digits_value_def char_code_digit)
  next
    case False
    with 1 have "digits_value (show_nat (n div 10)) = n div 10" by simp
    moreover have "show_nat n = show_nat (n div 10) @ [digit_char (n mod 10)]"
      using False by (subst show_nat.simps) simp
    ultimately show ?thesis
      by (simp add: digits_value_snoc char_code_digit)
  qed
qed

lemma unsigned_digits_plain:
  "list_all is_ascii_digit s \<Longrightarrow> unsigned_digits s = s"
  by (cases s) (auto simp: unsigned_digits_def is_ascii_digit_def char_code_def)

lemma parse_show: "n < 2 ^ w \<Longrightarrow> parse_unsigned w (show_nat n) = Some n"
  by (simp add: parse_unsigned_def Let_def unsigned_digits_plain show_nat_digits digits_value_show)

lemma parse_show_large: "2 ^ w \<le> n \<Longrightarrow> parse_unsigned w (show_nat n) = None"
  by (simp add: parse_unsigned_def Let_def unsigned_digits_plain show_nat_digits digits_value_show)

lemma parse_unsigned_bound: "parse_unsigned w s = Some n \<Longrightarrow> n < 2 ^ w"
  by (auto simp: parse_unsigned_def Let_def split: if_splits)

text \<open>A number at the front of a text, up to the first character that is no digit.\<close>

lemma takeWhile_show:
  "\<not> is_ascii_digit c \<Longrightarrow> takeWhile is_ascii_digit (show_nat n @ c # r) = show_nat n"
  "\<not> is_ascii_digit c \<Longrightarrow> dropWhile is_ascii_digit (show_nat n @ c # r) = c # r"
  using show_nat_digits [of n] by (simp_all add: list_all_iff takeWhile_append dropWhile_append)

lemma length_show_nat: "n < 10 ^ k \<Longrightarrow> 0 < k \<Longrightarrow> length (show_nat n) \<le> k"
proof (induction k arbitrary: n)
  case (Suc k)
  show ?case
  proof (cases "n < 10")
    case True
    then show ?thesis by (subst show_nat.simps) simp
  next
    case False
    then have "0 < k" using Suc.prems(1) by (cases k) simp_all
    moreover have "n div 10 < 10 ^ k" using Suc.prems(1) by (simp add: less_mult_imp_div_less)
    ultimately show ?thesis using Suc.IH False by (subst show_nat.simps) simp
  qed
qed simp

lemma parse_u64_show: "parse_u64 (show_word w) = Some w"
  using parse_show [of "unat w" 64] unat_less [of w] by (simp add: parse_u64_def)

lemma parse_u16_show: "parse_u16 (show_word w) = Some w"
  using parse_show [of "unat w" 16] unat_less [of w] by (simp add: parse_u16_def)

section \<open>The debug form of a string\<close>

text \<open>
  What \<open>{:?}\<close> prints for a \<open>str\<close>: quotes and backslashes escaped, the ASCII controls by name
  or by code point. The bytes of printable non-ASCII characters are left as they are.
\<close>

definition debug_char :: "char \<Rightarrow> string" where
  "debug_char c =
     (let n = char_code c; bs = CHR 0x5C; hex = ''0123456789abcdef'' in
      if n = 0 then [bs, CHR ''0'']
      else if n = 9 then [bs, CHR ''t'']
      else if n = 10 then [bs, CHR ''n'']
      else if n = 13 then [bs, CHR ''r'']
      else if n = 34 \<or> n = 92 then [bs, c]
      else if n < 16 then bs # ''u{'' @ [hex ! n] @ ''}''
      else if n < 32 \<or> n = 127 then bs # ''u{'' @ [hex ! (n div 16), hex ! (n mod 16)] @ ''}''
      else [c])"

definition debug_str :: "string \<Rightarrow> string" where
  "debug_str s = CHR 0x22 # concat (map debug_char s) @ [CHR 0x22]"

section \<open>The interface of a printer with its parser\<close>

text \<open>
  A component that writes a value and reads it back relies on one law. Everything else its
  clients need (no two values print alike, a parse that succeeds on a printed value returns
  that value) follows once, here.
\<close>

locale text_codec =
  fixes encode :: "'a \<Rightarrow> 'b"
    and decode :: "'b \<Rightarrow> 'a option"
    and valid :: "'a \<Rightarrow> bool"
  assumes decode_encode: "valid x \<Longrightarrow> decode (encode x) = Some x"
begin

lemma encode_inject: "valid x \<Longrightarrow> valid y \<Longrightarrow> encode x = encode y \<longleftrightarrow> x = y"
  by (metis decode_encode option.inject)

lemma decode_encoded: "valid x \<Longrightarrow> decode (encode x) = Some y \<Longrightarrow> y = x"
  by (simp add: decode_encode)

lemma encode_inj_on: "inj_on encode (Collect valid)"
  by (auto simp: inj_on_def encode_inject)

end

interpretation dec_u64: text_codec "show_word :: u64 \<Rightarrow> string" parse_u64 "\<lambda>_. True"
  by unfold_locales (rule parse_u64_show)

interpretation dec_u16: text_codec "show_word :: u16 \<Rightarrow> string" parse_u16 "\<lambda>_. True"
  by unfold_locales (rule parse_u16_show)

end
