(* ===== verification/Errors.thy ===== *)
theory Errors
  imports Strings
begin

text \<open>
  The errors of the program, \<^verbatim>\<open>src/error.rs\<close>: \<open>AppError\<close> with its five constructors and the
  exit-code classes they carry, the conversions of an I/O error and of a JSON error, and the
  document that renders an error for machine-readable formats. A fallible operation of the
  program has the type \<open>app_error + 'a\<close>.

  An \<open>io::Error\<close> is its kind, its raw operating-system code when it has one, and its text.
\<close>

record app_error =
  err_code :: u8
  err_kind :: string
  err_message :: string

definition usage :: "string \<Rightarrow> app_error" where
  "usage m = \<lparr>err_code = 2, err_kind = ''usage'', err_message = m\<rparr>"

definition operational :: "string \<Rightarrow> string \<Rightarrow> app_error" where
  "operational k m = \<lparr>err_code = 1, err_kind = k, err_message = m\<rparr>"

definition timeout :: "string \<Rightarrow> app_error" where
  "timeout m = \<lparr>err_code = 3, err_kind = ''timeout'', err_message = m\<rparr>"

definition not_found :: "string \<Rightarrow> app_error" where
  "not_found m = \<lparr>err_code = 4, err_kind = ''not_found'', err_message = m\<rparr>"

definition integrity :: "string \<Rightarrow> app_error" where
  "integrity m = \<lparr>err_code = 5, err_kind = ''integrity'', err_message = m\<rparr>"

definition exit_code :: "app_error \<Rightarrow> u8" where
  "exit_code e = err_code e"

datatype io_kind =
  NotFound | AlreadyExists | InvalidInput | Interrupted | WouldBlock | OtherIo

record io_error =
  io_kind :: io_kind
  io_raw :: "int option"
  io_text :: string

definition from_io :: "io_error \<Rightarrow> app_error" where
  "from_io e = operational ''io'' (io_text e)"

definition from_json :: "string \<Rightarrow> app_error" where
  "from_json t = integrity t"

record error_body =
  eb_kind :: string
  eb_message :: string
  eb_exit_code :: u8

record error_document =
  ed_schema_version :: string
  ed_error :: error_body

definition to_error_document :: "app_error \<Rightarrow> error_document" where
  "to_error_document e =
     \<lparr>ed_schema_version = ''procherd.error.v1'',
      ed_error = \<lparr>eb_kind = err_kind e, eb_message = err_message e, eb_exit_code = err_code e\<rparr>\<rparr>"

lemma err_code_simps [simp]:
  "err_code (usage m) = 2" "err_code (operational k m) = 1" "err_code (timeout m) = 3"
  "err_code (not_found m) = 4" "err_code (integrity m) = 5" "err_code (from_io e) = 1"
  "err_code (from_json t) = 5"
  by (simp_all add: usage_def operational_def timeout_def not_found_def integrity_def
      from_io_def from_json_def)

lemma err_kind_simps [simp]:
  "err_kind (usage m) = ''usage''" "err_kind (operational k m) = k"
  "err_kind (timeout m) = ''timeout''" "err_kind (not_found m) = ''not_found''"
  "err_kind (integrity m) = ''integrity''" "err_kind (from_io e) = ''io''"
  "err_kind (from_json t) = ''integrity''"
  by (simp_all add: usage_def operational_def timeout_def not_found_def integrity_def
      from_io_def from_json_def)

lemma err_message_simps [simp]:
  "err_message (usage m) = m" "err_message (operational k m) = m" "err_message (timeout m) = m"
  "err_message (not_found m) = m" "err_message (integrity m) = m"
  "err_message (from_io e) = io_text e"
  by (simp_all add: usage_def operational_def timeout_def not_found_def integrity_def from_io_def)

text \<open>The errors of different classes differ, whatever their messages.\<close>

lemma app_error_distinct [simp]:
  "usage m \<noteq> integrity m'" "integrity m \<noteq> usage m'"
  "timeout m \<noteq> usage m'" "usage m \<noteq> timeout m'"
  "operational k m \<noteq> integrity m'" "integrity m' \<noteq> operational k m"
  "operational k m \<noteq> usage m'" "usage m' \<noteq> operational k m"
  "operational k m \<noteq> timeout m'" "timeout m' \<noteq> operational k m"
  "not_found m \<noteq> integrity m'" "integrity m' \<noteq> not_found m"
  "not_found m \<noteq> operational k m'" "operational k m' \<noteq> not_found m"
  by (simp_all add: usage_def operational_def timeout_def not_found_def integrity_def)

end
