(* ===== verification/Win_Quote.thy ===== *)
theory Win_Quote
  imports Errors
begin

text \<open>
  The command line of the detached supervisor on Windows, \<^verbatim>\<open>src/windows_detach.rs\<close>: UTF-16 code
  units are words of 16 bits, a path is the units of its \<open>encode_wide\<close>, and \<open>CreateProcessW\<close> is a
  parameter. The started program splits its command line with the parser of Rust's standard
  library (\<open>std::env::args_os\<close>), which \<open>program_arguments\<close> models. The lemmas show that what is
  quoted is split into the same arguments.
\<close>

section \<open>Quoting\<close>

definition backslash :: u16 where
  "backslash = 92"

definition quote :: u16 where
  "quote = 34"

definition space :: u16 where
  "space = 32"

definition tab :: u16 where
  "tab = 9"

lemmas unit_defs = backslash_def quote_def space_def tab_def

definition ascii_units :: "string \<Rightarrow> u16 list" where
  "ascii_units s = map (\<lambda>c. of_nat (char_code c)) s"

definition wide :: "u16 list \<Rightarrow> io_error + u16 list" where
  "wide units =
     (if 0 \<in> set units
      then Inl \<lparr>io_kind = InvalidInput, io_raw = None,
                io_text = ''Windows process argument contains a NUL code unit''\<rparr>
      else Inr units)"

definition nul_terminated :: "u16 list \<Rightarrow> io_error + u16 list" where
  "nul_terminated units = bindE (wide units) (\<lambda>units. Inr (units @ [0]))"

text \<open>The loop over the argument: the output so far and the backslashes that are held back.\<close>

fun quote_loop :: "u16 list \<Rightarrow> nat \<Rightarrow> u16 list \<Rightarrow> u16 list \<times> nat" where
  "quote_loop out backslashes [] = (out, backslashes)"
| "quote_loop out backslashes (u # us) =
     (if u = backslash then quote_loop out (backslashes + 1) us
      else if u = quote
      then quote_loop (out @ replicate (backslashes * 2 + 1) backslash @ [quote]) 0 us
      else quote_loop (out @ replicate backslashes backslash @ [u]) 0 us)"

definition append_quoted :: "u16 list \<Rightarrow> u16 list \<Rightarrow> u16 list" where
  "append_quoted out argument =
     (let needs_quotes = argument = [] \<or> list_ex (\<lambda>u. u = space \<or> u = tab \<or> u = quote) argument in
      if \<not> needs_quotes then out @ argument
      else
        let (out, backslashes) = quote_loop (out @ [quote]) 0 argument in
        out @ replicate (backslashes * 2) backslash @ [quote])"

definition build_command_line :: "u16 list \<Rightarrow> u16 list \<Rightarrow> io_error + u16 list" where
  "build_command_line executable run_dir =
     bindE (wide executable) (\<lambda>executable.
     let line = append_quoted [] executable @ [space] @ ascii_units ''__supervise'' @ [space]
                  @ ascii_units ''--run-dir'' @ [space] in
     bindE (wide run_dir) (\<lambda>run_dir. Inr (append_quoted line run_dir @ [0])))"

definition spawn_supervisor ::
  "(u16 list \<Rightarrow> u16 list \<Rightarrow> io_error + unit) \<Rightarrow> u16 list \<Rightarrow> u16 list \<Rightarrow> io_error + unit" where
  "spawn_supervisor create_process executable run_dir =
     bindE (nul_terminated executable) (\<lambda>application_name.
     bindE (build_command_line executable run_dir) (\<lambda>command_line.
       create_process application_name command_line))"

section \<open>How the started program reads its arguments\<close>

definition blank :: "u16 \<Rightarrow> bool" where
  "blank u \<longleftrightarrow> u = space \<or> u = tab"

text \<open>The program's name: quotes toggle, nothing is escaped. The rest starts at the first blank.\<close>

fun split_program :: "u16 list \<Rightarrow> bool \<Rightarrow> u16 list \<Rightarrow> u16 list \<times> u16 list" where
  "split_program cur in_quotes [] = (cur, [])"
| "split_program cur in_quotes (u # us) =
     (if u = quote then split_program cur (\<not> in_quotes) us
      else if blank u \<and> \<not> in_quotes then (cur, dropWhile blank us)
      else split_program (cur @ [u]) in_quotes us)"

function split_arguments :: "u16 list \<Rightarrow> bool \<Rightarrow> u16 list \<Rightarrow> u16 list list" where
  "split_arguments cur in_quotes [] = (if cur \<noteq> [] \<or> in_quotes then [cur] else [])"
| "split_arguments cur in_quotes (u # us) =
     (if blank u \<and> \<not> in_quotes then cur # split_arguments [] False (dropWhile blank us)
      else if u = backslash then
        (let count = length (takeWhile (\<lambda>v. v = backslash) us) + 1;
             rest = dropWhile (\<lambda>v. v = backslash) us in
         if rest \<noteq> [] \<and> hd rest = quote then
           (if odd count
            then split_arguments (cur @ replicate (count div 2) backslash @ [quote]) in_quotes (tl rest)
            else split_arguments (cur @ replicate (count div 2) backslash) in_quotes rest)
         else split_arguments (cur @ replicate count backslash) in_quotes rest)
      else if u = quote \<and> in_quotes then
        (if us = [] then [cur]
         else if hd us = quote then split_arguments (cur @ [quote]) in_quotes (tl us)
         else split_arguments cur False us)
      else if u = quote then split_arguments cur True us
      else split_arguments (cur @ [u]) in_quotes us)"
  by pat_completeness auto
termination
proof (relation "measure (\<lambda>(_, _, us). length us)", goal_cases)
  case (2 cur q u us)
  show ?case by (simp add: le_imp_less_Suc length_dropWhile_le)
next
  case (3 cur q u us n rest)
  show ?case using length_dropWhile_le [of "\<lambda>v. v = backslash" us] by (simp add: 3 less_Suc_eq_le)
next
  case (4 cur q u us n rest)
  show ?case using length_dropWhile_le [of "\<lambda>v. v = backslash" us] by (simp add: 4 less_Suc_eq_le)
next
  case (5 cur q u us n rest)
  show ?case using length_dropWhile_le [of "\<lambda>v. v = backslash" us] by (simp add: 5 less_Suc_eq_le)
qed (auto simp: less_Suc_eq_le)

definition program_arguments :: "u16 list \<Rightarrow> u16 list list" where
  "program_arguments line =
     (let (program, rest) = split_program [] False line in program # split_arguments [] False rest)"

section \<open>Facts about the splitting\<close>

lemma units_distinct [simp]:
  "backslash \<noteq> quote" "quote \<noteq> backslash" "\<not> blank backslash" "\<not> blank quote" "blank space"
  "space \<noteq> quote" "quote \<noteq> space" "space \<noteq> backslash" "backslash \<noteq> space"
  by (simp_all add: unit_defs blank_def)

declare split_arguments.simps(2) [simp del]

text \<open>What may follow a quoted argument: the end, or a blank.\<close>

definition after_argument :: "u16 list \<Rightarrow> bool" where
  "after_argument rest \<longleftrightarrow> rest = [] \<or> blank (hd rest)"

lemma after_argument_hd: "after_argument rest \<Longrightarrow> rest \<noteq> [] \<Longrightarrow> hd rest \<noteq> quote \<and> hd rest \<noteq> backslash"
  by (auto simp: after_argument_def)

lemma split_literal:
  "u \<noteq> backslash \<Longrightarrow> u \<noteq> quote \<Longrightarrow> \<not> blank u \<or> q \<Longrightarrow>
   split_arguments cur q (u # us) = split_arguments (cur @ [u]) q us"
  by (auto simp: split_arguments.simps(2))

lemma split_blank:
  "blank u \<Longrightarrow> split_arguments cur False (u # us) = cur # split_arguments [] False (dropWhile blank us)"
  by (simp add: split_arguments.simps(2))

lemma backslash_run:
  assumes "rest = [] \<or> hd rest \<noteq> backslash"
  shows "takeWhile (\<lambda>v. v = backslash) (replicate n backslash @ rest) = replicate n backslash"
    and "dropWhile (\<lambda>v. v = backslash) (replicate n backslash @ rest) = rest"
  using assms by (cases rest; induction n; simp)+

lemma split_backslashes:
  assumes "rest = [] \<or> (hd rest \<noteq> quote \<and> hd rest \<noteq> backslash)"
  shows "split_arguments cur q (replicate n backslash @ rest) = split_arguments (cur @ replicate n backslash) q rest"
proof (cases n)
  case (Suc m)
  have run: "rest = [] \<or> hd rest \<noteq> backslash" and stop: "(rest \<noteq> [] \<and> hd rest = quote) = False"
    using assms by auto
  have "split_arguments cur q (backslash # (replicate m backslash @ rest)) =
      split_arguments (cur @ replicate (Suc m) backslash) q rest"
    unfolding split_arguments.simps(2) [of cur q backslash] backslash_run [OF run] Let_def stop by simp
  then show ?thesis by (simp add: Suc)
qed simp

lemma split_escaped:
  "split_arguments cur q (replicate (n * 2 + 1) backslash @ quote # rest) =
     split_arguments (cur @ replicate n backslash @ [quote]) q rest"
  by (simp add: split_arguments.simps(2) backslash_run Let_def)

lemma split_doubled:
  "split_arguments cur q (replicate (n * 2) backslash @ quote # rest) =
     split_arguments (cur @ replicate n backslash) q (quote # rest)"
proof (cases n)
  case (Suc m)
  have "split_arguments cur q (backslash # replicate (m * 2 + 1) backslash @ quote # rest) =
      split_arguments (cur @ replicate (Suc m) backslash) q (quote # rest)"
    by (subst split_arguments.simps(2)) (simp add: backslash_run Let_def)
  then show ?thesis by (simp add: Suc)
qed simp

text \<open>The loop emits what the splitting reads back, up to the backslashes it holds back.\<close>

lemma quote_loop_out:
  "quote_loop (pre @ out) n us = (pre @ fst (quote_loop out n us), snd (quote_loop out n us))"
proof (induction us arbitrary: out n)
  case (Cons u us)
  show ?case
    using Cons.IH [of out "n + 1"] Cons.IH [of "out @ replicate (n * 2 + 1) backslash @ [quote]" 0]
      Cons.IH [of "out @ replicate n backslash @ [u]" 0] by simp
qed simp

lemma split_quoted_loop:
  "split_arguments cur True (fst (quote_loop [] n us) @ replicate (snd (quote_loop [] n us) * 2) backslash @
     quote # rest) = split_arguments (cur @ replicate n backslash @ us) True (quote # rest)"
proof (induction us arbitrary: cur n)
  case Nil
  then show ?case by (simp add: split_doubled)
next
  case (Cons u us)
  note out = quote_loop_out [of _ "[]", simplified]
  consider "u = backslash" | "u = quote" | "u \<noteq> backslash" "u \<noteq> quote" by blast
  then show ?case
  proof cases
    case 1
    then show ?thesis using Cons.IH [of cur "Suc n"] by (simp add: replicate_app_Cons_same)
  next
    case 2
    have "split_arguments cur True (replicate (n * 2 + 1) backslash @ quote # (fst (quote_loop [] 0 us) @
        replicate (snd (quote_loop [] 0 us) * 2) backslash @ quote # rest)) =
      split_arguments (cur @ replicate n backslash @ [quote] @ us) True (quote # rest)"
      unfolding split_escaped Cons.IH by simp
    then show ?thesis using 2 out [of "replicate (n * 2 + 1) backslash @ [quote]" 0 us] by simp
  next
    case 3
    have "split_arguments cur True (replicate n backslash @ u # (fst (quote_loop [] 0 us) @
        replicate (snd (quote_loop [] 0 us) * 2) backslash @ quote # rest)) =
      split_arguments (cur @ replicate n backslash @ [u] @ us) True (quote # rest)"
      using 3 by (simp add: split_backslashes split_literal Cons.IH)
    then show ?thesis using 3 out [of "replicate n backslash @ [u]" 0 us] by simp
  qed
qed

lemma split_plain:
  assumes "list_all (\<lambda>u. \<not> blank u \<and> u \<noteq> quote) us" and "after_argument rest"
  shows "split_arguments cur q (us @ rest) = split_arguments (cur @ us) q rest"
  using assms(1)
proof (induction "length us" arbitrary: us cur rule: less_induct)
  case less
  show ?case
  proof (cases us)
    case (Cons u vs)
    show ?thesis
    proof (cases "u = backslash")
      case True
      let ?t = "takeWhile (\<lambda>v. v = backslash) us" and ?d = "dropWhile (\<lambda>v. v = backslash) us"
      have t: "?t = replicate (length ?t) backslash"
        by (rule replicate_eqI) (auto dest: set_takeWhileD)
      have d: "list_all (\<lambda>u. \<not> blank u \<and> u \<noteq> quote) ?d"
        using less.prems by (auto simp: list_all_iff dest: set_dropWhileD)
      have "?d @ rest = [] \<or> (hd (?d @ rest) \<noteq> quote \<and> hd (?d @ rest) \<noteq> backslash)"
      proof (cases "?d = []")
        case True
        then have "?d @ rest = rest" by simp
        then show ?thesis using after_argument_hd [OF assms(2)] by metis
      next
        case False
        then show ?thesis using d hd_dropWhile [OF False] by (auto simp: list_all_iff)
      qed
      from split_backslashes [OF this, of cur q "length ?t"]
      have "split_arguments cur q (us @ rest) = split_arguments (cur @ ?t) q (?d @ rest)"
        by (metis t append_assoc takeWhile_dropWhile_id)
      also have "\<dots> = split_arguments ((cur @ ?t) @ ?d) q rest"
        using Cons True by (intro less.hyps d) (simp add: le_imp_less_Suc length_dropWhile_le)
      finally show ?thesis by simp
    next
      case False
      then show ?thesis using Cons less.prems less.hyps [of vs "cur @ [u]"] by (simp add: split_literal)
    qed
  qed simp
qed

section \<open>The supervisor gets the arguments it was given\<close>

lemma split_quoted:
  assumes "after_argument rest"
  shows "split_arguments [] False (append_quoted [] us @ rest) =
    us # (if rest = [] then [] else split_arguments [] False (dropWhile blank rest))"
proof (cases "us = [] \<or> list_ex (\<lambda>u. u = space \<or> u = tab \<or> u = quote) us")
  case True
  have "split_arguments [] False (append_quoted [] us @ rest) =
      split_arguments [] True (fst (quote_loop [] 0 us) @ replicate (snd (quote_loop [] 0 us) * 2) backslash @
        quote # rest)"
    using True quote_loop_out [of "[quote]" "[]" 0 us]
    by (simp add: append_quoted_def split_arguments.simps(2) [of _ _ quote] case_prod_unfold)
  also have "\<dots> = split_arguments us True (quote # rest)" by (simp add: split_quoted_loop)
  finally show ?thesis
    using assms by (cases rest) (auto simp: split_arguments.simps(2) [of _ _ quote] after_argument_def split_blank)
next
  case False
  then have "list_all (\<lambda>u. \<not> blank u \<and> u \<noteq> quote) us" "us \<noteq> []"
    by (auto simp: list_ex_iff list_all_iff blank_def)
  moreover have "append_quoted [] us = us" using False by (auto simp: append_quoted_def)
  ultimately show ?thesis
    using assms split_plain [of us rest "[]" False]
    by (cases rest) (auto simp: after_argument_def split_blank)
qed

lemma append_quoted_out: "append_quoted out us = out @ append_quoted [] us"
proof -
  have "quote_loop (out @ [quote]) 0 us =
      (out @ fst (quote_loop [quote] 0 us), snd (quote_loop [quote] 0 us))"
    by (rule quote_loop_out)
  then show ?thesis by (simp add: append_quoted_def case_prod_unfold Let_def)
qed

text \<open>A program path has no quotation mark, and names a file.\<close>

definition program_path :: "u16 list \<Rightarrow> bool" where
  "program_path us \<longleftrightarrow> quote \<notin> set us \<and> us \<noteq> [] \<and> List.last us \<noteq> backslash"

lemma quote_loop_path:
  assumes "quote \<notin> set us" and "us = [] \<longrightarrow> n = 0" and "us \<noteq> [] \<longrightarrow> List.last us \<noteq> backslash"
  shows "quote_loop out n us = (out @ replicate n backslash @ us, 0)"
  using assms
proof (induction us arbitrary: out n)
  case (Cons u us)
  then show ?case
    using Cons.IH [of "n + 1" out] Cons.IH [of 0 "out @ replicate n backslash @ [u]"]
    by (auto simp: replicate_app_Cons_same split: if_splits)
qed simp

lemma split_program_plain:
  "quote \<notin> set us \<Longrightarrow> q \<or> list_all (\<lambda>u. \<not> blank u) us \<Longrightarrow>
   split_program cur q (us @ rest) = split_program (cur @ us) q rest"
  by (induction us arbitrary: cur) auto

lemma split_program_quoted:
  assumes "program_path us"
  shows "split_program [] False (append_quoted [] us @ space # rest) = (us, dropWhile blank rest)"
proof (cases "us = [] \<or> list_ex (\<lambda>u. u = space \<or> u = tab \<or> u = quote) us")
  case True
  have "quote_loop [quote] 0 us = (quote # us, 0)"
    using assms quote_loop_path [of us 0 "[quote]"] by (simp add: program_path_def)
  then have "append_quoted [] us = quote # us @ [quote]" using True by (simp add: append_quoted_def)
  then show ?thesis using assms by (simp add: split_program_plain program_path_def)
next
  case False
  then have "append_quoted [] us = us" "list_all (\<lambda>u. \<not> blank u) us"
    by (auto simp: append_quoted_def list_ex_iff list_all_iff blank_def)
  then show ?thesis using assms by (simp add: split_program_plain program_path_def)
qed

lemma quoted_units: "set (append_quoted [] us) \<subseteq> set us \<union> {quote, backslash}"
proof -
  have "set (fst (quote_loop out n us)) \<subseteq> set out \<union> set us \<union> {quote, backslash}" for out n
  proof (induction us arbitrary: out n)
    case (Cons u us)
    show ?case
      using Cons.IH [of out "n + 1"] Cons.IH [of "out @ replicate (n * 2 + 1) backslash @ [quote]" 0]
        Cons.IH [of "out @ replicate n backslash @ [u]" 0] by (auto split: if_splits)
  qed auto
  from this [of "[quote]" 0] show ?thesis by (auto simp: append_quoted_def case_prod_unfold Let_def dest: subsetD)
qed

lemma command_words:
  "ascii_units ''__supervise'' = [95, 95, 115, 117, 112, 101, 114, 118, 105, 115, 101]"
  "ascii_units ''--run-dir'' = [45, 45, 114, 117, 110, 45, 100, 105, 114]"
  by (simp_all add: ascii_units_def char_code_def)

lemma command_words_quoted:
  "append_quoted [] (ascii_units ''__supervise'') = ascii_units ''__supervise''"
  "append_quoted [] (ascii_units ''--run-dir'') = ascii_units ''--run-dir''"
  by (simp_all add: command_words append_quoted_def unit_defs)

text \<open>
  C23: the supervisor is started with the arguments it is meant to get. Whatever units the run
  directory has (blanks, quotation marks, backslashes before a quotation mark or at the end), the
  command line holds one NUL, at its end, and the started program splits it into its own path, the
  two fixed words and the directory, unchanged. It is refused exactly when an argument has a NUL.
\<close>

theorem command_line_splits:
  assumes "program_path executable"
  shows "case build_command_line executable run_dir of
      Inl e \<Rightarrow> io_kind e = InvalidInput \<and> (0 \<in> set executable \<or> 0 \<in> set run_dir)
    | Inr line \<Rightarrow> 0 \<notin> set executable \<and> 0 \<notin> set run_dir \<and>
        (\<exists>l. line = l @ [0] \<and> 0 \<notin> set l \<and>
          program_arguments l = [executable, ascii_units ''__supervise'', ascii_units ''--run-dir'', run_dir])"
proof (cases "0 \<in> set executable \<or> 0 \<in> set run_dir")
  case False
  let ?l = "append_quoted [] executable @ space # append_quoted [] (ascii_units ''__supervise'') @
    space # append_quoted [] (ascii_units ''--run-dir'') @ space # append_quoted [] run_dir"
  have line: "build_command_line executable run_dir = Inr (?l @ [0])"
    using False
    by (simp add: build_command_line_def wide_def Let_def command_words_quoted append_quoted_out [of "_ @ _"])
  have "program_arguments ?l = [executable, ascii_units ''__supervise'', ascii_units ''--run-dir'', run_dir]"
  proof -
    have fixed: "dropWhile blank (append_quoted [] (ascii_units ''__supervise'') @ r) =
        append_quoted [] (ascii_units ''__supervise'') @ r"
      "dropWhile blank (append_quoted [] (ascii_units ''--run-dir'') @ r) =
        append_quoted [] (ascii_units ''--run-dir'') @ r" for r
      by (simp_all add: command_words_quoted) (simp_all add: command_words blank_def unit_defs)
    have path: "dropWhile blank (append_quoted [] run_dir) = append_quoted [] run_dir"
    proof (cases "append_quoted [] run_dir")
      case (Cons u us)
      then have "\<not> blank u"
        using quote_loop_out [of "[quote]" "[]" 0 run_dir]
        by (auto simp: append_quoted_def blank_def unit_defs case_prod_unfold list_ex_iff split: if_splits)
      then show ?thesis by (simp add: Cons)
    qed simp
    have last: "split_arguments [] False (append_quoted [] run_dir) = [run_dir]"
      using split_quoted [of "[]" run_dir] by (simp add: after_argument_def)
    show ?thesis
      using split_program_quoted [OF assms]
      by (simp add: program_arguments_def fixed path last split_quoted after_argument_def)
  qed
  moreover have "0 \<notin> set ?l"
    using False quoted_units [of executable] quoted_units [of run_dir]
    by (auto simp: command_words_quoted) (auto simp: command_words unit_defs)
  ultimately have "0 \<notin> set executable \<and> 0 \<notin> set run_dir \<and> (\<exists>l. ?l @ [0] = l @ [0] \<and> 0 \<notin> set l \<and>
      program_arguments l = [executable, ascii_units ''__supervise'', ascii_units ''--run-dir'', run_dir])"
    using False by blast
  then show ?thesis unfolding line sum.case .
qed (auto simp: build_command_line_def wide_def Let_def)

theorem command_line_splits_witness:
  "(\<exists>l. build_command_line (ascii_units ''p q'') (ascii_units ''a b'' @ [quote, backslash]) = Inr (l @ [0]) \<and>
     program_arguments l = [ascii_units ''p q'', ascii_units ''__supervise'', ascii_units ''--run-dir'',
       ascii_units ''a b'' @ [quote, backslash]])"
proof -
  have "program_path (ascii_units ''p q'')"
    by (simp add: program_path_def ascii_units_def char_code_def unit_defs)
  from command_line_splits [OF this, of "ascii_units ''a b'' @ [quote, backslash]"]
  show ?thesis
    by (auto simp: ascii_units_def char_code_def unit_defs split: sum.splits)
qed

end
