(* ===== verification/Fs.thy ===== *)
theory Fs
  imports Errors
begin

text \<open>
  The file system the store and the leases work on, and the file helpers of
  \<^verbatim>\<open>src/store.rs\<close>. A world holds the nodes by path, the paths that some process has locked, and
  the faults: an operation on a path may fail with any error; \<open>w_cut\<close> is the part of a file that
  a failed write leaves and \<open>w_kept\<close> the nodes that a failed removal of a tree leaves. A path is the list of its
  components; it is only extended by single components. The JSON library is a parameter per
  document type. An atomic replacement changes the target when it commits and not before; the
  temporary file it uses is not modelled.
\<close>

section \<open>Worlds\<close>

type_synonym path = "string list"

datatype node = Directory | Regular bytes | Special | Symlink "node option"

datatype io_op =
  Stat | Open | Metadata | Read | Make_dir | Create | Write | Write_end | Sync | Commit | Remove | Lock |
  Unlock | Read_dir

record world =
  w_nodes :: "(path \<times> node) list"
  w_locked :: "path list"
  w_faults :: "io_op \<Rightarrow> path \<Rightarrow> io_error option"
  w_cut :: "path \<Rightarrow> nat"
  w_kept :: "path \<Rightarrow> bool"

definition display :: "path \<Rightarrow> string" where
  "display p = concat (map (\<lambda>c. CHR ''/'' # c) p)"

definition node_at :: "world \<Rightarrow> path \<Rightarrow> node option" where
  "node_at w p = map_of (w_nodes w) p"

fun resolved :: "node option \<Rightarrow> node option" where
  "resolved (Some (Symlink target)) = resolved target"
| "resolved n = n"

definition put_node :: "path \<Rightarrow> node \<Rightarrow> world \<Rightarrow> world" where
  "put_node p n w = w\<lparr>w_nodes := (p, n) # filter (\<lambda>(q, _). q \<noteq> p) (w_nodes w)\<rparr>"

definition remove_below :: "path \<Rightarrow> world \<Rightarrow> world" where
  "remove_below p w = w\<lparr>w_nodes := filter (\<lambda>(q, _). \<not> prefix p q) (w_nodes w)\<rparr>"

definition remove_node :: "path \<Rightarrow> world \<Rightarrow> world" where
  "remove_node p w = w\<lparr>w_nodes := filter (\<lambda>(q, _). q \<noteq> p) (w_nodes w)\<rparr>"

lemma map_of_filter_key: "map_of (filter (\<lambda>(q, _). P q) xs) k = (if P k then map_of xs k else None)"
  by (induction xs) (auto split: if_splits)

lemma node_at_put [simp]: "node_at (put_node p n w) q = (if q = p then Some n else node_at w q)"
  by (simp add: node_at_def put_node_def map_of_filter_key)

lemma node_at_remove_below [simp]:
  "node_at (remove_below p w) q = (if prefix p q then None else node_at w q)"
  by (simp add: node_at_def remove_below_def map_of_filter_key)

lemma node_at_remove_node [simp]: "node_at (remove_node p w) q = (if q = p then None else node_at w q)"
  by (simp add: node_at_def remove_node_def map_of_filter_key)

lemma world_frame [simp]:
  "w_locked (put_node p n w) = w_locked w" "w_faults (put_node p n w) = w_faults w"
  "w_locked (remove_below p w) = w_locked w" "w_faults (remove_below p w) = w_faults w"
  "w_locked (remove_node p w) = w_locked w" "w_faults (remove_node p w) = w_faults w"
  "w_cut (put_node p n w) = w_cut w" "w_cut (remove_below p w) = w_cut w"
  "w_cut (remove_node p w) = w_cut w"
  by (simp_all add: put_node_def remove_below_def remove_node_def)

section \<open>System calls\<close>

definition no_entry :: io_error where
  "no_entry = \<lparr>io_kind = NotFound, io_raw = Some 2, io_text = ''No such file or directory (os error 2)''\<rparr>"

definition entry_exists :: io_error where
  "entry_exists = \<lparr>io_kind = AlreadyExists, io_raw = Some 17, io_text = ''File exists (os error 17)''\<rparr>"

definition is_a_directory :: io_error where
  "is_a_directory = \<lparr>io_kind = OtherIo, io_raw = Some 21, io_text = ''Is a directory (os error 21)''\<rparr>"

definition attempt :: "world \<Rightarrow> io_op \<Rightarrow> path \<Rightarrow> io_error + unit" where
  "attempt w op p = (case w_faults w op p of Some e \<Rightarrow> Inl e | None \<Rightarrow> Inr ())"

definition symlink_metadata :: "world \<Rightarrow> path \<Rightarrow> io_error + node" where
  "symlink_metadata w p = bindE (attempt w Stat p) (\<lambda>_. ok_or (node_at w p) no_entry)"

definition path_exists :: "world \<Rightarrow> path \<Rightarrow> bool" where
  "path_exists w p \<longleftrightarrow> attempt w Stat p = Inr () \<and> resolved (node_at w p) \<noteq> None"

text \<open>Opening follows symbolic links; the content of a file that is opened.\<close>

definition open_file :: "world \<Rightarrow> path \<Rightarrow> io_error + bytes" where
  "open_file w p =
     bindE (attempt w Open p) (\<lambda>_.
       case resolved (node_at w p) of
         None \<Rightarrow> Inl no_entry
       | Some (Regular bs) \<Rightarrow> Inr bs
       | Some Directory \<Rightarrow> Inl is_a_directory
       | Some _ \<Rightarrow> Inr [])"

definition parent_dir :: "world \<Rightarrow> path \<Rightarrow> io_error + unit" where
  "parent_dir w p =
     (if p = [] \<or> resolved (node_at w (butlast p)) \<noteq> Some Directory then Inl no_entry else Inr ())"

datatype lock_result = Acquired | Would_block | Lock_error io_error

definition try_lock :: "world \<Rightarrow> path \<Rightarrow> lock_result" where
  "try_lock w p =
     (case attempt w Lock p of
        Inl e \<Rightarrow> Lock_error e
      | Inr _ \<Rightarrow> if p \<in> set (w_locked w) then Would_block else Acquired)"

lemmas syscall_defs = attempt_def symlink_metadata_def open_file_def parent_dir_def

section \<open>The file helpers of the store\<close>

definition document_limit :: nat where
  "document_limit = 4 * 1024 * 1024"

definition ensure_regular_file :: "world \<Rightarrow> path \<Rightarrow> app_error + unit" where
  "ensure_regular_file w p =
     bindE (map_err from_io (symlink_metadata w p)) (\<lambda>metadata.
       case metadata of
         Symlink _ \<Rightarrow> Inl (integrity (''refusing symbolic-link file: '' @ display p))
       | Regular _ \<Rightarrow> Inr ()
       | _ \<Rightarrow> Inl (integrity (''expected a regular file: '' @ display p)))"

text \<open>A document type: its serializer and its parser, with the parser's error text.\<close>

record 'a json_codec =
  js_write :: "'a \<Rightarrow> bytes"
  js_read :: "bytes \<Rightarrow> string + 'a"

definition json_documented :: "'a json_codec \<Rightarrow> 'a \<Rightarrow> bool" where
  "json_documented J x \<longleftrightarrow>
     js_read J (js_write J x @ [10]) = Inr x \<and> length (js_write J x) < document_limit"

definition read_json :: "'a json_codec \<Rightarrow> world \<Rightarrow> path \<Rightarrow> app_error + 'a" where
  "read_json J w p =
     bindE (ensure_regular_file w p) (\<lambda>_.
     bindE (map_err from_io (open_file w p)) (\<lambda>content.
     bindE (map_err from_io (attempt w Metadata p)) (\<lambda>_.
       if document_limit < length content
       then Inl (integrity (''document exceeds '' @ show_nat document_limit @ '' bytes: '' @ display p))
       else map_err (\<lambda>text. integrity (''invalid JSON document '' @ display p @ '': '' @ text))
         (case attempt w Read p of Inl e \<Rightarrow> Inl (io_text e) | Inr _ \<Rightarrow> js_read J content))))"

definition read_bounded_text :: "world \<Rightarrow> path \<Rightarrow> nat \<Rightarrow> app_error + string" where
  "read_bounded_text w p limit =
     bindE (ensure_regular_file w p) (\<lambda>_.
     bindE (map_err from_io (open_file w p)) (\<lambda>content.
     bindE (map_err from_io (attempt w Metadata p)) (\<lambda>_.
       if limit < length content
       then Inl (integrity (''file exceeds '' @ show_nat limit @ '' bytes: '' @ display p))
       else bindE (map_err from_io (attempt w Read p)) (\<lambda>_. Inr (of_bytes content)))))"

text \<open>
  The operations that change the world give the new world with their result. A new file is
  created empty, written (\<open>Write\<close>, then the newline and the flush, \<open>Write_end\<close>) and synced; a
  write that fails leaves a part of its bytes. Text that is not UTF-8 is a fault of its \<open>Read\<close>.
\<close>

definition create_new_file :: "path \<Rightarrow> world \<Rightarrow> world \<times> (app_error + unit)" where
  "create_new_file p w =
     (case bindE (attempt w Create p) (\<lambda>_. bindE (parent_dir w p) (\<lambda>_.
             if node_at w p \<noteq> None then Inl entry_exists else Inr ())) of
        Inl e \<Rightarrow> (w, Inl (from_io e))
      | Inr _ \<Rightarrow> (put_node p (Regular []) w, Inr ()))"

definition create_private_file :: "path \<Rightarrow> world \<Rightarrow> world \<times> (app_error + unit)" where
  "create_private_file p w =
     (case bindE (attempt w Create p) (\<lambda>_. parent_dir w p) of
        Inl e \<Rightarrow> (w, Inl (from_io e))
      | Inr _ \<Rightarrow> (if node_at w p = None then put_node p (Regular []) w else w, Inr ()))"

definition create_new_private_dir :: "path \<Rightarrow> world \<Rightarrow> world \<times> (app_error + unit)" where
  "create_new_private_dir p w =
     (case bindE (attempt w Make_dir p) (\<lambda>_. bindE (parent_dir w p) (\<lambda>_.
             if node_at w p \<noteq> None then Inl entry_exists else Inr ())) of
        Inl e \<Rightarrow> (w, Inl (from_io e))
      | Inr _ \<Rightarrow> (put_node p Directory w, Inr ()))"

definition write_new_file ::
  "(io_error \<Rightarrow> app_error) \<Rightarrow> path \<Rightarrow> bytes \<Rightarrow> world \<Rightarrow> world \<times> (app_error + unit)" where
  "write_new_file werr p bs w =
     (case create_new_file p w of
        (w, Inl e) \<Rightarrow> (w, Inl e)
      | (w, Inr _) \<Rightarrow>
          (case attempt w Write p of
             Inl e \<Rightarrow> (put_node p (Regular (take (w_cut w p) bs)) w, Inl (werr e))
           | Inr _ \<Rightarrow>
               (case bindE (attempt w Write_end p) (\<lambda>_. attempt w Sync p) of
                  Inl e \<Rightarrow> (put_node p (Regular bs) w, Inl (from_io e))
                | Inr _ \<Rightarrow> (put_node p (Regular bs) w, Inr ()))))"

definition write_new_json :: "'a json_codec \<Rightarrow> path \<Rightarrow> 'a \<Rightarrow> world \<Rightarrow> world \<times> (app_error + unit)" where
  "write_new_json J p x = write_new_file (\<lambda>e. from_json (io_text e)) p (js_write J x @ [10])"

definition write_new_private_text :: "path \<Rightarrow> string \<Rightarrow> world \<Rightarrow> world \<times> (app_error + unit)" where
  "write_new_private_text p text = write_new_file from_io p (as_bytes text @ [10])"

definition atomic_write_json :: "'a json_codec \<Rightarrow> path \<Rightarrow> 'a \<Rightarrow> world \<Rightarrow> world \<times> (app_error + unit)" where
  "atomic_write_json J p x w =
     (case bindE (map_err from_io (attempt w Create p)) (\<lambda>_.
           bindE (map_err from_io (parent_dir w p)) (\<lambda>_.
           bindE (map_err (\<lambda>e. from_json (io_text e)) (attempt w Write p)) (\<lambda>_.
           bindE (map_err from_io (attempt w Write_end p)) (\<lambda>_.
           bindE (map_err from_io (attempt w Commit p)) (\<lambda>_.
             if node_at w p = Some Directory then Inl (from_io is_a_directory) else Inr ()))))) of
        Inl e \<Rightarrow> (w, Inl e)
      | Inr _ \<Rightarrow> (put_node p (Regular (js_write J x @ [10])) w, Inr ()))"

definition remove_file :: "path \<Rightarrow> world \<Rightarrow> world \<times> (app_error + unit)" where
  "remove_file p w =
     (case bindE (attempt w Remove p) (\<lambda>_.
             case node_at w p of None \<Rightarrow> Inl no_entry | Some Directory \<Rightarrow> Inl is_a_directory | Some _ \<Rightarrow> Inr ()) of
        Inl e \<Rightarrow> (w, Inl (from_io e))
      | Inr _ \<Rightarrow> (remove_node p w, Inr ()))"

definition remove_dir_all :: "path \<Rightarrow> world \<Rightarrow> world \<times> (app_error + unit)" where
  "remove_dir_all p w =
     (case attempt w Remove p of
        Inl e \<Rightarrow>
          (w\<lparr>w_nodes := filter (\<lambda>(q, _). \<not> prefix p q \<or> w_kept w q) (w_nodes w)\<rparr>, Inl (from_io e))
      | Inr _ \<Rightarrow> (remove_below p w, Inr ()))"

text \<open>The operator \<open>?\<close> between operations that change a state, such as the world.\<close>

definition thenW :: "'s \<times> ('e + 'a) \<Rightarrow> ('a \<Rightarrow> 's \<Rightarrow> 's \<times> ('e + 'b)) \<Rightarrow> 's \<times> ('e + 'b)" where
  "thenW m f = (case m of (w, Inl e) \<Rightarrow> (w, Inl e) | (w, Inr x) \<Rightarrow> f x w)"

lemma thenW_simps [simp]: "thenW (w, Inl e) f = (w, Inl e)" "thenW (w, Inr x) f = f x w"
  by (simp_all add: thenW_def)

lemma thenW_Inr: "thenW m f = (w', Inr y) \<longleftrightarrow> (\<exists>w x. m = (w, Inr x) \<and> f x w = (w', Inr y))"
  by (cases m; cases "snd m") auto

section \<open>Facts about the helpers\<close>

lemma ensure_regular_file_Inr:
  "ensure_regular_file w p = Inr u \<longleftrightarrow> attempt w Stat p = Inr () \<and> (\<exists>bs. node_at w p = Some (Regular bs))"
proof (cases "node_at w p")
  case (Some n)
  then show ?thesis
    by (cases n) (auto simp: ensure_regular_file_def symlink_metadata_def res_simps)
qed (auto simp: ensure_regular_file_def symlink_metadata_def res_simps)

lemma ensure_regular:
  "attempt w Stat p = Inr () \<Longrightarrow> node_at w p = Some (Regular bs) \<Longrightarrow> ensure_regular_file w p = Inr ()"
  by (simp add: ensure_regular_file_Inr)

lemma read_json_Inr:
  "read_json J w p = Inr x \<Longrightarrow> \<exists>bs. node_at w p = Some (Regular bs) \<and> js_read J bs = Inr x"
  by (auto simp: read_json_def res_simps ensure_regular_file_Inr open_file_def split: if_splits sum.splits)

text \<open>Without faults on its path, a document that was written is read back.\<close>

definition healthy :: "world \<Rightarrow> path \<Rightarrow> bool" where
  "healthy w p \<longleftrightarrow> (\<forall>op. w_faults w op p = None)"

lemma healthy_attempt: "healthy w p \<Longrightarrow> attempt w op p = Inr ()"
  by (simp add: healthy_def attempt_def)

lemma healthy_frame [simp]:
  "healthy (put_node q n w) p = healthy w p" "healthy (remove_below q w) p = healthy w p"
  "healthy (remove_node q w) p = healthy w p"
  by (simp_all add: healthy_def)

lemma read_json_healthy:
  assumes "healthy w p" and "node_at w p = Some (Regular (js_write J x @ [10]))" and "json_documented J x"
  shows "read_json J w p = Inr x"
proof -
  have "ensure_regular_file w p = Inr ()"
    using assms(1,2) by (simp add: ensure_regular_file_Inr healthy_attempt)
  then show ?thesis
    using assms by (simp add: read_json_def open_file_def healthy_attempt json_documented_def)
qed

text \<open>What an operation on one path leaves as it is.\<close>

lemma create_new_file_frame:
  "create_new_file p w = (w', r) \<Longrightarrow> q \<noteq> p \<Longrightarrow> node_at w' q = node_at w q"
  by (auto simp: create_new_file_def split: sum.splits)

lemma atomic_write_json_frame:
  assumes "atomic_write_json J p x w = (w', r)"
  shows "q \<noteq> p \<Longrightarrow> node_at w' q = node_at w q" and "w_locked w' = w_locked w"
    and "w_faults w' = w_faults w" and "r = Inl e \<Longrightarrow> w' = w"
    and "r = Inr () \<Longrightarrow> w' = put_node p (Regular (js_write J x @ [10])) w"
  using assms by (auto simp: atomic_write_json_def split: sum.splits)

end
