(* ===== verification/Hex.thy ===== *)
theory Hex
  imports Errors
begin

text \<open>
  Lowercase hexadecimal, \<^verbatim>\<open>src/hex.rs\<close>: the encoder behind the owner tokens and the SHA-256
  digests. The decoder is the reference the encoder is checked against; the pair is an
  interpretation of \<open>text_codec\<close>.
\<close>

definition hex_digits :: string where
  "hex_digits = ''0123456789abcdef''"

fun encode_lower :: "bytes \<Rightarrow> string" where
  "encode_lower [] = []"
| "encode_lower (b # bs) =
     hex_digits ! unat (drop_bit 4 b) # hex_digits ! unat (b AND 0x0f) # encode_lower bs"

definition hex_value :: "char \<Rightarrow> nat option" where
  "hex_value c =
     (if is_ascii_digit c then Some (char_code c - 48)
      else if 97 \<le> char_code c \<and> char_code c \<le> 102 then Some (char_code c - 87)
      else None)"

fun hex_decode :: "string \<Rightarrow> bytes option" where
  "hex_decode [] = Some []"
| "hex_decode [c] = None"
| "hex_decode (c # d # cs) =
     (case (hex_value c, hex_value d, hex_decode cs) of
        (Some h, Some l, Some bs) \<Rightarrow> Some (of_nat (16 * h + l) # bs)
      | _ \<Rightarrow> None)"

lemma length_hex_digits [simp]: "length hex_digits = 16"
  by (simp add: hex_digits_def)

lemma hex_digit_table:
  "list_all (\<lambda>n. hex_value (hex_digits ! n) = Some n \<and> is_ascii_hexdigit (hex_digits ! n)) [0..<16]"
  by code_simp

lemma hex_value_digit: "n < 16 \<Longrightarrow> hex_value (hex_digits ! n) = Some n"
  using hex_digit_table by (simp add: list_all_iff del: upt_conv_Cons)

lemma hexdigit_digit: "n < 16 \<Longrightarrow> is_ascii_hexdigit (hex_digits ! n)"
  using hex_digit_table by (simp add: list_all_iff del: upt_conv_Cons)

lemma high_nibble: "unat (drop_bit 4 (b :: u8)) = unat b div 16"
  by (simp only: unat_drop_bit_eq) (simp add: drop_bit_eq_div)

lemma low_nibble: "unat (b AND 0x0f :: u8) = unat b mod 16"
proof -
  have "b AND 0x0f = take_bit 4 b" by (simp add: take_bit_eq_mask mask_eq_exp_minus_1)
  then show ?thesis by (simp only: unsigned_take_bit_eq) (simp add: take_bit_eq_mod)
qed

lemma high_nibble_bound: "unat (drop_bit 4 (b :: u8)) < 16"
  using unat_less [of b] by (simp add: high_nibble)

lemma low_nibble_bound: "unat (b AND 0x0f :: u8) < 16"
  by (simp add: low_nibble)

lemma hex_decode_encode: "hex_decode (encode_lower bs) = Some bs"
proof (induction bs)
  case (Cons b bs)
  have "16 * (unat b div 16) + unat b mod 16 = unat b" by simp
  then show ?case
    using Cons hex_value_digit [OF high_nibble_bound, of b] hex_value_digit [OF low_nibble_bound, of b]
    by (simp add: high_nibble low_nibble)
qed simp

interpretation hex_codec: text_codec encode_lower hex_decode "\<lambda>_. True"
  by unfold_locales (rule hex_decode_encode)

lemma length_encode_lower [simp]: "length (encode_lower bs) = 2 * length bs"
  by (induction bs) auto

lemma encode_lower_hexdigits: "list_all is_ascii_hexdigit (encode_lower bs)"
  by (induction bs) (auto simp: hexdigit_digit high_nibble_bound low_nibble_bound)

end
