(* ===== verification/Model.thy ===== *)
theory Model
  imports Hex
begin

text \<open>
  The durable documents of a run, \<^verbatim>\<open>src/model.rs\<close>: one datatype per enum and one record per
  struct, with the source's constructors and fields (each field carries a short prefix of its
  struct, since Isabelle's field names are global). A path is the text of a Unix path; a
  \<open>usize\<close> count is \<^typ>\<open>nat\<close>. The lifecycle statuses are given the order of their declaration,
  which is the order in which a run passes through them.
\<close>

section \<open>Lifecycle statuses\<close>

datatype run_status = Created | Starting | Running | Stopping | Exited | Failed | Stopped

definition is_terminal :: "run_status \<Rightarrow> bool" where
  "is_terminal s \<longleftrightarrow> s \<in> {Exited, Failed, Stopped}"

definition is_live :: "run_status \<Rightarrow> bool" where
  "is_live s \<longleftrightarrow> s \<in> {Created, Starting, Running, Stopping}"

lemma is_terminal_simps [simp]:
  "is_terminal Exited" "is_terminal Failed" "is_terminal Stopped"
  "\<not> is_terminal Created" "\<not> is_terminal Starting" "\<not> is_terminal Running"
  "\<not> is_terminal Stopping"
  by (simp_all add: is_terminal_def)

lemma is_live_not_terminal: "is_live s \<longleftrightarrow> \<not> is_terminal s"
  by (cases s) (simp_all add: is_live_def is_terminal_def)

fun status_rank :: "run_status \<Rightarrow> nat" where
  "status_rank Created = 0"
| "status_rank Starting = 1"
| "status_rank Running = 2"
| "status_rank Stopping = 3"
| "status_rank Exited = 4"
| "status_rank Failed = 5"
| "status_rank Stopped = 6"

lemma status_rank_inject [simp]: "status_rank s = status_rank t \<longleftrightarrow> s = t"
  by (cases s; cases t) simp_all

instantiation run_status :: linorder
begin

definition less_eq_run_status :: "run_status \<Rightarrow> run_status \<Rightarrow> bool" where
  "s \<le> t \<longleftrightarrow> status_rank s \<le> status_rank t"

definition less_run_status :: "run_status \<Rightarrow> run_status \<Rightarrow> bool" where
  "s < t \<longleftrightarrow> status_rank s < status_rank t"

instance
  by standard (auto simp: less_eq_run_status_def less_run_status_def)

end

lemma terminal_rank: "is_terminal s \<longleftrightarrow> 4 \<le> status_rank s"
  by (cases s) simp_all

text \<open>A run never leaves the terminal statuses going up the order.\<close>

lemma terminal_up: "is_terminal s \<Longrightarrow> s \<le> t \<Longrightarrow> is_terminal t"
  by (simp add: terminal_rank less_eq_run_status_def)

section \<open>The command and its environment\<close>

datatype environment_mode = Inherit

record environment_policy =
  env_mode :: environment_mode
  env_inherited_name_count :: nat
  env_inherited_names_sha256 :: string
  env_injected_names :: "string list"

record command_spec =
  cmd_program :: string
  cmd_args :: "string list"
  cmd_working_directory :: string
  cmd_environment :: environment_policy

datatype tree_control = UnixProcessGroup | WindowsJobObject

record process_info =
  pi_supervisor_pid :: "u32 option"
  pi_process_pid :: "u32 option"
  pi_tree_control :: tree_control

datatype exit_reason =
  ProcessExited | SpawnFailed | StopRequested | RuntimeLimit | SupervisorFailed

record exit_info =
  ex_code :: "i32 option"
  ex_signal :: "i32 option"
  ex_reason :: exit_reason
  ex_finished_at_ms :: u64

record failure_info =
  fi_kind :: string
  fi_message :: string

record cleanup_info =
  cl_requested_at_ms :: "u64 option"
  cl_completed_at_ms :: "u64 option"
  cl_grace_ms :: "u64 option"
  cl_graceful_signal_supported :: bool
  cl_force_used :: bool
  cl_descendant_cleanup_triggered :: bool

definition cleanup_for_platform :: "bool \<Rightarrow> cleanup_info" where
  \<comment> \<open>the argument is \<open>cfg!(unix)\<close>\<close>
  "cleanup_for_platform unix =
     \<lparr>cl_requested_at_ms = None, cl_completed_at_ms = None, cl_grace_ms = None,
      cl_graceful_signal_supported = unix, cl_force_used = False,
      cl_descendant_cleanup_triggered = False\<rparr>"

section \<open>Logs\<close>

datatype log_stream = Stdout | Stderr

datatype log_encoding = Base64

record log_summary =
  sm_next_cursor :: u64
  sm_captured_bytes :: u64
  sm_dropped_bytes :: u64
  sm_max_bytes :: u64
  sm_stdout_sha256 :: "string option"
  sm_stderr_sha256 :: "string option"

definition log_summary_new :: "u64 \<Rightarrow> log_summary" where
  "log_summary_new max_bytes =
     \<lparr>sm_next_cursor = 1, sm_captured_bytes = 0, sm_dropped_bytes = 0, sm_max_bytes = max_bytes,
      sm_stdout_sha256 = None, sm_stderr_sha256 = None\<rparr>"

record log_record =
  lg_schema_version :: string
  lg_cursor :: u64
  lg_timestamp_ms :: u64
  lg_stream :: log_stream
  lg_encoding :: log_encoding
  lg_data :: string
  lg_byte_count :: u64

record logs_result =
  lo_schema_version :: string
  lo_run_id :: string
  lo_after_cursor :: u64
  lo_records :: "log_record list"
  lo_next_after_cursor :: u64
  lo_has_more :: bool
  lo_captured_bytes :: u64
  lo_dropped_bytes :: u64
  lo_terminal :: bool

definition run_schema_version :: string where
  "run_schema_version = ''procherd.run.v1''"

definition log_record_schema_version :: string where
  "log_record_schema_version = ''procherd.log-record.v1''"

section \<open>Readiness\<close>

datatype readiness_status = RdNotConfigured | RdPending | RdReady | RdTimedOut | RdFailed

datatype readiness_condition =
  Tcp string | Http string | File string | Log string | PortLease string

record readiness_check =
  ck_id :: string
  ck_condition :: readiness_condition
  ck_ready_at_ms :: "u64 option"
  ck_evidence :: "string option"

record readiness_state =
  rd_status :: readiness_status
  rd_timeout_ms :: u64
  rd_deadline_at_ms :: "u64 option"
  rd_ready_at_ms :: "u64 option"
  rd_failure_reason :: "string option"
  rd_checks :: "readiness_check list"

definition readiness_check_new :: "nat \<Rightarrow> readiness_condition \<Rightarrow> readiness_check" where
  "readiness_check_new index c =
     \<lparr>ck_id = ''ready-'' @ show_nat (index + 1), ck_condition = c, ck_ready_at_ms = None,
      ck_evidence = None\<rparr>"

definition readiness_state_new :: "readiness_condition list \<Rightarrow> u64 \<Rightarrow> u64 \<Rightarrow> readiness_state" where
  "readiness_state_new conditions timeout_ms created_at_ms =
     (let configured = conditions \<noteq> [] in
      \<lparr>rd_status = (if configured then RdPending else RdNotConfigured),
       rd_timeout_ms = timeout_ms,
       rd_deadline_at_ms = (if configured then Some (sat_add created_at_ms timeout_ms) else None),
       rd_ready_at_ms = None,
       rd_failure_reason = None,
       rd_checks = map (\<lambda>(i, c). readiness_check_new i c) (enumerate 0 conditions)\<rparr>)"

section \<open>Leases\<close>

datatype port_lease_guarantee = CoordinatedBestEffort

record port_lease =
  pl_name :: string
  pl_address :: "string option"
  pl_port :: "u16 option"
  pl_acquired_at_ms :: "u64 option"
  pl_handoff_at_ms :: "u64 option"
  pl_handoff_gap_ms :: "u64 option"
  pl_released_at_ms :: "u64 option"
  pl_guarantee :: port_lease_guarantee

record temp_directory_lease =
  td_name :: string
  td_path :: "string option"
  td_acquired_at_ms :: "u64 option"
  td_released_at_ms :: "u64 option"
  td_retained_after_release :: bool

record lease_state =
  ls_ports :: "port_lease list"
  ls_temp_directories :: "temp_directory_lease list"

record lease_requests =
  lr_port_names :: "string list"
  lr_temp_directory_names :: "string list"

definition port_lease_new :: "string \<Rightarrow> port_lease" where
  "port_lease_new name =
     \<lparr>pl_name = name, pl_address = None, pl_port = None, pl_acquired_at_ms = None,
      pl_handoff_at_ms = None, pl_handoff_gap_ms = None, pl_released_at_ms = None,
      pl_guarantee = CoordinatedBestEffort\<rparr>"

definition temp_directory_lease_new :: "string \<Rightarrow> temp_directory_lease" where
  "temp_directory_lease_new name =
     \<lparr>td_name = name, td_path = None, td_acquired_at_ms = None, td_released_at_ms = None,
      td_retained_after_release = True\<rparr>"

definition lease_state_requested :: "string list \<Rightarrow> string list \<Rightarrow> lease_state" where
  "lease_state_requested port_names temp_names =
     \<lparr>ls_ports = map port_lease_new port_names,
      ls_temp_directories = map temp_directory_lease_new temp_names\<rparr>"

section \<open>The run state and its companions\<close>

record run_limits =
  rl_max_runtime_ms :: "u64 option"
  rl_runtime_deadline_at_ms :: "u64 option"
  rl_runtime_grace_ms :: u64
  rl_runtime_limit_triggered_at_ms :: "u64 option"

record run_state =
  rs_schema_version :: string
  rs_run_id :: string
  rs_status :: run_status
  rs_created_at_ms :: u64
  rs_updated_at_ms :: u64
  rs_command :: command_spec
  rs_process :: process_info
  rs_exit :: "exit_info option"
  rs_failure :: "failure_info option"
  rs_readiness :: readiness_state
  rs_leases :: lease_state
  rs_limits :: run_limits
  rs_cleanup :: cleanup_info
  rs_logs :: log_summary

record supervisor_spec =
  sp_schema_version :: string
  sp_run_id :: string
  sp_owner_token :: string
  sp_command :: command_spec
  sp_max_log_bytes :: u64
  sp_readiness :: readiness_state
  sp_lease_requests :: lease_requests
  sp_max_runtime_ms :: "u64 option"
  sp_runtime_grace_ms :: u64

record stop_request =
  sq_schema_version :: string
  sq_run_id :: string
  sq_owner_token :: string
  sq_requested_at_ms :: u64
  sq_grace_ms :: u64

datatype observed_status = Consistent | Orphaned

record run_view =
  rv_state :: run_state
  rv_supervisor_active :: bool
  rv_observed_status :: observed_status

definition run_view_new :: "run_state \<Rightarrow> bool \<Rightarrow> run_view" where
  "run_view_new state supervisor_active =
     (let observed_status =
        (if is_live (rs_status state) \<and> \<not> supervisor_active then Orphaned else Consistent) in
      \<lparr>rv_state = state, rv_supervisor_active = supervisor_active,
       rv_observed_status = observed_status\<rparr>)"

datatype wait_condition = WaitRunning | WaitReady | WaitExit

record gc_entry =
  gc_run_id :: string
  gc_status :: run_status
  gc_age_ms :: u64
  gc_eligible :: bool
  gc_reason :: string
  gc_deleted :: bool

lemma run_view_new_simps [simp]:
  "rv_state (run_view_new s a) = s" "rv_supervisor_active (run_view_new s a) = a"
  "rv_observed_status (run_view_new s a) = Orphaned \<longleftrightarrow> \<not> is_terminal (rs_status s) \<and> \<not> a"
  by (simp_all add: run_view_new_def Let_def is_live_not_terminal)

lemma readiness_state_new_simps [simp]:
  "rd_checks (readiness_state_new cs t c) =
     map (\<lambda>(i, c). readiness_check_new i c) (enumerate 0 cs)"
  "rd_status (readiness_state_new cs t c) = (if cs = [] then RdNotConfigured else RdPending)"
  by (simp_all add: readiness_state_new_def Let_def)

lemma lease_state_requested_names [simp]:
  "map pl_name (ls_ports (lease_state_requested ps ts)) = ps"
  "map td_name (ls_temp_directories (lease_state_requested ps ts)) = ts"
  by (simp_all add: lease_state_requested_def comp_def port_lease_new_def
      temp_directory_lease_new_def)

text \<open>A concrete run, for the examples of the other theories.\<close>

definition example_state :: "run_status \<Rightarrow> log_summary \<Rightarrow> run_state" where
  "example_state status logs =
     \<lparr>rs_schema_version = run_schema_version, rs_run_id = ''run_01J00000000000000000000000'',
      rs_status = status, rs_created_at_ms = 0, rs_updated_at_ms = 0,
      rs_command = \<lparr>cmd_program = ''true'', cmd_args = [], cmd_working_directory = ''/'',
        cmd_environment = \<lparr>env_mode = Inherit, env_inherited_name_count = 0,
          env_inherited_names_sha256 = [], env_injected_names = []\<rparr>\<rparr>,
      rs_process = \<lparr>pi_supervisor_pid = None, pi_process_pid = None,
        pi_tree_control = UnixProcessGroup\<rparr>,
      rs_exit = None, rs_failure = None, rs_readiness = readiness_state_new [] 1000 0,
      rs_leases = lease_state_requested [] [],
      rs_limits = \<lparr>rl_max_runtime_ms = None, rl_runtime_deadline_at_ms = None, rl_runtime_grace_ms = 0,
        rl_runtime_limit_triggered_at_ms = None\<rparr>,
      rs_cleanup = cleanup_for_platform True, rs_logs = logs\<rparr>"

lemma example_state_simps [simp]:
  "rs_status (example_state s l) = s" "rs_logs (example_state s l) = l"
  by (simp_all add: example_state_def)

end
