(* ===== verification/Run_Id.thy ===== *)
theory Run_Id
  imports Model
begin

text \<open>
  Run identifiers: \<open>canonical_run_id\<close> and \<open>validate_run_id\<close> of \<^verbatim>\<open>src/store.rs\<close>. The ULID library is
  a parameter: its parser and its printer. \<open>ulid_documented\<close> is what its documentation says of
  them; \<open>crockford\<close> is an implementation that meets it, for the witnesses.
\<close>

record 'u ulid_lib =
  ulid_parse :: "string \<Rightarrow> 'u option"
  ulid_display :: "'u \<Rightarrow> string"

definition canonical_run_id :: "'u ulid_lib \<Rightarrow> string \<Rightarrow> app_error + string" where
  "canonical_run_id L run_id =
     bindE (ok_or (strip_prefix ''run_'' run_id) (usage ''run ID must start with run_'')) (\<lambda>suffix.
     bindE (ok_or (ulid_parse L suffix)
       (usage ''run ID must contain a canonical 26-character uppercase ULID'')) (\<lambda>parsed.
     let canonical = ''run_'' @ ulid_display L parsed in
     if length suffix \<noteq> 26 \<or> canonical \<noteq> run_id then
       Inl (usage ''run ID must contain a canonical 26-character uppercase ULID'')
     else Inr canonical))"

definition validate_run_id :: "'u ulid_lib \<Rightarrow> string \<Rightarrow> app_error + unit" where
  "validate_run_id L run_id = bindE (canonical_run_id L run_id) (\<lambda>_. Inr ())"

definition crockford_alphabet :: string where
  "crockford_alphabet = ''0123456789ABCDEFGHJKMNPQRSTVWXYZ''"

definition ulid_documented :: "'u ulid_lib \<Rightarrow> bool" where
  "ulid_documented L \<longleftrightarrow>
     (\<forall>u. ulid_parse L (ulid_display L u) = Some u \<and> length (ulid_display L u) = 26 \<and>
       set (ulid_display L u) \<subseteq> set crockford_alphabet)"

lemma canonical_run_id_Inr:
  "canonical_run_id L run_id = Inr r \<longleftrightarrow>
     r = run_id \<and>
     (\<exists>u suffix. run_id = ''run_'' @ suffix \<and> ulid_parse L suffix = Some u \<and>
        length suffix = 26 \<and> ulid_display L u = suffix)"
  by (auto simp: canonical_run_id_def res_simps strip_prefix_Some Let_def)

lemma canonical_run_id_Inl: "canonical_run_id L run_id = Inl e \<Longrightarrow> err_code e = 2"
  by (auto simp: canonical_run_id_def res_simps Let_def split: if_splits)

lemma validate_run_id_Inr: "validate_run_id L run_id = Inr () \<longleftrightarrow> canonical_run_id L run_id = Inr run_id"
  by (auto simp: validate_run_id_def res_simps canonical_run_id_Inr)

text \<open>The characters of a documented ULID are safe in a path component.\<close>

lemma crockford_safe:
  "CHR ''/'' \<notin> set crockford_alphabet" "CHR ''.'' \<notin> set crockford_alphabet"
  "CHR ''{'' \<notin> set crockford_alphabet" "CHR 0x5C \<notin> set crockford_alphabet"
  by (simp_all add: crockford_alphabet_def)

lemma canonical_safe:
  assumes "ulid_documented L" and "canonical_run_id L run_id = Inr r"
  shows "length run_id = 30" "CHR ''/'' \<notin> set run_id" "CHR ''.'' \<notin> set run_id"
    "CHR 0x5C \<notin> set run_id"
proof -
  from assms(2) obtain u where u: "run_id = ''run_'' @ ulid_display L u"
    "length (ulid_display L u) = 26"
    by (auto simp: canonical_run_id_Inr)
  then have sub: "set (ulid_display L u) \<subseteq> set crockford_alphabet"
    using assms(1) by (simp add: ulid_documented_def)
  show "length run_id = 30" using u by simp
  show "CHR ''/'' \<notin> set run_id" "CHR ''.'' \<notin> set run_id" "CHR 0x5C \<notin> set run_id"
    using u sub crockford_safe by auto
qed

section \<open>An implementation of the documented library\<close>

fun base32 :: "nat \<Rightarrow> nat \<Rightarrow> string" where
  "base32 0 n = []"
| "base32 (Suc k) n = base32 k (n div 32) @ [crockford_alphabet ! (n mod 32)]"

definition base32_step :: "nat option \<Rightarrow> char \<Rightarrow> nat option" where
  "base32_step acc c =
     (case (acc, char_index crockford_alphabet c) of
        (Some n, Some d) \<Rightarrow> Some (32 * n + d)
      | _ \<Rightarrow> None)"

definition base32_value :: "string \<Rightarrow> nat option" where
  "base32_value s = foldl base32_step (Some 0) s"

definition crockford :: "128 word ulid_lib" where
  "crockford =
     \<lparr>ulid_parse = (\<lambda>s. case base32_value s of
          None \<Rightarrow> None
        | Some n \<Rightarrow> if length s = 26 \<and> n < 2 ^ 128 then Some (of_nat n) else None),
      ulid_display = (\<lambda>u. base32 26 (unat u))\<rparr>"

lemma length_alphabet [simp]: "length crockford_alphabet = 32"
  by (simp add: crockford_alphabet_def)

lemma distinct_alphabet: "distinct crockford_alphabet"
  by (simp add: crockford_alphabet_def)

lemma length_base32 [simp]: "length (base32 k n) = k"
  by (induction k arbitrary: n) auto

lemma set_base32: "set (base32 k n) \<subseteq> set crockford_alphabet"
  by (induction k arbitrary: n) auto

lemma base32_value_base32: "base32_value (base32 k n) = Some (n mod 32 ^ k)"
proof (induction k arbitrary: n)
  case (Suc k)
  have "char_index crockford_alphabet (crockford_alphabet ! (n mod 32)) = Some (n mod 32)"
    by (rule char_index_nth) (simp_all add: distinct_alphabet)
  moreover have "32 * (n div 32 mod 32 ^ k) + n mod 32 = n mod 32 ^ Suc k"
    by (simp add: mod_mult2_eq)
  ultimately show ?case
    using Suc by (simp add: base32_value_def base32_step_def)
qed (simp add: base32_value_def)

lemma crockford_documented: "ulid_documented crockford"
proof -
  have "unat (u :: 128 word) mod 32 ^ 26 = unat u" for u
    using unat_less [of u] by simp
  moreover have "unat (u :: 128 word) < 2 ^ 128" for u
    using unat_less [of u] by simp
  ultimately show ?thesis
    by (auto simp: ulid_documented_def crockford_def base32_value_base32 dest: set_base32 [THEN subsetD])
qed

text \<open>
  An accepted run ID names exactly one directory below the state root: it is returned
  unchanged, has 30 characters and holds no slash, backslash or dot, so joining it to the root
  can neither leave the root nor reach into another run.
\<close>

theorem canonical_run_id_safe:
  assumes "ulid_documented L" and "canonical_run_id L run_id = Inr r"
  shows "r = run_id \<and> prefix ''run_'' run_id \<and> length run_id = 30 \<and>
    CHR ''/'' \<notin> set run_id \<and> CHR 0x5C \<notin> set run_id \<and> CHR ''.'' \<notin> set run_id"
  using canonical_safe [OF assms] assms(2) by (auto simp: canonical_run_id_Inr)

theorem canonical_run_id_safe_witness:
  "canonical_run_id crockford (''run_'' @ base32 26 7) = Inr (''run_'' @ base32 26 7) \<and>
   length (''run_'' @ base32 26 7) = 30"
proof -
  have "ulid_parse crockford (base32 26 7) = Some 7"
    by (simp add: crockford_def base32_value_base32)
  then have c: "canonical_run_id crockford (''run_'' @ base32 26 7) = Inr (''run_'' @ base32 26 7)"
    unfolding canonical_run_id_Inr by (auto simp: crockford_def)
  show ?thesis using c canonical_run_id_safe [OF crockford_documented c] by blast
qed

text \<open>
  Every identifier the program generates, \<open>run_\<close> followed by a displayed ULID, is accepted
  again and is its own canonical form.
\<close>

theorem generated_run_id_accepted:
  assumes "ulid_documented L"
  shows "canonical_run_id L (''run_'' @ ulid_display L u) = Inr (''run_'' @ ulid_display L u)"
  using assms by (simp add: canonical_run_id_Inr ulid_documented_def)

theorem generated_run_id_accepted_witness:
  "canonical_run_id crockford (''run_'' @ ulid_display crockford 12345) =
     Inr (''run_'' @ ulid_display crockford 12345)"
  by (rule generated_run_id_accepted [OF crockford_documented])

end
