(* ===== verification/Store.thy ===== *)
theory Store
  imports Fs Run_Id Lease_Names
begin

text \<open>
  The store of \<^verbatim>\<open>src/store.rs\<close>: the operations of \<open>Store\<close> on a world, the validation of a
  persisted run state, and where the store is. The ULID library and the JSON codecs are
  parameters. The lemmas show the round trip of a created run, that nothing is overwritten, that
  what is listed and read is validated, and that the removal of a run spares every live run.
\<close>

section \<open>Where the store is\<close>

datatype platform = Windows | Macos | Other_unix

definition platform_data_dir :: "platform \<Rightarrow> (string \<Rightarrow> string option) \<Rightarrow> app_error + string" where
  "platform_data_dir platform var =
     (case platform of
        Windows \<Rightarrow> ok_or (var ''LOCALAPPDATA'')
          (operational ''state_directory'' ''LOCALAPPDATA is not defined'')
      | Macos \<Rightarrow> bindE (ok_or (var ''HOME'')
          (operational ''state_directory'' ''HOME is not defined''))
          (\<lambda>home. Inr (home @ ''/Library/Application Support''))
      | Other_unix \<Rightarrow>
          (case var ''XDG_DATA_HOME'' of
             Some dir \<Rightarrow> Inr dir
           | None \<Rightarrow> bindE (ok_or (var ''HOME'')
               (operational ''state_directory'' ''neither XDG_DATA_HOME nor HOME is defined''))
               (\<lambda>home. Inr (home @ ''/.local/share''))))"

text \<open>
  A recursive creation makes every missing directory on the way. A path on the command line is a text;
  \<open>components\<close> is the standard library's parse of it, and \<open>canonicalize\<close> the system's resolution of it.
\<close>

definition ensure_dir :: "path \<Rightarrow> world \<Rightarrow> world \<times> (app_error + unit)" where
  "ensure_dir p w =
     (if resolved (node_at w p) = Some Directory then (w, Inr ()) else create_new_private_dir p w)"

text \<open>The recursive \<open>create_private_dir\<close>, below a directory that exists.\<close>

fun create_private_dirs :: "path \<Rightarrow> string list \<Rightarrow> world \<Rightarrow> world \<times> (app_error + unit)" where
  "create_private_dirs base [] w = (w, Inr ())"
| "create_private_dirs base (c # cs) w =
     thenW (ensure_dir (base @ [c]) w) (\<lambda>_ w. create_private_dirs (base @ [c]) cs w)"

definition create_private_dir :: "(string \<Rightarrow> path) \<Rightarrow> string \<Rightarrow> world \<Rightarrow> world \<times> (app_error + unit)" where
  "create_private_dir components p w = create_private_dirs [] (components p) w"

definition store_resolve ::
  "platform \<Rightarrow> (string \<Rightarrow> string option) \<Rightarrow> (string \<Rightarrow> path) \<Rightarrow> (world \<Rightarrow> string \<Rightarrow> io_error + path) \<Rightarrow>
   string option \<Rightarrow> world \<Rightarrow> world \<times> (app_error + path)" where
  "store_resolve platform var components canonicalize explicit w =
     thenW (w, case explicit of
         Some p \<Rightarrow> Inr p
       | None \<Rightarrow>
           (case var ''PROCHERD_STATE_DIR'' of
              Some p \<Rightarrow> Inr p
            | None \<Rightarrow> bindE (platform_data_dir platform var) (\<lambda>dir. Inr (dir @ ''/procherd''))))
       (\<lambda>root w.
     thenW (create_private_dir components root w) (\<lambda>_ w.
       (w, map_err (\<lambda>e. operational ''state_directory''
           (''cannot canonicalize state directory '' @ root @ '': '' @ io_text e))
         (canonicalize w root))))"

section \<open>Validation of a persisted run\<close>

definition validate_persisted_run_state :: "'u ulid_lib \<Rightarrow> run_state \<Rightarrow> app_error + unit" where
  "validate_persisted_run_state L st =
     (if rs_schema_version st \<noteq> run_schema_version
      then Inl (integrity (''unsupported run state schema '' @ rs_schema_version st))
      else
        bindE (map_err (\<lambda>_. integrity ''run state contains an invalid run ID'')
          (canonical_run_id L (rs_run_id st))) (\<lambda>_.
        bindE (map_err (\<lambda>e. integrity (''run state contains invalid leases: '' @ err_message e))
          (validate_requests (map pl_name (ls_ports (rs_leases st)))
            (map td_name (ls_temp_directories (rs_leases st))))) (\<lambda>_.
        Inr ())))"

definition parse_run_state_document ::
  "'u ulid_lib \<Rightarrow> run_state json_codec \<Rightarrow> bytes \<Rightarrow> app_error + run_state" where
  "parse_run_state_document L J bs =
     (if document_limit < length bs
      then Inl (integrity (''run state document exceeds '' @ show_nat document_limit @ '' bytes''))
      else
        bindE (map_err (\<lambda>text. integrity (''invalid run state JSON: '' @ text)) (js_read J bs)) (\<lambda>st.
        bindE (validate_persisted_run_state L st) (\<lambda>_. Inr st)))"

section \<open>The operations\<close>

definition run_dir :: "'u ulid_lib \<Rightarrow> path \<Rightarrow> world \<Rightarrow> string \<Rightarrow> app_error + path" where
  "run_dir L root w run_id =
     bindE (canonical_run_id L run_id) (\<lambda>run_id.
       let dir = root @ [run_id] in
       case symlink_metadata w dir of
         Inr (Symlink _) \<Rightarrow> Inl (integrity (''run directory is a symbolic link: '' @ display dir))
       | Inr Directory \<Rightarrow> Inr dir
       | Inr _ \<Rightarrow> Inl (integrity (''run path is not a directory: '' @ display dir))
       | Inl e \<Rightarrow>
           if io_kind e = NotFound then Inl (not_found (''run not found: '' @ run_id))
           else Inl (from_io e))"

definition create_run ::
  "'u ulid_lib \<Rightarrow> run_state json_codec \<Rightarrow> supervisor_spec json_codec \<Rightarrow> path \<Rightarrow>
   run_state \<Rightarrow> supervisor_spec \<Rightarrow> string \<Rightarrow> world \<Rightarrow> world \<times> (app_error + path)" where
  "create_run L J JS root st spec owner_token w =
     (case canonical_run_id L (rs_run_id st) of
        Inl e \<Rightarrow> (w, Inl e)
      | Inr run_id \<Rightarrow>
          let dir = root @ [run_id] in
          thenW (create_new_private_dir dir w) (\<lambda>_ w.
          thenW (create_private_file (dir @ [''supervisor.lock'']) w) (\<lambda>_ w.
          thenW (write_new_json J (dir @ [''state.json'']) st w) (\<lambda>_ w.
          thenW (write_new_json JS (dir @ [''spec.json'']) spec w) (\<lambda>_ w.
          thenW (write_new_private_text (dir @ [''owner.token'']) owner_token w) (\<lambda>_ w.
          (w, Inr dir)))))))"

definition read_state ::
  "'u ulid_lib \<Rightarrow> run_state json_codec \<Rightarrow> path \<Rightarrow> world \<Rightarrow> string \<Rightarrow> app_error + run_state" where
  "read_state L J root w run_id =
     bindE (run_dir L root w run_id) (\<lambda>dir.
     bindE (read_json J w (dir @ [''state.json''])) (\<lambda>st.
     bindE (validate_persisted_run_state L st) (\<lambda>_.
       if rs_run_id st \<noteq> run_id
       then Inl (integrity (''state run ID '' @ rs_run_id st @ '' does not match directory '' @ run_id))
       else Inr st)))"

text \<open>\<open>str::trim\<close>, on the ASCII whitespace (the other Unicode spaces are not trimmed here).\<close>

definition is_space :: "char \<Rightarrow> bool" where
  "is_space c \<longleftrightarrow> char_code c = 32 \<or> (9 \<le> char_code c \<and> char_code c \<le> 13)"

definition trim :: "string \<Rightarrow> string" where
  "trim s = rev (dropWhile is_space (rev (dropWhile is_space s)))"

definition read_owner_token :: "'u ulid_lib \<Rightarrow> path \<Rightarrow> world \<Rightarrow> string \<Rightarrow> app_error + string" where
  "read_owner_token L root w run_id =
     bindE (run_dir L root w run_id) (\<lambda>dir.
     bindE (read_bounded_text w (dir @ [''owner.token'']) 256) (\<lambda>text.
       let token = trim text in
       if length token \<noteq> 64 \<or> \<not> list_all is_ascii_hexdigit token
       then Inl (integrity ''owner token is malformed'')
       else Inr token))"

definition write_stop_request ::
  "'u ulid_lib \<Rightarrow> stop_request json_codec \<Rightarrow> path \<Rightarrow> stop_request \<Rightarrow> world \<Rightarrow> world \<times> (app_error + unit)" where
  "write_stop_request L J root request w =
     (case run_dir L root w (sq_run_id request) of
        Inl e \<Rightarrow> (w, Inl e)
      | Inr dir \<Rightarrow> atomic_write_json J (dir @ [''stop.request.json'']) request w)"

definition supervisor_active :: "'u ulid_lib \<Rightarrow> path \<Rightarrow> world \<Rightarrow> string \<Rightarrow> app_error + bool" where
  "supervisor_active L root w run_id =
     bindE (run_dir L root w run_id) (\<lambda>dir.
       let path = dir @ [''supervisor.lock''] in
       bindE (ensure_regular_file w path) (\<lambda>_.
       bindE (map_err from_io (open_file w path)) (\<lambda>_.
       case try_lock w path of
         Acquired \<Rightarrow> bindE (map_err from_io (attempt w Unlock path)) (\<lambda>_. Inr False)
       | Would_block \<Rightarrow> Inr True
       | Lock_error e \<Rightarrow> Inl (from_io e))))"

text \<open>The names in a directory, in the order the system gives them.\<close>

definition entry_names :: "world \<Rightarrow> path \<Rightarrow> string list" where
  "entry_names w root =
     remdups (map (\<lambda>(p, _). List.last p) (filter (\<lambda>(p, _). p \<noteq> [] \<and> butlast p = root) (w_nodes w)))"

fun collect_run_ids :: "'u ulid_lib \<Rightarrow> path \<Rightarrow> world \<Rightarrow> string list \<Rightarrow> string list \<Rightarrow> app_error + string list" where
  "collect_run_ids L root w ids [] = Inr ids"
| "collect_run_ids L root w ids (name # names) =
     bindE (map_err from_io (symlink_metadata w (root @ [name]))) (\<lambda>file_type.
       if file_type \<noteq> Directory then collect_run_ids L root w ids names
       else if validate_run_id L name = Inr () then collect_run_ids L root w (ids @ [name]) names
       else collect_run_ids L root w ids names)"

definition list_run_ids :: "'u ulid_lib \<Rightarrow> path \<Rightarrow> world \<Rightarrow> app_error + string list" where
  "list_run_ids L root w =
     bindE (map_err from_io (attempt w Read_dir root)) (\<lambda>_.
     bindE (collect_run_ids L root w [] (entry_names w root)) (\<lambda>ids.
       Inr (rev (sort ids))))"

definition remove_terminal_run ::
  "'u ulid_lib \<Rightarrow> run_state json_codec \<Rightarrow> path \<Rightarrow> string \<Rightarrow> world \<Rightarrow> world \<times> (app_error + unit)" where
  "remove_terminal_run L J root run_id w =
     (case bindE (run_dir L root w run_id) (\<lambda>dir.
           bindE (supervisor_active L root w run_id) (\<lambda>active.
             if active
             then Inl (operational ''gc_live_run'' (''refusing to remove active run '' @ run_id))
             else
               bindE (read_state L J root w run_id) (\<lambda>st.
                 if \<not> is_terminal (rs_status st)
                 then Inl (operational ''gc_live_run''
                   (''refusing to remove non-terminal run '' @ run_id))
                 else Inr dir))) of
        Inl e \<Rightarrow> (w, Inl e)
      | Inr dir \<Rightarrow> remove_dir_all dir w)"

section \<open>A created run is read back\<close>

lemma attempt_frame [simp]:
  "attempt (put_node q n w) op p = attempt w op p" "attempt (remove_below q w) op p = attempt w op p"
  "attempt (remove_node q w) op p = attempt w op p"
  by (simp_all add: attempt_def)

lemma create_new_private_dir_healthy:
  "healthy w p \<Longrightarrow> p \<noteq> [] \<Longrightarrow> node_at w (butlast p) = Some Directory \<Longrightarrow> node_at w p = None \<Longrightarrow>
   create_new_private_dir p w = (put_node p Directory w, Inr ())"
  by (simp add: create_new_private_dir_def healthy_attempt parent_dir_def)

lemma create_private_file_healthy:
  "healthy w p \<Longrightarrow> p \<noteq> [] \<Longrightarrow> node_at w (butlast p) = Some Directory \<Longrightarrow> node_at w p = None \<Longrightarrow>
   create_private_file p w = (put_node p (Regular []) w, Inr ())"
  by (simp add: create_private_file_def healthy_attempt parent_dir_def)

lemma put_node_twice [simp]: "put_node p n (put_node p m w) = put_node p n w"
  by (simp add: put_node_def filter_filter [symmetric] case_prod_unfold)

lemma write_new_file_healthy:
  "healthy w p \<Longrightarrow> p \<noteq> [] \<Longrightarrow> node_at w (butlast p) = Some Directory \<Longrightarrow> node_at w p = None \<Longrightarrow>
   write_new_file werr p bs w = (put_node p (Regular bs) w, Inr ())"
  by (simp add: write_new_file_def create_new_file_def healthy_attempt parent_dir_def)

lemma run_dir_Inr:
  "run_dir L root w run_id = Inr dir \<longleftrightarrow>
     canonical_run_id L run_id = Inr run_id \<and> dir = root @ [run_id] \<and>
     attempt w Stat dir = Inr () \<and> node_at w dir = Some Directory"
proof -
  have "run_dir L root w run_id = Inr dir \<longleftrightarrow>
      (\<exists>r. canonical_run_id L run_id = Inr r \<and> dir = root @ [r] \<and>
        symlink_metadata w (root @ [r]) = Inr Directory)"
  proof (cases "canonical_run_id L run_id")
    case (Inr r)
    show ?thesis
    proof (cases "symlink_metadata w (root @ [r])")
      case (Inr n)
      then show ?thesis
        by (cases n) (auto simp: run_dir_def Let_def \<open>canonical_run_id L run_id = Inr r\<close>)
    qed (auto simp: run_dir_def Let_def Inr)
  qed (simp add: run_dir_def)
  then show ?thesis
    by (auto simp: canonical_run_id_Inr symlink_metadata_def res_simps)
qed

lemma trim_token:
  assumes "list_all is_ascii_hexdigit token"
  shows "trim (token @ [CHR 0x0A]) = token"
proof -
  have no: "\<forall>c\<in>set token. \<not> is_space c"
    using assms by (force simp: list_all_iff is_ascii_hexdigit_def is_ascii_digit_def is_space_def)
  have newline: "is_space (CHR 0x0A)" by (simp add: is_space_def char_code_def)
  have keep: "dropWhile is_space (token @ [CHR 0x0A]) = (if token = [] then [] else token @ [CHR 0x0A])"
    using no newline by (cases token) simp_all
  have "dropWhile is_space (rev token) = rev token"
    using no by (cases "rev token") (auto simp: rev_swap dest!: arg_cong [where f = set])
  then show ?thesis by (simp add: trim_def keep newline)
qed

text \<open>A run directory that does not exist yet, on a healthy part of the file system.\<close>

definition fresh_run :: "world \<Rightarrow> path \<Rightarrow> string \<Rightarrow> bool" where
  "fresh_run w root run_id \<longleftrightarrow> node_at w root = Some Directory \<and>
     (\<forall>q. prefix (root @ [run_id]) q \<longrightarrow> node_at w q = None \<and> healthy w q)"

definition run_files :: "run_state json_codec \<Rightarrow> supervisor_spec json_codec \<Rightarrow> path \<Rightarrow> run_state \<Rightarrow>
    supervisor_spec \<Rightarrow> string \<Rightarrow> world \<Rightarrow> world" where
  "run_files J JS dir st spec token w =
     put_node (dir @ [''owner.token'']) (Regular (as_bytes token @ [10]))
       (put_node (dir @ [''spec.json'']) (Regular (js_write JS spec @ [10]))
         (put_node (dir @ [''state.json'']) (Regular (js_write J st @ [10]))
           (put_node (dir @ [''supervisor.lock'']) (Regular []) (put_node dir Directory w))))"

lemma create_run_healthy:
  assumes "fresh_run w root (rs_run_id st)" and "canonical_run_id L (rs_run_id st) = Inr (rs_run_id st)"
  shows "create_run L J JS root st spec token w =
    (run_files J JS (root @ [rs_run_id st]) st spec token w, Inr (root @ [rs_run_id st]))"
proof -
  have new: "node_at w (root @ rs_run_id st # q) = None" "healthy w (root @ rs_run_id st # q)" for q
    using assms(1) by (auto simp: fresh_run_def prefix_def)
  have root: "node_at w root = Some Directory" using assms(1) by (simp add: fresh_run_def)
  show ?thesis
    unfolding create_run_def assms(2)
    by (simp add: Let_def create_new_private_dir_healthy create_private_file_healthy
        write_new_json_def write_new_private_text_def write_new_file_healthy new root butlast_append
        run_files_def)
qed

text \<open>What the files of a new run hold, read back.\<close>

lemma run_files_nodes:
  assumes "fresh_run w root run_id" and "w' = run_files J JS (root @ [run_id]) st spec token w"
  shows "node_at w' (root @ [run_id]) = Some Directory"
    and "node_at w' (root @ [run_id, ''state.json'']) = Some (Regular (js_write J st @ [10]))"
    and "node_at w' (root @ [run_id, ''spec.json'']) = Some (Regular (js_write JS spec @ [10]))"
    and "node_at w' (root @ [run_id, ''owner.token'']) = Some (Regular (as_bytes token @ [10]))"
    and "node_at w' (root @ [run_id, ''supervisor.lock'']) = Some (Regular [])"
    and "healthy w' (root @ run_id # q)" and "w_locked w' = w_locked w"
    and "\<not> prefix (root @ [run_id]) p \<Longrightarrow> node_at w' p = node_at w p"
  using assms by (auto simp: run_files_def fresh_run_def prefix_def)

lemma run_files_readable:
  assumes "fresh_run w root (rs_run_id st)" and "canonical_run_id L (rs_run_id st) = Inr (rs_run_id st)"
    and "validate_persisted_run_state L st = Inr ()" and "json_documented J st"
    and "length token = 64" and "list_all is_ascii_hexdigit token"
    and "w' = run_files J JS (root @ [rs_run_id st]) st spec token w"
  shows "read_state L J root w' (rs_run_id st) = Inr st"
    and "read_owner_token L root w' (rs_run_id st) = Inr token"
    and "supervisor_active L root w' (rs_run_id st) =
      Inr (root @ [rs_run_id st, ''supervisor.lock''] \<in> set (w_locked w))"
proof -
  note nodes = run_files_nodes [OF assms(1,7)]
  have healthy: "healthy w' (root @ rs_run_id st # q)" for q by (rule nodes(6))
  note ok = healthy_attempt [OF healthy]
  have dir: "run_dir L root w' (rs_run_id st) = Inr (root @ [rs_run_id st])"
    using assms(2) nodes(1) ok [of _ "[]"] by (simp add: run_dir_Inr)
  have "read_json J w' (root @ [rs_run_id st, ''state.json'']) = Inr st"
    by (rule read_json_healthy [OF healthy nodes(2) assms(4)])
  then show "read_state L J root w' (rs_run_id st) = Inr st"
    unfolding read_state_def dir using assms(3) by simp
  have "of_bytes (as_bytes token @ [10]) = token @ [CHR 0x0A]"
    using of_bytes_as_bytes [of token] of_bytes_as_bytes [of "[CHR 0x0A]"]
    by (simp add: of_bytes_def as_bytes_def)
  then show "read_owner_token L root w' (rs_run_id st) = Inr token"
    unfolding read_owner_token_def dir
    using assms(5,6) nodes(4) ok [of _ "[''owner.token'']"]
    by (simp add: read_bounded_text_def ensure_regular open_file_def trim_token)
  show "supervisor_active L root w' (rs_run_id st) =
      Inr (root @ [rs_run_id st, ''supervisor.lock''] \<in> set (w_locked w))"
    unfolding supervisor_active_def dir
    using nodes(5,7) ok [of _ "[''supervisor.lock'']"]
    by (simp add: Let_def ensure_regular open_file_def try_lock_def)
qed

text \<open>
  C31: a run that is created is read back. On a healthy file system where the run does not exist
  yet, creating it succeeds, and then its state and its owner token are read back unchanged, its
  supervisor is reported active exactly when some process holds its lock, and nothing outside
  its directory has changed.
\<close>

theorem created_run_readable:
  assumes "fresh_run w root (rs_run_id st)" and "canonical_run_id L (rs_run_id st) = Inr (rs_run_id st)"
    and "validate_persisted_run_state L st = Inr ()" and "json_documented J st"
    and "length token = 64" and "list_all is_ascii_hexdigit token"
    and "create_run L J JS root st spec token w = (w', r)"
  shows "r = Inr (root @ [rs_run_id st]) \<and> read_state L J root w' (rs_run_id st) = Inr st \<and>
    read_owner_token L root w' (rs_run_id st) = Inr token \<and>
    supervisor_active L root w' (rs_run_id st) =
      Inr (root @ [rs_run_id st, ''supervisor.lock''] \<in> set (w_locked w)) \<and>
    (\<forall>q. \<not> prefix (root @ [rs_run_id st]) q \<longrightarrow> node_at w' q = node_at w q)"
proof -
  have w': "w' = run_files J JS (root @ [rs_run_id st]) st spec token w" and r: "r = Inr (root @ [rs_run_id st])"
    using create_run_healthy [OF assms(1,2), of J JS spec token] assms(7) by simp_all
  show ?thesis
    using run_files_readable [OF assms(1-6) w'] run_files_nodes(8) [OF assms(1) w'] r by blast
qed

text \<open>The whole function touches only the directory of its run, and only when it is new.\<close>

definition agree_outside :: "path \<Rightarrow> world \<Rightarrow> world \<Rightarrow> bool" where
  "agree_outside dir w w' \<longleftrightarrow> (\<forall>q. \<not> prefix dir q \<longrightarrow> node_at w' q = node_at w q)"

lemma agree_refl [simp]: "agree_outside dir w w"
  by (simp add: agree_outside_def)

lemma agree_trans: "agree_outside dir w v \<Longrightarrow> agree_outside dir v u \<Longrightarrow> agree_outside dir w u"
  by (simp add: agree_outside_def)

lemma agree_put: "prefix dir p \<Longrightarrow> agree_outside dir w (put_node p n w)"
  by (auto simp: agree_outside_def)

lemma agree_create:
  assumes "prefix dir p"
  shows "agree_outside dir w (fst (create_new_private_dir p w))"
    and "agree_outside dir w (fst (create_private_file p w))"
    and "agree_outside dir w (fst (create_new_file p w))"
  using agree_put [OF assms]
  by (auto simp: create_new_private_dir_def create_private_file_def create_new_file_def split: sum.splits)

lemma agree_write:
  assumes "prefix dir p"
  shows "agree_outside dir w (fst (write_new_file werr p bs w))"
  using agree_create(3) [OF assms, of w] agree_put [OF assms]
  by (auto simp: write_new_file_def split: sum.splits prod.splits intro: agree_trans)

lemma agree_thenW:
  assumes "agree_outside dir w (fst m)" and "\<And>x v. agree_outside dir v (fst (f x v))"
  shows "agree_outside dir w (fst (thenW m f))"
proof -
  obtain v r where m: "m = (v, r)" by (cases m)
  show ?thesis using assms(1) agree_trans [OF _ assms(2)] by (cases r) (simp_all add: m)
qed

text \<open>
  Creating a run never overwrites anything: whatever fails on the way, nothing outside the
  new directory changes, and when the directory exists already the call fails and changes
  nothing at all.
\<close>

theorem create_run_isolated:
  "agree_outside (root @ [rs_run_id st]) w (fst (create_run L J JS root st spec token w)) \<and>
   (node_at w (root @ [rs_run_id st]) = None \<or>
      fst (create_run L J JS root st spec token w) = w \<and>
      (\<exists>e. snd (create_run L J JS root st spec token w) = Inl e))"
proof (cases "canonical_run_id L (rs_run_id st)")
  case (Inr r)
  let ?dir = "root @ [rs_run_id st]"
  have r: "r = rs_run_id st" using Inr by (simp add: canonical_run_id_Inr)
  have below: "prefix ?dir (?dir @ [x])" for x by simp
  have "agree_outside ?dir w (fst (create_run L J JS root st spec token w))"
    unfolding create_run_def Inr sum.case r Let_def write_new_json_def write_new_private_text_def
    by (intro agree_thenW agree_create agree_write below) simp_all
  moreover have "fst (create_run L J JS root st spec token w) = w \<and>
      (\<exists>e. snd (create_run L J JS root st spec token w) = Inl e)" if "node_at w ?dir \<noteq> None"
  proof -
    have "\<exists>e. create_new_private_dir ?dir w = (w, Inl e)"
      using that by (auto simp: create_new_private_dir_def res_simps split: sum.splits)
    then show ?thesis unfolding create_run_def Inr sum.case r Let_def by auto
  qed
  ultimately show ?thesis by blast
qed (simp add: create_run_def)

section \<open>Removing a run\<close>

lemma remove_run_cases:
  obtains (refused) "fst (remove_terminal_run L J root run_id w) = w"
  | (removed) st where "read_state L J root w run_id = Inr st" "is_terminal (rs_status st)"
      "root @ [run_id, ''supervisor.lock''] \<notin> set (w_locked w)"
      "remove_terminal_run L J root run_id w = remove_dir_all (root @ [run_id]) w"
proof -
  let ?guard = "bindE (run_dir L root w run_id) (\<lambda>dir.
           bindE (supervisor_active L root w run_id) (\<lambda>active.
             if active
             then Inl (operational ''gc_live_run'' (''refusing to remove active run '' @ run_id))
             else
               bindE (read_state L J root w run_id) (\<lambda>st.
                 if \<not> is_terminal (rs_status st)
                 then Inl (operational ''gc_live_run''
                   (''refusing to remove non-terminal run '' @ run_id))
                 else Inr dir)))"
  show thesis
  proof (cases ?guard)
    case (Inr dir)
    then have dir: "run_dir L root w run_id = Inr dir" "supervisor_active L root w run_id = Inr False"
      and st: "\<exists>st. read_state L J root w run_id = Inr st \<and> is_terminal (rs_status st)"
      by (auto simp: res_simps split: if_splits)
    have eq: "dir = root @ [run_id]" using dir(1) by (simp add: run_dir_Inr)
    have "root @ [run_id, ''supervisor.lock''] \<notin> set (w_locked w)"
      using dir eq
      by (auto simp: supervisor_active_def try_lock_def res_simps Let_def split: lock_result.splits
          sum.splits if_splits)
    moreover have "remove_terminal_run L J root run_id w = remove_dir_all (root @ [run_id]) w"
      unfolding remove_terminal_run_def Inr by (simp add: eq)
    ultimately show thesis using st removed by blast
  next
    case (Inl e)
    then show thesis by (intro refused) (simp add: remove_terminal_run_def)
  qed
qed

lemma remove_dir_all_outside: "agree_outside dir w (fst (remove_dir_all dir w))"
  by (auto simp: remove_dir_all_def agree_outside_def remove_below_def node_at_def
      map_of_filter_key split: sum.splits)

text \<open>
  C11: the removal of a run spares every live run. If it changes the file system at all, no
  process held the lock of the run and its validated state on disk was terminal; and only the
  directory of the run is touched, whatever fails on the way.
\<close>

theorem removal_spares_live_runs:
  "agree_outside (root @ [run_id]) w (fst (remove_terminal_run L J root run_id w)) \<and>
   (fst (remove_terminal_run L J root run_id w) = w \<or>
      (\<exists>st. read_state L J root w run_id = Inr st \<and> is_terminal (rs_status st) \<and>
        root @ [run_id, ''supervisor.lock''] \<notin> set (w_locked w)))"
proof (cases rule: remove_run_cases [of L J root run_id w])
  case refused
  then show ?thesis by simp
next
  case (removed st)
  then show ?thesis using remove_dir_all_outside by auto
qed

section \<open>Listing the runs\<close>

lemma collect_run_ids_Inr:
  "collect_run_ids L root w ids names = Inr ids' \<Longrightarrow>
   ids' = ids @ filter (\<lambda>name. node_at w (root @ [name]) = Some Directory \<and>
     validate_run_id L name = Inr ()) names"
proof (induction names arbitrary: ids)
  case (Cons name names)
  then obtain n where n: "symlink_metadata w (root @ [name]) = Inr n" by (auto simp: res_simps)
  then have "node_at w (root @ [name]) = Some n" by (simp add: symlink_metadata_def res_simps)
  then show ?case
    using Cons.prems Cons.IH [of ids] Cons.IH [of "ids @ [name]"] n by (auto split: if_splits)
qed simp

lemma set_entry_names: "name \<in> set (entry_names w root) \<longleftrightarrow> node_at w (root @ [name]) \<noteq> None"
proof
  assume "name \<in> set (entry_names w root)"
  then obtain p n where "(p, n) \<in> set (w_nodes w)" "p \<noteq> []" "butlast p = root" "name = List.last p"
    by (auto simp: entry_names_def)
  then have "(root @ [name], n) \<in> set (w_nodes w)" by (metis append_butlast_last_id)
  then have "map_of (w_nodes w) (root @ [name]) \<noteq> None"
    by (metis map_of_eq_None_iff fst_conv imageI)
  then show "node_at w (root @ [name]) \<noteq> None" by (simp add: node_at_def)
next
  assume "node_at w (root @ [name]) \<noteq> None"
  then obtain n where "(root @ [name], n) \<in> set (w_nodes w)"
    by (auto simp: node_at_def dest: map_of_SomeD)
  then show "name \<in> set (entry_names w root)"
    by (force simp: entry_names_def)
qed

lemma sorted_distinct_desc:
  "distinct xs \<Longrightarrow> sorted_wrt (\<lambda>x y. y < x) (rev (sort xs))" for xs :: "'a::linorder list"
proof -
  assume d: "distinct xs"
  have "sorted_wrt (<) (sort xs)" using d by (simp add: strict_sorted_iff)
  then show ?thesis by (simp add: sorted_wrt_rev)
qed

text \<open>
  A listing holds exactly the directories of the store whose names are valid run ids, each
  once and newest first (a ULID starts with its time, so the order of the names is the order of
  creation); other entries are passed over.
\<close>

theorem listing_exact:
  assumes "list_run_ids L root w = Inr ids"
  shows "sorted_wrt (\<lambda>x y. y < x) ids \<and>
    set ids = {name. node_at w (root @ [name]) = Some Directory \<and> validate_run_id L name = Inr ()}"
proof -
  from assms obtain found where found: "collect_run_ids L root w [] (entry_names w root) = Inr found"
    and ids: "ids = rev (sort found)"
    by (auto simp: list_run_ids_def res_simps)
  note f = collect_run_ids_Inr [OF found, simplified]
  have "distinct found" unfolding f by (simp add: entry_names_def)
  then have "sorted_wrt (\<lambda>x y. y < x) ids" unfolding ids by (rule sorted_distinct_desc)
  moreover have "set found = {name. node_at w (root @ [name]) = Some Directory \<and>
      validate_run_id L name = Inr ()}"
    by (auto simp: f set_entry_names)
  ultimately show ?thesis by (simp add: ids)
qed

section \<open>A concrete store\<close>

text \<open>A healthy world with an empty store, for the examples.\<close>

definition empty_world :: "path list \<Rightarrow> world" where
  "empty_world locked =
     \<lparr>w_nodes = [([], Directory), ([''srv''], Directory)], w_locked = locked,
      w_faults = (\<lambda>_ _. None), w_cut = (\<lambda>_. 0), w_kept = (\<lambda>_. False)\<rparr>"

theorem listing_exact_witness:
  "sorted_wrt (\<lambda>x y. y < x) ([] :: string list) \<and>
   list_run_ids crockford [''srv''] (empty_world []) = Inr []"
proof -
  have "list_run_ids crockford [''srv''] (empty_world []) = Inr []"
    by (simp add: list_run_ids_def attempt_def empty_world_def entry_names_def)
  then show ?thesis using listing_exact [of crockford "[''srv'']" "empty_world []" "[]"] by blast
qed

lemma crockford_run_id: "canonical_run_id crockford (''run_'' @ ulid_display crockford u) =
    Inr (''run_'' @ ulid_display crockford u)"
  using crockford_documented by (auto simp: canonical_run_id_Inr ulid_documented_def)

definition example_run :: run_state where
  "example_run = (example_state Created (log_summary_new 1))
     \<lparr>rs_run_id := ''run_'' @ ulid_display crockford 0\<rparr>"

definition example_codec :: "'a \<Rightarrow> 'a json_codec" where
  "example_codec x = \<lparr>js_write = (\<lambda>_. []), js_read = (\<lambda>_. Inr x)\<rparr>"

lemma example_codec_documented: "json_documented (example_codec x) x"
  by (simp add: json_documented_def example_codec_def document_limit_def)

lemma example_run_valid:
  "canonical_run_id crockford (rs_run_id example_run) = Inr (rs_run_id example_run)"
  "validate_persisted_run_state crockford example_run = Inr ()"
  "fresh_run (empty_world locked) [''srv''] (rs_run_id example_run)"
proof -
  show id: "canonical_run_id crockford (rs_run_id example_run) = Inr (rs_run_id example_run)"
    using crockford_run_id [of 0] by (simp add: example_run_def)
  show "validate_persisted_run_state crockford example_run = Inr ()"
    using id
    by (simp add: validate_persisted_run_state_def example_run_def example_state_def
        lease_state_requested_def validate_requests_def validate_names_def)
  show "fresh_run (empty_world locked) [''srv''] (rs_run_id example_run)"
    by (auto simp: fresh_run_def empty_world_def node_at_def healthy_def)
qed

theorem created_run_readable_witness:
  "\<forall>J spec. read_state crockford (example_codec example_run) [''srv'']
     (fst (create_run crockford (example_codec example_run) J [''srv''] example_run spec
        (replicate 64 (CHR ''a'')) (empty_world []))) (rs_run_id example_run) = Inr example_run"
proof (intro allI)
  fix J :: "supervisor_spec json_codec" and spec
  have "length (replicate 64 (CHR ''a'')) = 64" "list_all is_ascii_hexdigit (replicate 64 (CHR ''a''))"
    by (simp_all add: list_all_iff is_ascii_hexdigit_def char_code_def)
  from created_run_readable [OF example_run_valid(3,1,2) example_codec_documented this
      prod.collapse [symmetric]]
  show "read_state crockford (example_codec example_run) [''srv'']
     (fst (create_run crockford (example_codec example_run) J [''srv''] example_run spec
        (replicate 64 (CHR ''a'')) (empty_world []))) (rs_run_id example_run) = Inr example_run"
    by blast
qed

end
