(* ===== verification/Systems.thy ===== *)
theory Systems
  imports Prelude
begin

text \<open>
  The interfaces of the stateful components. \<open>safe_system\<close> is a step relation with an invariant:
  the component proves that its steps keep it, and every reachable state has it. A
  \<open>settling_system\<close> adds an observation of the state that, once settled, no step changes: a
  terminal run status, a decided readiness. \<open>graded_system\<close> is one whose observation only moves
  up an order, and a \<open>refined_system\<close> is one that implements the steps of an abstract one.
\<close>

locale safe_system =
  fixes init :: "'s \<Rightarrow> bool"
    and step :: "'s \<Rightarrow> 's \<Rightarrow> bool"
    and invariant :: "'s \<Rightarrow> bool"
  assumes init_inv: "init s \<Longrightarrow> invariant s"
    and step_inv: "invariant s \<Longrightarrow> step s t \<Longrightarrow> invariant t"
begin

lemma steps_inv: "step\<^sup>*\<^sup>* s t \<Longrightarrow> invariant s \<Longrightarrow> invariant t"
  by (induction rule: rtranclp_induct) (auto intro: step_inv)

lemma reachable_inv: "init s \<Longrightarrow> step\<^sup>*\<^sup>* s t \<Longrightarrow> invariant t"
  by (blast intro: steps_inv init_inv)

end

locale settling_system = safe_system init step invariant
  for init :: "'s \<Rightarrow> bool" and step :: "'s \<Rightarrow> 's \<Rightarrow> bool" and invariant :: "'s \<Rightarrow> bool" +
  fixes observe :: "'s \<Rightarrow> 'o"
    and settled :: "'o \<Rightarrow> bool"
  assumes step_settled: "invariant s \<Longrightarrow> settled (observe s) \<Longrightarrow> step s t \<Longrightarrow> observe t = observe s"
begin

lemma steps_settled:
  assumes "step\<^sup>*\<^sup>* s t" and "invariant s" and "settled (observe s)"
  shows "observe t = observe s"
  using assms
proof (induction rule: rtranclp_induct)
  case (step t u)
  have "invariant t" using step.hyps(1) step.prems(1) by (rule steps_inv)
  moreover have same: "observe t = observe s" using step.IH step.prems by blast
  ultimately show ?case using step_settled [OF _ _ step.hyps(2)] step.prems(2) by simp
qed simp

lemma settled_stays:
  "init r \<Longrightarrow> step\<^sup>*\<^sup>* r s \<Longrightarrow> settled (observe s) \<Longrightarrow> step\<^sup>*\<^sup>* s t \<Longrightarrow> observe t = observe s"
  using steps_settled reachable_inv by blast

end

locale graded_system = safe_system init step invariant
  for init :: "'s \<Rightarrow> bool" and step :: "'s \<Rightarrow> 's \<Rightarrow> bool" and invariant :: "'s \<Rightarrow> bool" +
  fixes grade :: "'s \<Rightarrow> 'o::order"
  assumes step_grade: "invariant s \<Longrightarrow> step s t \<Longrightarrow> grade s \<le> grade t"
begin

lemma steps_grade: "step\<^sup>*\<^sup>* s t \<Longrightarrow> invariant s \<Longrightarrow> grade s \<le> grade t"
proof (induction rule: rtranclp_induct)
  case (step t u)
  then show ?case using step_grade [OF steps_inv step.hyps(2)] order_trans by blast
qed simp

end

text \<open>
  A system that implements an abstract one: every step shows as steps of the abstraction, none when it
  changes nothing that the abstraction sees.
\<close>

locale refined_system = safe_system init step invariant
  for init :: "'s \<Rightarrow> bool" and step :: "'s \<Rightarrow> 's \<Rightarrow> bool" and invariant :: "'s \<Rightarrow> bool" +
  fixes abs :: "'s \<Rightarrow> 'a"
    and abs_step :: "'a \<Rightarrow> 'a \<Rightarrow> bool"
  assumes step_simulated: "invariant s \<Longrightarrow> step s t \<Longrightarrow> abs_step\<^sup>*\<^sup>* (abs s) (abs t)"
begin

lemma steps_simulated: "step\<^sup>*\<^sup>* s t \<Longrightarrow> invariant s \<Longrightarrow> abs_step\<^sup>*\<^sup>* (abs s) (abs t)"
proof (induction rule: rtranclp_induct)
  case (step t u)
  have "abs_step\<^sup>*\<^sup>* (abs t) (abs u)"
    using step_simulated [OF steps_inv step.hyps(2)] step.hyps(1) step.prems by blast
  then show ?case using step.IH step.prems by (metis rtranclp_trans)
qed simp

end

end
