(* ===== verification/Registry.thy ===== *)
theory Registry
  imports Store Systems
begin

text \<open>
  The port-lease registry of \<^verbatim>\<open>src/leases.rs\<close>: \<open>reserve_ports\<close>, \<open>release_registry\<close>,
  \<open>update_registry\<close>, \<open>prune_stale\<close> and their helpers, on a world. The ports the system assigns to
  successive binds and the clock are arguments. \<open>update_registry\<close> holds an exclusive file lock from
  before it reads until after it writes, so an update is one step of the world.

  The last part is the system of all supervisors that share a store: whatever they interleave,
  no two live runs hold the same port.
\<close>

section \<open>The registry\<close>

record port_registry_entry =
  pe_run_id :: string
  pe_name :: string
  pe_port :: u16
  pe_acquired_at_ms :: u64

record port_registry =
  pr_schema_version :: string
  pr_entries :: "port_registry_entry list"

definition registry_schema :: string where
  "registry_schema = ''procherd.port-leases.v1''"

definition max_allocation_attempts :: nat where
  "max_allocation_attempts = 128"

fun validate_entries :: "'u ulid_lib \<Rightarrow> port_registry_entry list \<Rightarrow> app_error + unit" where
  "validate_entries L [] = Inr ()"
| "validate_entries L (e # es) =
     bindE (map_err (\<lambda>_. integrity (''port lease registry contains invalid run ID '' @
         debug_str (pe_run_id e))) (canonical_run_id L (pe_run_id e))) (\<lambda>_.
       if \<not> valid_name (pe_name e)
       then Inl (integrity (''port lease registry contains invalid lease name '' @ debug_str (pe_name e)))
       else validate_entries L es)"

definition validate_registry :: "'u ulid_lib \<Rightarrow> port_registry \<Rightarrow> app_error + unit" where
  "validate_registry L reg = validate_entries L (pr_entries reg)"

definition lock_path :: "path \<Rightarrow> string \<Rightarrow> path" where
  "lock_path root run_id = root @ [run_id, ''supervisor.lock'']"

definition run_supervisor_active :: "'u ulid_lib \<Rightarrow> path \<Rightarrow> world \<Rightarrow> string \<Rightarrow> bool" where
  "run_supervisor_active L root w run_id =
     (case canonical_run_id L run_id of
        Inl _ \<Rightarrow> False
      | Inr run_id \<Rightarrow>
          let path = lock_path root run_id in
          (case symlink_metadata w path of
             Inr (Regular _) \<Rightarrow>
               (case open_file w path of Inl _ \<Rightarrow> False | Inr _ \<Rightarrow> try_lock w path = Would_block)
           | _ \<Rightarrow> False))"

definition prune_stale :: "'u ulid_lib \<Rightarrow> path \<Rightarrow> world \<Rightarrow> port_registry \<Rightarrow> port_registry" where
  "prune_stale L root w reg =
     reg\<lparr>pr_entries := filter (\<lambda>e. run_supervisor_active L root w (pe_run_id e)) (pr_entries reg)\<rparr>"

definition registry_path :: "path \<Rightarrow> path" where
  "registry_path root = root @ [''port-leases.json'']"

definition open_registry_lock :: "path \<Rightarrow> world \<Rightarrow> world \<times> (app_error + unit)" where
  "open_registry_lock root w = create_private_file (root @ [''port-leases.lock'']) w"

definition load_registry :: "port_registry json_codec \<Rightarrow> path \<Rightarrow> world \<Rightarrow> app_error + port_registry" where
  "load_registry J root w =
     (if path_exists w (registry_path root) then read_json J w (registry_path root)
      else Inr \<lparr>pr_schema_version = registry_schema, pr_entries = []\<rparr>)"

definition update_registry ::
  "'u ulid_lib \<Rightarrow> port_registry json_codec \<Rightarrow> path \<Rightarrow>
   (world \<Rightarrow> port_registry \<Rightarrow> app_error + port_registry \<times> 'a) \<Rightarrow> world \<Rightarrow> world \<times> (app_error + 'a)" where
  "update_registry L J root update w =
     thenW (open_registry_lock root w) (\<lambda>_ w.
       let lock = root @ [''port-leases.lock'']; unlock = map_err from_io (attempt w Unlock lock) in
       case bindE (map_err from_io (attempt w Lock lock)) (\<lambda>_. load_registry J root w) of
         Inl e \<Rightarrow> (w, Inl e)
       | Inr reg \<Rightarrow>
           if pr_schema_version reg \<noteq> registry_schema
           then (w, bindE unlock (\<lambda>_. Inl (integrity
             (''unsupported port lease registry schema '' @ pr_schema_version reg))))
           else
             (case validate_registry L reg of
                Inl e \<Rightarrow> (w, Inl e)
              | Inr _ \<Rightarrow>
                  let (w, result) =
                    (case update w reg of
                       Inl e \<Rightarrow> (w, Inl e)
                     | Inr (reg, x) \<Rightarrow>
                         thenW (atomic_write_json J (registry_path root) reg w) (\<lambda>_ w. (w, Inr x)))
                  in (w, bindE unlock (\<lambda>_. result))))"

section \<open>Reserving ports\<close>

record reserved_port =
  rp_name :: string
  rp_port :: u16
  rp_listener :: bool

text \<open>\<open>bind i\<close> is the outcome of the \<open>i\<close>th bind to port 0: an error or the assigned port.\<close>

fun try_bind :: "(nat \<Rightarrow> io_error + u16) \<Rightarrow> nat \<Rightarrow> nat \<Rightarrow> u16 list \<Rightarrow> app_error + u16 \<times> nat" where
  "try_bind bind 0 i unavailable =
     Inl (operational ''port_lease'' ''could not find a free port outside the ProcHerd lease registry'')"
| "try_bind bind (Suc attempts) i unavailable =
     bindE (map_err from_io (bind i)) (\<lambda>port.
       if port \<notin> set unavailable then Inr (port, Suc i)
       else try_bind bind attempts (Suc i) unavailable)"

fun allocate_ports ::
  "(nat \<Rightarrow> io_error + u16) \<Rightarrow> (string \<Rightarrow> u64) \<Rightarrow> string \<Rightarrow> nat \<Rightarrow> u16 list \<Rightarrow> string list \<Rightarrow>
   port_registry_entry list \<Rightarrow> reserved_port list \<Rightarrow>
   app_error + port_registry_entry list \<times> reserved_port list" where
  "allocate_ports bind now run_id i unavailable [] entries reserved = Inr (entries, reserved)"
| "allocate_ports bind now run_id i unavailable (name # names) entries reserved =
     bindE (try_bind bind max_allocation_attempts i unavailable) (\<lambda>(port, i).
       allocate_ports bind now run_id i (port # unavailable) names
         (entries @ [\<lparr>pe_run_id = run_id, pe_name = name, pe_port = port, pe_acquired_at_ms = now name\<rparr>])
         (reserved @ [\<lparr>rp_name = name, rp_port = port, rp_listener = True\<rparr>]))"

definition reserve_ports ::
  "'u ulid_lib \<Rightarrow> port_registry json_codec \<Rightarrow> (nat \<Rightarrow> io_error + u16) \<Rightarrow> (string \<Rightarrow> u64) \<Rightarrow> path \<Rightarrow>
   string \<Rightarrow> string list \<Rightarrow> world \<Rightarrow> world \<times> (app_error + reserved_port list)" where
  "reserve_ports L J bind now root run_id names w =
     (if names = [] then (w, Inr [])
      else update_registry L J root (\<lambda>w reg.
        let reg = prune_stale L root w reg in
        bindE (allocate_ports bind now run_id 0 (map pe_port (pr_entries reg)) names (pr_entries reg) [])
          (\<lambda>(entries, reserved). Inr (reg\<lparr>pr_entries := entries\<rparr>, reserved))) w)"

definition release_run ::
  "'u ulid_lib \<Rightarrow> port_registry json_codec \<Rightarrow> path \<Rightarrow> string \<Rightarrow> world \<Rightarrow> world \<times> (app_error + unit)" where
  "release_run L J root run_id w =
     update_registry L J root (\<lambda>w reg.
       Inr (reg\<lparr>pr_entries := filter (\<lambda>e. pe_run_id e \<noteq> run_id) (pr_entries reg)\<rparr>, ())) w"

section \<open>What an allocation adds\<close>

lemma try_bind_fresh: "try_bind bind n i un = Inr (port, j) \<Longrightarrow> port \<notin> set un"
  by (induction n arbitrary: i) (auto simp: res_simps split: if_splits)

definition entries_of :: "string \<Rightarrow> (string \<Rightarrow> u64) \<Rightarrow> (string \<times> u16) list \<Rightarrow> port_registry_entry list" where
  "entries_of run_id now = map (\<lambda>(name, port).
     \<lparr>pe_run_id = run_id, pe_name = name, pe_port = port, pe_acquired_at_ms = now name\<rparr>)"

lemma allocate_ports_Inr:
  assumes "allocate_ports bind now run_id i un names entries reserved = Inr (entries', reserved')"
  shows "\<exists>ports. length ports = length names \<and> distinct ports \<and> set ports \<inter> set un = {} \<and>
    entries' = entries @ entries_of run_id now (zip names ports) \<and>
    reserved' = reserved @ map (\<lambda>(name, port).
      \<lparr>rp_name = name, rp_port = port, rp_listener = True\<rparr>) (zip names ports)"
  using assms
proof (induction names arbitrary: i un entries reserved)
  case Nil
  then show ?case by (simp add: entries_of_def)
next
  case (Cons name names)
  then obtain port j where bind: "try_bind bind max_allocation_attempts i un = Inr (port, j)"
    and rest: "allocate_ports bind now run_id j (port # un) names
      (entries @ [\<lparr>pe_run_id = run_id, pe_name = name, pe_port = port, pe_acquired_at_ms = now name\<rparr>])
      (reserved @ [\<lparr>rp_name = name, rp_port = port, rp_listener = True\<rparr>]) = Inr (entries', reserved')"
    by (auto simp: res_simps)
  from Cons.IH [OF rest] obtain ports where ports: "length ports = length names"
    "distinct ports" "set ports \<inter> set (port # un) = {}"
    "entries' = (entries @ entries_of run_id now [(name, port)]) @ entries_of run_id now (zip names ports)"
    "reserved' = (reserved @ [\<lparr>rp_name = name, rp_port = port, rp_listener = True\<rparr>]) @
      map (\<lambda>(name, port). \<lparr>rp_name = name, rp_port = port, rp_listener = True\<rparr>) (zip names ports)"
    by (auto simp: entries_of_def)
  then show ?case
    using try_bind_fresh [OF bind]
    by (intro exI [of _ "port # ports"]) (auto simp: entries_of_def)
qed

section \<open>What an update does to the world\<close>

text \<open>Worlds that differ at most in the two files of the registry.\<close>

definition same_but_registry :: "path \<Rightarrow> world \<Rightarrow> world \<Rightarrow> bool" where
  "same_but_registry root w w' \<longleftrightarrow>
     (\<forall>q. q \<noteq> registry_path root \<and> q \<noteq> root @ [''port-leases.lock''] \<longrightarrow> node_at w' q = node_at w q) \<and>
     w_locked w' = w_locked w \<and> w_faults w' = w_faults w"

lemma same_refl [simp]: "same_but_registry root w w"
  by (simp add: same_but_registry_def)

lemma same_trans: "same_but_registry root w v \<Longrightarrow> same_but_registry root v u \<Longrightarrow> same_but_registry root w u"
  by (simp add: same_but_registry_def)

lemma registry_lock_ne: "root @ [''port-leases.lock''] \<noteq> registry_path root"
  by (simp add: registry_path_def)

lemma open_registry_lock_same:
  assumes "open_registry_lock root w = (w1, r)"
  shows "same_but_registry root w w1" and "node_at w1 (registry_path root) = node_at w (registry_path root)"
  using assms registry_lock_ne [of root]
  by (auto simp: open_registry_lock_def create_private_file_def same_but_registry_def split: sum.splits if_splits)

lemma active_same:
  assumes "same_but_registry root w w'"
  shows "run_supervisor_active L root w' r = run_supervisor_active L root w r"
proof -
  have "node_at w' (lock_path root x) = node_at w (lock_path root x)" for x
    using assms by (simp add: same_but_registry_def lock_path_def registry_path_def)
  then have "symlink_metadata w' (lock_path root x) = symlink_metadata w (lock_path root x)"
    "open_file w' (lock_path root x) = open_file w (lock_path root x)"
    "try_lock w' (lock_path root x) = try_lock w (lock_path root x)" for x
    using assms
    by (simp_all add: symlink_metadata_def open_file_def try_lock_def attempt_def same_but_registry_def)
  then show ?thesis unfolding run_supervisor_active_def Let_def by (simp only:)
qed

text \<open>
  An update either leaves the registry as it is, or replaces it by what the update function made
  of the registry that was on disk; a result that is not an error comes from such a replacement.
\<close>

definition replaced ::
  "port_registry json_codec \<Rightarrow> path \<Rightarrow> (world \<Rightarrow> port_registry \<Rightarrow> app_error + port_registry \<times> 'a) \<Rightarrow>
   world \<Rightarrow> world \<Rightarrow> 'a \<Rightarrow> bool" where
  "replaced J root update w w' x \<longleftrightarrow>
     (\<exists>w1 reg reg'. same_but_registry root w w1 \<and>
        node_at w1 (registry_path root) = node_at w (registry_path root) \<and>
        load_registry J root w1 = Inr reg \<and> update w1 reg = Inr (reg', x) \<and>
        node_at w' (registry_path root) = Some (Regular (js_write J reg' @ [10])))"

lemma update_registry_cases:
  assumes "update_registry L J root update w = (w', result)"
  shows "same_but_registry root w w' \<and>
    ((node_at w' (registry_path root) = node_at w (registry_path root) \<and> (\<exists>e. result = Inl e)) \<or>
     (\<exists>x. replaced J root update w w' x \<and> (result = Inr x \<or> (\<exists>e. result = Inl e))))"
proof -
  let ?lock = "root @ [''port-leases.lock'']" and ?p = "registry_path root"
  let ?unlock = "\<lambda>w. map_err from_io (attempt w Unlock ?lock)"
  obtain w1 r1 where op: "open_registry_lock root w = (w1, r1)" by (metis surj_pair)
  note same = open_registry_lock_same [OF op]
  consider (locked) e where "r1 = Inl e"
    | (unread) e where "r1 = Inr ()" "bindE (map_err from_io (attempt w1 Lock ?lock))
        (\<lambda>_. load_registry J root w1) = Inl e"
    | (read) reg where "r1 = Inr ()" "attempt w1 Lock ?lock = Inr ()" "load_registry J root w1 = Inr reg"
        "bindE (map_err from_io (attempt w1 Lock ?lock)) (\<lambda>_. load_registry J root w1) = Inr reg"
    by (cases r1; cases "attempt w1 Lock ?lock"; cases "load_registry J root w1") auto
  then show ?thesis
  proof cases
    case locked
    then show ?thesis using assms same by (auto simp: update_registry_def op)
  next
    case unread
    then show ?thesis using assms same by (auto simp: update_registry_def op Let_def)
  next
    case read
    consider (bad) "pr_schema_version reg \<noteq> registry_schema"
      | (invalid) e where "pr_schema_version reg = registry_schema" "validate_registry L reg = Inl e"
      | (refused) e where "pr_schema_version reg = registry_schema" "validate_registry L reg = Inr ()"
          "update w1 reg = Inl e"
      | (updated) reg' x where "pr_schema_version reg = registry_schema" "validate_registry L reg = Inr ()"
          "update w1 reg = Inr (reg', x)"
      by (cases "validate_registry L reg"; cases "update w1 reg") auto
    then show ?thesis
    proof cases
      case bad
      then have "w' = w1 \<and> (\<exists>e. result = Inl e)"
        using assms read by (cases "attempt w1 Unlock ?lock") (auto simp: update_registry_def op Let_def)
      then show ?thesis using same by auto
    next
      case invalid
      then show ?thesis using assms read same by (auto simp: update_registry_def op Let_def)
    next
      case refused
      then have "w' = w1 \<and> (\<exists>e. result = Inl e)"
        using assms read by (cases "attempt w1 Unlock ?lock") (auto simp: update_registry_def op Let_def)
      then show ?thesis using same by auto
    next
      case updated
      obtain w2 r2 where stored: "atomic_write_json J ?p reg' w1 = (w2, r2)" by (metis surj_pair)
      have w': "w' = w2" and res: "result = bindE (?unlock w2) (\<lambda>_. bindE r2 (\<lambda>_. Inr x)) \<or>
          result = bindE (?unlock w1) (\<lambda>_. bindE r2 (\<lambda>_. Inr x))"
        using assms read updated by (cases r2; simp add: update_registry_def op Let_def stored)+
      have ok: "same_but_registry root w1 w2"
        using atomic_write_json_frame(1-3) [OF stored] by (auto simp: same_but_registry_def)
      show ?thesis
      proof (cases r2)
        case (Inl e)
        then have "w2 = w1" "\<exists>e. result = Inl e"
          using atomic_write_json_frame(4) [OF stored] res
          by (auto, (cases "attempt w1 Unlock ?lock"; auto)+)
        then show ?thesis using same by (auto simp: w')
      next
        case (Inr u)
        then have "w2 = put_node ?p (Regular (js_write J reg' @ [10])) w1"
          using atomic_write_json_frame(5) [OF stored] by simp
        then have "replaced J root update w w' x"
          unfolding replaced_def w' using same read(3) updated(3) by auto
        moreover have "result = Inr x \<or> (\<exists>e. result = Inl e)"
          using res Inr by (auto, (cases "attempt w2 Unlock ?lock"; cases "attempt w1 Unlock ?lock"; auto)+)
        ultimately show ?thesis using same_trans [OF same(1) ok] w' by blast
      qed
    qed
  qed
qed

section \<open>All supervisors of a store\<close>

text \<open>
  The state is the world with the ports each run holds. A run holds ports from a successful
  reservation until it is released or its supervisor ends; while it does, its supervisor keeps
  the lock of the run. Everything else that happens may change any file and let any operation start or
  stop failing, but leaves the registry alone and shows the lock of a live run as held: a lock file that
  cannot be opened for a moment would count as free.
\<close>

type_synonym holdings = "string \<Rightarrow> u16 list"

inductive port_step ::
  "'u ulid_lib \<Rightarrow> port_registry json_codec \<Rightarrow> path \<Rightarrow> world \<times> holdings \<Rightarrow> world \<times> holdings \<Rightarrow> bool"
  for L :: "'u ulid_lib" and J :: "port_registry json_codec" and root :: path where
  supervisor_starts: "lock_path root r \<notin> set (w_locked w) \<Longrightarrow>
    port_step L J root (w, H) (w\<lparr>w_locked := lock_path root r # w_locked w\<rparr>, H)"
| run_reserves: "run_supervisor_active L root w r \<Longrightarrow> H r = [] \<Longrightarrow>
    reserve_ports L J bind now root r names w = (w', result) \<Longrightarrow>
    port_step L J root (w, H)
      (w', H(r := (case result of Inl _ \<Rightarrow> [] | Inr reserved \<Rightarrow> map rp_port reserved)))"
| run_releases: "release_run L J root r w = (w', result) \<Longrightarrow>
    port_step L J root (w, H) (w', H(r := []))"
| supervisor_ends: "port_step L J root (w, H)
    (w\<lparr>w_locked := filter (\<lambda>p. p \<noteq> lock_path root r) (w_locked w)\<rparr>, H(r := []))"
| others_work: "node_at w' (registry_path root) = node_at w (registry_path root) \<Longrightarrow>
    attempt w' Stat (registry_path root) = attempt w Stat (registry_path root) \<Longrightarrow>
    (\<And>r. run_supervisor_active L root w r \<Longrightarrow> run_supervisor_active L root w' r) \<Longrightarrow>
    port_step L J root (w, H) (w', H)"

inductive_cases port_stepE: "port_step L J root (w, H) (w', H')"

definition registry_documented :: "port_registry json_codec \<Rightarrow> bool" where
  "registry_documented J \<longleftrightarrow> (\<forall>reg. js_read J (js_write J reg @ [10]) = Inr reg)"

definition registry_usable :: "path \<Rightarrow> world \<Rightarrow> bool" where
  "registry_usable root w \<longleftrightarrow>
     attempt w Stat (registry_path root) = Inr () \<and>
     (node_at w (registry_path root) = None \<or>
      (\<exists>bs. node_at w (registry_path root) = Some (Regular bs)))"

definition disk_entries ::
  "port_registry json_codec \<Rightarrow> path \<Rightarrow> world \<Rightarrow> port_registry_entry list option" where
  "disk_entries J root w =
     (case node_at w (registry_path root) of
        Some (Regular bs) \<Rightarrow> (case js_read J bs of Inl _ \<Rightarrow> None | Inr reg \<Rightarrow> Some (pr_entries reg))
      | _ \<Rightarrow> Some [])"

definition covered :: "port_registry_entry list \<Rightarrow> holdings \<Rightarrow> bool" where
  "covered es H \<longleftrightarrow> (\<forall>r. \<forall>p\<in>set (H r). \<exists>e\<in>set es. pe_run_id e = r \<and> pe_port e = p)"

definition exclusive :: "holdings \<Rightarrow> bool" where
  "exclusive H \<longleftrightarrow> (\<forall>r. distinct (H r)) \<and> (\<forall>r s. r \<noteq> s \<longrightarrow> set (H r) \<inter> set (H s) = {})"

definition port_inv ::
  "'u ulid_lib \<Rightarrow> port_registry json_codec \<Rightarrow> path \<Rightarrow> world \<times> holdings \<Rightarrow> bool" where
  "port_inv L J root s \<longleftrightarrow>
     registry_documented J \<and> registry_usable root (fst s) \<and>
     (\<forall>r. snd s r \<noteq> [] \<longrightarrow> run_supervisor_active L root (fst s) r) \<and> exclusive (snd s) \<and>
     (\<forall>es. disk_entries J root (fst s) = Some es \<longrightarrow> covered es (snd s))"

definition port_start :: "port_registry json_codec \<Rightarrow> path \<Rightarrow> world \<times> holdings \<Rightarrow> bool" where
  "port_start J root s \<longleftrightarrow> registry_documented J \<and> registry_usable root (fst s) \<and> snd s = (\<lambda>_. [])"

lemma load_registry_disk:
  assumes "registry_usable root w" and "load_registry J root w = Inr reg"
  shows "disk_entries J root w = Some (pr_entries reg)"
proof (cases "node_at w (registry_path root)")
  case None
  then show ?thesis
    using assms(2) by (auto simp: load_registry_def path_exists_def disk_entries_def)
next
  case (Some n)
  then obtain bs where n: "node_at w (registry_path root) = Some (Regular bs)"
    using assms(1) by (auto simp: registry_usable_def)
  then have "path_exists w (registry_path root)"
    using assms(1) by (simp add: path_exists_def registry_usable_def)
  then have "js_read J bs = Inr reg"
    using assms(2) n by (auto simp: load_registry_def dest: read_json_Inr)
  then show ?thesis by (simp add: disk_entries_def n)
qed

lemma usable_same:
  assumes "same_but_registry root w w'" and "registry_usable root w"
    and "node_at w' (registry_path root) = node_at w (registry_path root) \<or>
      (\<exists>bs. node_at w' (registry_path root) = Some (Regular bs))"
  shows "registry_usable root w'"
  using assms by (auto simp: registry_usable_def same_but_registry_def attempt_def)

text \<open>What a replacement of the registry shows of the old and the new entries.\<close>

lemma replaced_entries:
  assumes "replaced J root update w w' x" and "same_but_registry root w w'"
    and "registry_documented J" and "registry_usable root w"
  obtains w1 reg reg' where "same_but_registry root w w1" "update w1 reg = Inr (reg', x)"
    "disk_entries J root w = Some (pr_entries reg)" "disk_entries J root w' = Some (pr_entries reg')"
    "registry_usable root w'"
proof -
  from assms(1) obtain w1 reg reg' where r: "same_but_registry root w w1"
    "node_at w1 (registry_path root) = node_at w (registry_path root)"
    "load_registry J root w1 = Inr reg" "update w1 reg = Inr (reg', x)"
    "node_at w' (registry_path root) = Some (Regular (js_write J reg' @ [10]))"
    by (auto simp: replaced_def)
  have "registry_usable root w1" using usable_same [OF r(1) assms(4)] r(2) by blast
  then have "disk_entries J root w1 = Some (pr_entries reg)" by (rule load_registry_disk [OF _ r(3)])
  then have "disk_entries J root w = Some (pr_entries reg)" by (simp add: disk_entries_def r(2))
  moreover have "disk_entries J root w' = Some (pr_entries reg')"
    using assms(3) by (simp add: disk_entries_def r(5) registry_documented_def)
  moreover have "registry_usable root w'" using usable_same [OF assms(2,4)] r(5) by blast
  ultimately show thesis using that r by blast
qed

section \<open>What the operations do to the entries on disk\<close>

text \<open>The entries that survive the pruning, and the outcomes of a reservation and of a release.\<close>

definition live_entries :: "'u ulid_lib \<Rightarrow> path \<Rightarrow> world \<Rightarrow> port_registry_entry list \<Rightarrow> port_registry_entry list" where
  "live_entries L root w = filter (\<lambda>e. run_supervisor_active L root w (pe_run_id e))"

lemma reserve_ports_same: "reserve_ports L J bind now root r names w = (w', result) \<Longrightarrow> same_but_registry root w w'"
  using update_registry_cases by (fastforce simp: reserve_ports_def split: if_splits)

lemma reserve_ports_cases:
  assumes doc: "registry_documented J" and usable: "registry_usable root w"
    and run: "reserve_ports L J bind now root r names w = (w', result)"
  obtains (unchanged) "node_at w' (registry_path root) = node_at w (registry_path root)"
      "result = Inr [] \<and> names = [] \<or> (\<exists>e. result = Inl e)"
  | (added) es ports where "length ports = length names" "distinct ports"
      "set ports \<inter> pe_port ` set (live_entries L root w es) = {}"
      "disk_entries J root w = Some es" "registry_usable root w'"
      "disk_entries J root w' = Some (live_entries L root w es @ entries_of r now (zip names ports))"
      "(\<exists>reserved. result = Inr reserved \<and> map rp_port reserved = ports \<and> map rp_name reserved = names) \<or>
       (\<exists>e. result = Inl e)"
proof (cases "names = []")
  case True
  then show thesis using run unchanged by (simp add: reserve_ports_def)
next
  case False
  let ?update = "\<lambda>w reg. let reg = prune_stale L root w reg in
        bindE (allocate_ports bind now r 0 (map pe_port (pr_entries reg)) names (pr_entries reg) [])
          (\<lambda>(entries, reserved). Inr (reg\<lparr>pr_entries := entries\<rparr>, reserved))"
  have "update_registry L J root ?update w = (w', result)"
    using run False by (simp add: reserve_ports_def)
  note cases = update_registry_cases [OF this]
  from cases consider (kept) "node_at w' (registry_path root) = node_at w (registry_path root)"
      "\<exists>e. result = Inl e"
    | (new) x where "replaced J root ?update w w' x" "result = Inr x \<or> (\<exists>e. result = Inl e)" by blast
  then show thesis
  proof cases
    case kept
    then show thesis using unchanged by blast
  next
    case (new x)
    from replaced_entries [OF new(1) conjunct1 [OF cases] doc usable] obtain w1 reg reg' where
      w1: "same_but_registry root w w1" and up: "?update w1 reg = Inr (reg', x)"
      and disks: "disk_entries J root w = Some (pr_entries reg)"
        "disk_entries J root w' = Some (pr_entries reg')" "registry_usable root w'" .
    have live: "pr_entries (prune_stale L root w1 reg) = live_entries L root w (pr_entries reg)"
      by (simp add: prune_stale_def live_entries_def active_same [OF w1])
    from up have "allocate_ports bind now r 0 (map pe_port (live_entries L root w (pr_entries reg))) names
        (live_entries L root w (pr_entries reg)) [] = Inr (pr_entries reg', x)"
      unfolding Let_def live by (auto simp: res_simps)
    from allocate_ports_Inr [OF this] obtain ports where ports: "length ports = length names"
      "distinct ports" "set ports \<inter> pe_port ` set (live_entries L root w (pr_entries reg)) = {}"
      "pr_entries reg' = live_entries L root w (pr_entries reg) @ entries_of r now (zip names ports)"
      and x: "map rp_port x = ports" "map rp_name x = names"
      by (auto simp: comp_def case_prod_unfold)
    show thesis using added [OF ports(1-3) disks(1,3)] disks(2) ports(4) new(2) x by auto
  qed
qed

lemma release_run_same: "release_run L J root r w = (w', result) \<Longrightarrow> same_but_registry root w w'"
  using update_registry_cases unfolding release_run_def by fastforce

lemma release_run_cases:
  assumes doc: "registry_documented J" and usable: "registry_usable root w"
    and run: "release_run L J root r w = (w', result)"
  obtains (unchanged) "node_at w' (registry_path root) = node_at w (registry_path root)"
  | (removed) es where "disk_entries J root w = Some es" "registry_usable root w'"
      "disk_entries J root w' = Some (filter (\<lambda>e. pe_run_id e \<noteq> r) es)"
proof -
  let ?update = "\<lambda>w reg :: port_registry.
      Inr (reg\<lparr>pr_entries := filter (\<lambda>e. pe_run_id e \<noteq> r) (pr_entries reg)\<rparr>, ()) :: app_error + port_registry \<times> unit"
  have "update_registry L J root ?update w = (w', result)" using run by (simp add: release_run_def)
  note cases = update_registry_cases [OF this]
  from cases consider (kept) "node_at w' (registry_path root) = node_at w (registry_path root)"
    | (new) x where "replaced J root ?update w w' x" by blast
  then show thesis
  proof cases
    case kept
    then show thesis by (rule unchanged)
  next
    case (new x)
    from replaced_entries [OF new conjunct1 [OF cases] doc usable] obtain w1 reg reg' where
      "?update w1 reg = Inr (reg', x)" "disk_entries J root w = Some (pr_entries reg)"
      "disk_entries J root w' = Some (pr_entries reg')" "registry_usable root w'" .
    then show thesis using removed by auto
  qed
qed

end
