(* ===== verification/Port_Safety.thy ===== *)
theory Port_Safety
  imports Registry
begin

text \<open>
  Every step of the supervisors that share a store keeps the invariant of \<open>Registry\<close>, and with it
  the safety of the port leases.
\<close>

lemma port_inv_parts:
  assumes "port_inv L J root (w, H)"
  shows "registry_documented J" "registry_usable root w" "exclusive H"
    "\<And>r. H r \<noteq> [] \<Longrightarrow> run_supervisor_active L root w r"
    "\<And>es. disk_entries J root w = Some es \<Longrightarrow> covered es H"
  using assms by (simp_all add: port_inv_def)

text \<open>The part of the world the invariant reads.\<close>

lemma port_inv_frame:
  assumes "port_inv L J root (w, H)" and "attempt w' Stat (registry_path root) = attempt w Stat (registry_path root)"
    and "node_at w' (registry_path root) = node_at w (registry_path root)"
    and "\<And>r. H' r \<noteq> [] \<Longrightarrow> H' r = H r" and "\<And>r. H' r \<noteq> [] \<Longrightarrow> run_supervisor_active L root w' r"
  shows "port_inv L J root (w', H')"
proof -
  note p = port_inv_parts [OF assms(1)]
  have "H' r = [] \<or> H' r = H r" for r using assms(4) by blast
  then have sub: "set (H' r) \<subseteq> set (H r)" "distinct (H' r) \<or> \<not> distinct (H r)" for r
    by (metis empty_set empty_subsetI order_refl, metis distinct.simps(1))
  have "exclusive H'" unfolding exclusive_def
  proof (intro conjI allI impI)
    show "distinct (H' r)" for r using sub(2) [of r] p(3) by (simp add: exclusive_def)
    show "set (H' r) \<inter> set (H' s) = {}" if "r \<noteq> s" for r s
      using sub(1) [of r] sub(1) [of s] p(3) that unfolding exclusive_def by blast
  qed
  moreover have "covered es H'" if "disk_entries J root w' = Some es" for es
  proof -
    have "disk_entries J root w = Some es" using that assms(3) by (simp add: disk_entries_def)
    then have "covered es H" by (rule p(5))
    then show ?thesis using sub(1) unfolding covered_def by blast
  qed
  moreover have "registry_usable root w'"
    using p(2) assms(2,3) by (simp add: registry_usable_def)
  ultimately show ?thesis using p(1) assms(5) by (simp add: port_inv_def)
qed

text \<open>Reserving: what is new is outside of everything that a live run holds.\<close>

lemma port_inv_reserve:
  assumes inv: "port_inv L J root (w, H)" and act: "run_supervisor_active L root w r" and idle: "H r = []"
    and run: "reserve_ports L J bind now root r names w = (w', result)"
  shows "port_inv L J root (w', H(r := (case result of Inl _ \<Rightarrow> [] | Inr reserved \<Rightarrow> map rp_port reserved)))"
    (is "port_inv L J root (w', ?H)")
proof -
  note p = port_inv_parts [OF inv] and same = reserve_ports_same [OF run]
  have held: "run_supervisor_active L root w' s" if "H s \<noteq> [] \<or> s = r" for s
    using that p(4) [of s] act active_same [OF same, of L s] by auto
  have clear: "H(r := []) = H" using idle by auto
  show ?thesis
    using p(1,2) run
  proof (cases rule: reserve_ports_cases)
    case unchanged
    then have "?H = H" using clear by (auto split: sum.splits)
    then show ?thesis
      using port_inv_frame [OF inv _ unchanged(1), of H] same held by (simp add: same_but_registry_def attempt_def)
  next
    case (added es ports)
    have cov: "covered (live_entries L root w es) H"
      unfolding covered_def
    proof (intro allI ballI)
      fix s q assume q: "q \<in> set (H s)"
      then have "run_supervisor_active L root w s" using p(4) [of s] by (metis empty_iff empty_set)
      then show "\<exists>e\<in>set (live_entries L root w es). pe_run_id e = s \<and> pe_port e = q"
        using p(5) [OF added(4)] q unfolding covered_def live_entries_def by fastforce
    qed
    have apart: "set ports \<inter> set (H s) = {}" for s
      using cov added(3) unfolding covered_def by fastforce
    have own: "\<exists>e\<in>set (entries_of r now (zip names ports)). pe_run_id e = r \<and> pe_port e = q"
      if "q \<in> set ports" for q
      using that added(1) by (force simp: entries_of_def in_set_zip in_set_conv_nth)
    have Hr: "?H r = ports \<or> ?H r = []" using added(7) by (auto split: sum.splits)
    have "exclusive ?H"
      using p(3) apart Hr added(2) unfolding exclusive_def by (auto simp: disjoint_iff)
    moreover have "covered (live_entries L root w es @ entries_of r now (zip names ports)) ?H"
      using cov own Hr unfolding covered_def by (auto, fastforce+)
    moreover have "run_supervisor_active L root w' s" if "?H s \<noteq> []" for s
      using that held by (cases "s = r") auto
    ultimately show ?thesis using p(1) added(5,6) by (auto simp: port_inv_def)
  qed
qed

lemma port_inv_release:
  assumes inv: "port_inv L J root (w, H)" and run: "release_run L J root r w = (w', result)"
  shows "port_inv L J root (w', H(r := []))"
proof -
  note p = port_inv_parts [OF inv] and same = release_run_same [OF run]
  have held: "run_supervisor_active L root w' s" if "H s \<noteq> []" for s
    using that p(4) [of s] active_same [OF same, of L s] by auto
  show ?thesis
    using p(1,2) run
  proof (cases rule: release_run_cases)
    case unchanged
    show ?thesis
      by (rule port_inv_frame [OF inv _ unchanged])
        (use same held in \<open>auto simp: same_but_registry_def attempt_def split: if_splits\<close>)
  next
    case (removed es)
    have "covered (filter (\<lambda>e. pe_run_id e \<noteq> r) es) (H(r := []))"
      using p(5) [OF removed(1)] by (fastforce simp: covered_def)
    moreover have "exclusive (H(r := []))" using p(3) by (auto simp: exclusive_def)
    ultimately show ?thesis using p(1) removed(2,3) held by (auto simp: port_inv_def)
  qed
qed

lemma active_locked: "run_supervisor_active L root w r \<Longrightarrow> lock_path root r \<in> set (w_locked w)"
  by (auto simp: run_supervisor_active_def canonical_run_id_Inr Let_def try_lock_def
      split: sum.splits node.splits if_splits)

lemma active_cong:
  assumes "run_supervisor_active L root w r" and "w_faults w' = w_faults w"
    and "node_at w' (lock_path root r) = node_at w (lock_path root r)"
    and "lock_path root r \<in> set (w_locked w')"
  shows "run_supervisor_active L root w' r"
proof -
  obtain x where x: "canonical_run_id L r = Inr x"
    using assms(1) by (cases "canonical_run_id L r") (auto simp: run_supervisor_active_def)
  then have r: "x = r" by (simp add: canonical_run_id_Inr)
  have same: "symlink_metadata w' (lock_path root r) = symlink_metadata w (lock_path root r)"
    "open_file w' (lock_path root r) = open_file w (lock_path root r)"
    "try_lock w' (lock_path root r) = try_lock w (lock_path root r)"
    using assms active_locked [OF assms(1)]
    by (simp_all add: symlink_metadata_def open_file_def try_lock_def attempt_def)
  show ?thesis using assms(1) unfolding run_supervisor_active_def x r sum.case Let_def same .
qed

lemma port_inv_step:
  assumes "port_inv L J root s" and "port_step L J root s s'"
  shows "port_inv L J root s'"
  using assms(2,1)
proof (cases rule: port_step.cases)
  case (supervisor_starts r w H)
  let ?w = "w\<lparr>w_locked := lock_path root r # w_locked w\<rparr>"
  have inv: "port_inv L J root (w, H)" using supervisor_starts assms(1) by simp
  have "run_supervisor_active L root ?w q" if "H q \<noteq> []" for q
  proof -
    have act: "run_supervisor_active L root w q" by (rule port_inv_parts(4) [OF inv that])
    show ?thesis
      by (rule active_cong [OF act]) (use active_locked [OF act] in \<open>simp_all add: node_at_def\<close>)
  qed
  then have "port_inv L J root (?w, H)"
    by (intro port_inv_frame [OF inv]) (auto simp: node_at_def attempt_def)
  then show ?thesis using supervisor_starts by simp
next
  case (run_reserves w r H bind now names w' result)
  then show ?thesis using port_inv_reserve assms(1) by blast
next
  case (run_releases r w w' result H)
  then show ?thesis using port_inv_release assms(1) by blast
next
  case (supervisor_ends w H r)
  let ?w = "w\<lparr>w_locked := filter (\<lambda>p. p \<noteq> lock_path root r) (w_locked w)\<rparr>"
  have inv: "port_inv L J root (w, H)" using supervisor_ends assms(1) by simp
  have "run_supervisor_active L root ?w q" if "(H(r := [])) q \<noteq> []" for q
  proof -
    have q: "q \<noteq> r" "H q \<noteq> []" using that by (auto split: if_splits)
    have act: "run_supervisor_active L root w q" by (rule port_inv_parts(4) [OF inv q(2)])
    show ?thesis
      by (rule active_cong [OF act]) (use active_locked [OF act] q in \<open>simp_all add: node_at_def lock_path_def\<close>)
  qed
  then have "port_inv L J root (?w, H(r := []))"
    by (intro port_inv_frame [OF inv]) (auto simp: node_at_def attempt_def split: if_splits)
  then show ?thesis using supervisor_ends by simp
next
  case (others_work w' w H)
  have inv: "port_inv L J root (w, H)" using others_work assms(1) by simp
  have "run_supervisor_active L root w' q" if "H q \<noteq> []" for q
  proof -
    have act: "run_supervisor_active L root w q" by (rule port_inv_parts(4) [OF inv that])
    then show ?thesis using others_work(5) by simp
  qed
  then have "port_inv L J root (w', H)"
    using others_work by (intro port_inv_frame [OF inv]) auto
  then show ?thesis using others_work by simp
qed

lemma port_inv_start: "port_start J root s \<Longrightarrow> port_inv L J root s"
  by (auto simp: port_start_def port_inv_def exclusive_def covered_def)

interpretation port_leases: safe_system "port_start J root" "port_step L J root" "port_inv L J root"
  for L :: "'u ulid_lib" and J root
  by unfold_locales (rule port_inv_start, assumption, rule port_inv_step)

text \<open>
  C1: two live runs never hold the same port. From a store where no run holds a port, whatever
  supervisors start, reserve (with any ports the system assigns), fail, release, end or die in
  any order, the ports held by different runs are disjoint and a run holds each port once. Any
  operation on any file may fail at any step, but for two: that the lock of a live run shows as held, and
  that the registry's file is seen to exist when it does.
\<close>

theorem ports_never_shared:
  assumes "registry_documented J" and "registry_usable root w"
    and "(port_step L J root)\<^sup>*\<^sup>* (w, \<lambda>_. []) (w', H)" and "r \<noteq> s"
  shows "set (H r) \<inter> set (H s) = {} \<and> distinct (H r)"
proof -
  have "port_inv L J root (w', H)"
    using port_leases.reachable_inv [OF _ assms(3)] assms(1,2) by (simp add: port_start_def)
  then show ?thesis using assms(4) port_inv_parts(3) by (fastforce simp: exclusive_def)
qed

section \<open>A concrete reservation\<close>

text \<open>A self-delimiting encoding of registries, one codec that satisfies the law.\<close>

definition put_nat :: "nat \<Rightarrow> bytes" where
  "put_nat n = replicate n 1 @ [0]"

definition get_nat :: "bytes \<Rightarrow> nat \<times> bytes" where
  "get_nat bs = (length (takeWhile (\<lambda>b. b = 1) bs), tl (dropWhile (\<lambda>b. b = 1) bs))"

definition put_text :: "string \<Rightarrow> bytes" where
  "put_text s = put_nat (length s) @ as_bytes s"

definition get_text :: "bytes \<Rightarrow> string \<times> bytes" where
  "get_text bs = (case get_nat bs of (n, r) \<Rightarrow> (of_bytes (take n r), drop n r))"

definition put_entry :: "port_registry_entry \<Rightarrow> bytes" where
  "put_entry e = put_text (pe_run_id e) @ put_text (pe_name e) @ put_nat (unat (pe_port e)) @
     put_nat (unat (pe_acquired_at_ms e))"

definition get_entry :: "bytes \<Rightarrow> port_registry_entry \<times> bytes" where
  "get_entry bs =
     (let (run_id, bs) = get_text bs; (name, bs) = get_text bs; (port, bs) = get_nat bs;
          (at, bs) = get_nat bs
      in (\<lparr>pe_run_id = run_id, pe_name = name, pe_port = of_nat port, pe_acquired_at_ms = of_nat at\<rparr>, bs))"

fun get_entries :: "nat \<Rightarrow> bytes \<Rightarrow> port_registry_entry list" where
  "get_entries 0 bs = []"
| "get_entries (Suc n) bs = (case get_entry bs of (e, r) \<Rightarrow> e # get_entries n r)"

definition plain_registry_codec :: "port_registry json_codec" where
  "plain_registry_codec =
     \<lparr>js_write = (\<lambda>reg. put_text (pr_schema_version reg) @ put_nat (length (pr_entries reg)) @
        concat (map put_entry (pr_entries reg))),
      js_read = (\<lambda>bs. case get_text bs of (schema, bs) \<Rightarrow> case get_nat bs of (n, bs) \<Rightarrow>
        Inr \<lparr>pr_schema_version = schema, pr_entries = get_entries n bs\<rparr>)\<rparr>"

lemma get_nat_put: "get_nat (put_nat n @ r) = (n, r)"
  by (induction n) (simp_all add: get_nat_def put_nat_def)

lemma get_text_put: "get_text (put_text s @ r) = (s, r)"
  by (simp add: get_text_def put_text_def get_nat_put)

lemma get_entry_put: "get_entry (put_entry e @ r) = (e, r)"
  by (simp add: get_entry_def put_entry_def get_text_put get_nat_put)

lemma get_entries_put: "get_entries (length es) (concat (map put_entry es) @ r) = es"
  by (induction es) (simp_all add: get_entry_put)

lemma plain_registry_codec_documented: "registry_documented plain_registry_codec"
  by (simp add: registry_documented_def plain_registry_codec_def get_text_put get_nat_put get_entries_put)

definition one_run_world :: world where
  "one_run_world = (empty_world [lock_path [''srv''] (rs_run_id example_run)])
     \<lparr>w_nodes := [([], Directory), ([''srv''], Directory),
        (lock_path [''srv''] (rs_run_id example_run), Regular [])]\<rparr>"

lemma one_run_active: "run_supervisor_active crockford [''srv''] one_run_world (rs_run_id example_run)"
  by (simp add: run_supervisor_active_def example_run_valid symlink_metadata_def attempt_def
      open_file_def try_lock_def node_at_def one_run_world_def empty_world_def lock_path_def)

lemma try_bind_first: "0 < n \<Longrightarrow> bind i = Inr port \<Longrightarrow> port \<notin> set un \<Longrightarrow> try_bind bind n i un = Inr (port, Suc i)"
  by (cases n) simp_all

lemma one_run_reserves:
  "\<exists>w. reserve_ports crockford plain_registry_codec (\<lambda>_. Inr 4000) (\<lambda>_. 0) [''srv'']
      (rs_run_id example_run) [''web''] one_run_world =
     (w, Inr [\<lparr>rp_name = ''web'', rp_port = 4000, rp_listener = True\<rparr>])"
proof -
  let ?w = "put_node [''srv'', ''port-leases.lock''] (Regular []) one_run_world"
  have ok: "attempt (put_node p n one_run_world) op q = Inr ()" "attempt one_run_world op q = Inr ()" for p n op q
    by (simp_all add: attempt_def one_run_world_def empty_world_def)
  have nodes: "node_at one_run_world [''srv''] = Some Directory"
    "node_at one_run_world [''srv'', ''port-leases.lock''] = None"
    "node_at one_run_world [''srv'', ''port-leases.json''] = None"
    by (simp_all add: node_at_def one_run_world_def lock_path_def)
  have lock: "open_registry_lock [''srv''] one_run_world = (?w, Inr ())"
    by (simp add: open_registry_lock_def create_private_file_def parent_dir_def ok nodes)
  have load: "load_registry plain_registry_codec [''srv''] ?w =
      Inr \<lparr>pr_schema_version = registry_schema, pr_entries = []\<rparr>"
    by (simp add: load_registry_def path_exists_def registry_path_def nodes)
  have bind: "try_bind (\<lambda>_. Inr 4000) max_allocation_attempts 0 [] = Inr (4000, Suc 0)"
    by (rule try_bind_first) (simp_all add: max_allocation_attempts_def)
  show ?thesis
    by (simp add: reserve_ports_def update_registry_def lock load Let_def ok validate_registry_def
        prune_stale_def bind atomic_write_json_def parent_dir_def registry_path_def nodes)
qed

theorem ports_never_shared_witness:
  "\<exists>w H. (port_step crockford plain_registry_codec [''srv''])\<^sup>*\<^sup>* (one_run_world, \<lambda>_. []) (w, H) \<and>
     H (rs_run_id example_run) = [4000] \<and> set (H (rs_run_id example_run)) \<inter> set (H ''other'') = {}"
proof -
  obtain w where run: "reserve_ports crockford plain_registry_codec (\<lambda>_. Inr 4000) (\<lambda>_. 0) [''srv'']
      (rs_run_id example_run) [''web''] one_run_world =
     (w, Inr [\<lparr>rp_name = ''web'', rp_port = 4000, rp_listener = True\<rparr>])"
    using one_run_reserves by blast
  let ?H = "(\<lambda>_. [])(rs_run_id example_run := [4000]) :: holdings"
  have step: "(port_step crockford plain_registry_codec [''srv''])\<^sup>*\<^sup>* (one_run_world, \<lambda>_. []) (w, ?H)"
    using run_reserves [OF one_run_active refl run] by (simp add: r_into_rtranclp)
  have usable: "registry_usable [''srv''] one_run_world"
    by (simp add: registry_usable_def attempt_def one_run_world_def empty_world_def registry_path_def
        node_at_def lock_path_def)
  have "rs_run_id example_run \<noteq> ''other''" by (simp add: example_run_def)
  from ports_never_shared [OF plain_registry_codec_documented usable step this]
  have "set (?H (rs_run_id example_run)) \<inter> set (?H ''other'') = {}" by (rule conjunct1)
  moreover have "?H (rs_run_id example_run) = [4000]" by (rule fun_upd_same)
  ultimately show ?thesis using step by (intro exI conjI)
qed

end
