(* ===== verification/Lease_Book.thy ===== *)
theory Lease_Book
  imports Port_Safety
begin

text \<open>
  What the port registry of \<^verbatim>\<open>src/leases.rs\<close> promises: a book of the ports of each run. A reservation
  forgets the runs that are no longer live and adds ports that no live run has; a release forgets one
  run. The registry on disk, with its locking, validation, pruning and rewriting, implements it.
\<close>

section \<open>The book\<close>

record lease_book =
  bk_live :: "string set"
  bk_ports :: "string \<Rightarrow> u16 set"

definition book_reserve :: "string \<Rightarrow> u16 set \<Rightarrow> lease_book \<Rightarrow> lease_book" where
  "book_reserve r P b = b\<lparr>bk_ports :=
     (\<lambda>s. (if s \<in> bk_live b then bk_ports b s else {}) \<union> (if s = r then P else {}))\<rparr>"

definition book_release :: "string \<Rightarrow> lease_book \<Rightarrow> lease_book" where
  "book_release r b = b\<lparr>bk_ports := (bk_ports b)(r := {})\<rparr>"

inductive book_step :: "lease_book \<Rightarrow> lease_book \<Rightarrow> bool" where
  live_changes: "book_step b (b\<lparr>bk_live := A\<rparr>)"
| ports_reserved: "r \<in> bk_live b \<Longrightarrow> (\<And>s. s \<in> bk_live b \<Longrightarrow> bk_ports b s \<inter> P = {}) \<Longrightarrow>
    book_step b (book_reserve r P b)"
| ports_released: "book_step b (book_release r b)"

text \<open>In the book, no port is held twice.\<close>

definition book_disjoint :: "lease_book \<Rightarrow> bool" where
  "book_disjoint b \<longleftrightarrow> (\<forall>r s. r \<noteq> s \<longrightarrow> bk_ports b r \<inter> bk_ports b s = {})"

lemma book_disjoint_step: "book_disjoint b \<Longrightarrow> book_step b c \<Longrightarrow> book_disjoint c"
proof (erule book_step.cases)
  fix b' r P
  assume "book_disjoint b" "b = b'" "c = book_reserve r P b'" "\<And>s. s \<in> bk_live b' \<Longrightarrow> bk_ports b' s \<inter> P = {}"
  then show "book_disjoint c" unfolding book_disjoint_def book_reserve_def by (auto simp: disjoint_iff split: if_splits)
qed (auto simp: book_disjoint_def book_release_def)

interpretation book: safe_system book_disjoint book_step book_disjoint
  by unfold_locales (assumption, rule book_disjoint_step)

section \<open>The registry implements the book\<close>

definition ports_of :: "port_registry_entry list \<Rightarrow> string \<Rightarrow> u16 set" where
  "ports_of es r = pe_port ` {e \<in> set es. pe_run_id e = r}"

definition book_of :: "'u ulid_lib \<Rightarrow> port_registry json_codec \<Rightarrow> path \<Rightarrow> world \<times> holdings \<Rightarrow> lease_book" where
  "book_of L J root s =
     \<lparr>bk_live = {r. run_supervisor_active L root (fst s) r},
      bk_ports = (case disk_entries J root (fst s) of None \<Rightarrow> (\<lambda>_. {}) | Some es \<Rightarrow> ports_of es)\<rparr>"

lemma ports_of_live:
  "ports_of (live_entries L root w es) r = (if run_supervisor_active L root w r then ports_of es r else {})"
  by (auto simp: ports_of_def live_entries_def)

lemma ports_of_append: "ports_of (es @ fs) r = ports_of es r \<union> ports_of fs r"
  by (auto simp: ports_of_def)

lemma ports_of_new:
  assumes "length ports = length names"
  shows "ports_of (entries_of r now (zip names ports)) s = (if s = r then set ports else {})"
proof -
  have "map pe_port (entries_of r now (zip names ports)) = ports"
    using assms by (simp add: entries_of_def comp_def case_prod_unfold)
  then have "pe_port ` set (entries_of r now (zip names ports)) = set ports" by (metis list.set_map)
  moreover have "pe_run_id e = r" if "e \<in> set (entries_of r now (zip names ports))" for e
    using that by (auto simp: entries_of_def)
  ultimately show ?thesis unfolding ports_of_def by (cases "s = r") auto
qed

lemma ports_of_removed: "ports_of (filter (\<lambda>e. pe_run_id e \<noteq> r) es) = (ports_of es)(r := {})"
  by (auto simp: ports_of_def fun_eq_iff)

text \<open>A store whose registry can be read.\<close>

definition book_inv :: "'u ulid_lib \<Rightarrow> port_registry json_codec \<Rightarrow> path \<Rightarrow> world \<times> holdings \<Rightarrow> bool" where
  "book_inv L J root s \<longleftrightarrow> port_inv L J root s \<and> disk_entries J root (fst s) \<noteq> None"

definition book_start :: "port_registry json_codec \<Rightarrow> path \<Rightarrow> world \<times> holdings \<Rightarrow> bool" where
  "book_start J root s \<longleftrightarrow> port_start J root s \<and> disk_entries J root (fst s) \<noteq> None"

lemma disk_same: "node_at w' (registry_path root) = node_at w (registry_path root) \<Longrightarrow>
    disk_entries J root w' = disk_entries J root w"
  by (simp add: disk_entries_def)

lemma book_of_same:
  assumes "same_but_registry root w w'" and "node_at w' (registry_path root) = node_at w (registry_path root)"
  shows "book_of L J root (w', H') = book_of L J root (w, H)"
  by (simp add: book_of_def disk_same [OF assms(2)] active_same [OF assms(1)])

text \<open>A reservation is one of the book, of exactly the ports it returns, or an error that changes nothing.\<close>

lemma reserve_ports_book:
  assumes "registry_documented J" and "registry_usable root w" and "disk_entries J root w \<noteq> None"
    and act: "run_supervisor_active L root w r"
    and run: "reserve_ports L J bind now root r names w = (w', result)"
  shows "disk_entries J root w' \<noteq> None \<and>
    (book_of L J root (w', H') = book_of L J root (w, H) \<and> (result = Inr [] \<or> (\<exists>e. result = Inl e)) \<or>
     (\<exists>P. book_of L J root (w', H') = book_reserve r P (book_of L J root (w, H)) \<and>
        (\<forall>s\<in>bk_live (book_of L J root (w, H)). bk_ports (book_of L J root (w, H)) s \<inter> P = {}) \<and>
        (\<forall>reserved. result = Inr reserved \<longrightarrow> P = set (map rp_port reserved) \<and> card P = length names)))"
  using assms(1,2) run
proof (cases rule: reserve_ports_cases)
  case unchanged
  have "disk_entries J root w' \<noteq> None" using assms(3) by (simp only: disk_same [OF unchanged(1)] not_False_eq_True)
  moreover have "book_of L J root (w', H') = book_of L J root (w, H)"
    by (rule book_of_same [OF reserve_ports_same [OF run] unchanged(1)])
  moreover have "result = Inr [] \<or> (\<exists>e. result = Inl e)" using unchanged(2) by blast
  ultimately show ?thesis by blast
next
  case (added es ports)
  note same = active_same [OF reserve_ports_same [OF run]]
  let ?b = "book_of L J root (w, H)"
  have "bk_ports (book_of L J root (w', H')) s = bk_ports (book_reserve r (set ports) ?b) s" for s
    by (simp add: book_of_def book_reserve_def added(4,6) ports_of_append ports_of_live ports_of_new [OF added(1)])
  then have eq: "book_of L J root (w', H') = book_reserve r (set ports) ?b"
    by (simp add: book_of_def book_reserve_def same fun_eq_iff)
  have free: "\<forall>s\<in>bk_live ?b. bk_ports ?b s \<inter> set ports = {}"
  proof
    fix s assume "s \<in> bk_live ?b"
    then have "bk_ports ?b s = ports_of (live_entries L root w es) s"
      by (simp add: book_of_def added(4) ports_of_live)
    then show "bk_ports ?b s \<inter> set ports = {}" using added(3) by (auto simp: ports_of_def)
  qed
  have "\<forall>reserved. result = Inr reserved \<longrightarrow> set ports = set (map rp_port reserved) \<and> card (set ports) = length names"
    using added(1,7) distinct_card [OF added(2)] by auto
  moreover have "disk_entries J root w' \<noteq> None" unfolding added(6) by (rule option.distinct)
  ultimately show ?thesis using eq free by (intro conjI disjI2 exI [of _ "set ports"])
qed

lemma book_inv_step:
  assumes "book_inv L J root s" and "port_step L J root s t"
  shows "book_inv L J root t \<and> book_step\<^sup>*\<^sup>* (book_of L J root s) (book_of L J root t)"
proof -
  have inv: "port_inv L J root s" "disk_entries J root (fst s) \<noteq> None" using assms(1) by (simp_all add: book_inv_def)
  have next_inv: "port_inv L J root t" by (rule port_inv_step [OF inv(1) assms(2)])
  have live: "book_step (book_of L J root s) (book_of L J root t) \<and> disk_entries J root (fst t) \<noteq> None"
    if "node_at (fst t) (registry_path root) = node_at (fst s) (registry_path root)"
  proof -
    have "book_of L J root t = (book_of L J root s)\<lparr>bk_live := bk_live (book_of L J root t)\<rparr>"
      using disk_same [OF that] by (simp add: book_of_def)
    then show ?thesis using live_changes disk_same [OF that] inv(2) by metis
  qed
  from assms(2) have "book_step\<^sup>*\<^sup>* (book_of L J root s) (book_of L J root t) \<and> disk_entries J root (fst t) \<noteq> None"
  proof (cases rule: port_step.cases)
    case (run_reserves w r H bind now names w' result)
    note p = port_inv_parts [OF inv(1) [unfolded run_reserves(1)]]
    have d: "disk_entries J root w \<noteq> None" using inv(2) run_reserves by simp
    from reserve_ports_book [OF p(1,2) d run_reserves(3,5)] show ?thesis
      unfolding run_reserves(1,2) fst_conv using ports_reserved run_reserves(3)
      by (metis (no_types, lifting) book_of_def fst_conv lease_book.select_convs(1) mem_Collect_eq r_into_rtranclp rtranclp.rtrancl_refl)
  next
    case (run_releases r w w' result H)
    note p = port_inv_parts [OF inv(1) [unfolded run_releases(1)]]
    note same = release_run_same [OF run_releases(3)]
    from p(1,2) run_releases(3) show ?thesis
    proof (cases rule: release_run_cases)
      case unchanged
      then show ?thesis using live run_releases by auto
    next
      case (removed es)
      have "book_of L J root t = book_release r (book_of L J root s)"
        by (simp add: run_releases(1,2) book_of_def book_release_def removed ports_of_removed active_same [OF same])
      then show ?thesis using removed(3) ports_released run_releases(2) by auto
    qed
  qed (use live in \<open>auto simp: node_at_def\<close>)
  then show ?thesis using next_inv by (simp add: book_inv_def)
qed

interpretation registry: refined_system "book_start J root" "port_step L J root" "book_inv L J root"
    "book_of L J root" book_step
  for L :: "'u ulid_lib" and J root
proof unfold_locales
  show "book_inv L J root s" if "book_start J root s" for s
    using that port_inv_start [of J root s L] by (simp add: book_start_def book_inv_def)
qed (use book_inv_step in blast)+

text \<open>
  C2: the port registry refines the book of leases. Whatever supervisors start, reserve, fail, release,
  end or die in any order, the registry on disk goes through steps of the book: it only ever gains ports
  that no live run has, for a live run, and only ever loses those of runs that are released or no longer
  live. What a run holds is always written there, and a book in which no port is held twice stays so.
\<close>

theorem registry_refines_book:
  assumes "registry_documented J" and "registry_usable root w" and "disk_entries J root w \<noteq> None"
    and "(port_step L J root)\<^sup>*\<^sup>* (w, \<lambda>_. []) (w', H)"
  shows "book_step\<^sup>*\<^sup>* (book_of L J root (w, \<lambda>_. [])) (book_of L J root (w', H)) \<and>
    (\<forall>r. set (H r) \<subseteq> bk_ports (book_of L J root (w', H)) r) \<and>
    (book_disjoint (book_of L J root (w, \<lambda>_. [])) \<longrightarrow> book_disjoint (book_of L J root (w', H)))"
proof -
  have start: "book_start J root (w, \<lambda>_. [])" using assms by (simp add: book_start_def port_start_def)
  have inv: "book_inv L J root (w', H)" by (rule registry.reachable_inv [OF start assms(4)])
  have steps: "book_step\<^sup>*\<^sup>* (book_of L J root (w, \<lambda>_. [])) (book_of L J root (w', H))"
    by (rule registry.steps_simulated [OF assms(4) registry.init_inv [OF start]])
  from inv obtain es where es: "disk_entries J root w' = Some es" "covered es H"
    by (auto simp: book_inv_def port_inv_def)
  have "set (H r) \<subseteq> bk_ports (book_of L J root (w', H)) r" for r
    using es(2) by (force simp: book_of_def es(1) ports_of_def covered_def)
  then show ?thesis using steps book.steps_inv [OF steps] by blast
qed

theorem registry_refines_book_witness:
  "\<exists>w H. H (rs_run_id example_run) = [4000] \<and>
     4000 \<in> bk_ports (book_of crockford plain_registry_codec [''srv''] (w, H)) (rs_run_id example_run) \<and>
     book_disjoint (book_of crockford plain_registry_codec [''srv''] (w, H))"
proof -
  obtain w where run: "reserve_ports crockford plain_registry_codec (\<lambda>_. Inr 4000) (\<lambda>_. 0) [''srv'']
      (rs_run_id example_run) [''web''] one_run_world =
     (w, Inr [\<lparr>rp_name = ''web'', rp_port = 4000, rp_listener = True\<rparr>])"
    using one_run_reserves by blast
  let ?H = "(\<lambda>_. [])(rs_run_id example_run := [4000]) :: holdings"
  have step: "(port_step crockford plain_registry_codec [''srv''])\<^sup>*\<^sup>* (one_run_world, \<lambda>_. []) (w, ?H)"
    using run_reserves [OF one_run_active refl run] by (simp add: r_into_rtranclp)
  have usable: "registry_usable [''srv''] one_run_world" "disk_entries plain_registry_codec [''srv''] one_run_world = Some []"
    by (simp_all add: registry_usable_def disk_entries_def attempt_def one_run_world_def empty_world_def
        registry_path_def node_at_def lock_path_def)
  have "book_disjoint (book_of crockford plain_registry_codec [''srv''] (one_run_world, \<lambda>_. []))"
    by (simp add: book_disjoint_def book_of_def usable(2) ports_of_def)
  then show ?thesis
    using registry_refines_book [OF plain_registry_codec_documented usable(1) _ step] usable(2)
    by (intro exI [of _ w] exI [of _ ?H]) (auto simp: subset_iff)
qed

end
