(* ===== verification/Log_Codec.thy ===== *)
theory Log_Codec
  imports Model
begin

text \<open>
  The libraries the log files rest on: the base64 engine and the JSON serializer are parameters
  (\<open>log_codec\<close>), and \<open>log_codec_documented\<close> states what the code relies on. The second half
  builds one implementation, base64 of RFC 4648 with the compact JSON of a log record, and shows
  that it satisfies the hypotheses.
\<close>

section \<open>The parameters\<close>

record log_codec =
  b64_encode :: "bytes \<Rightarrow> string"
  b64_decode :: "string \<Rightarrow> string + bytes"
  json_write :: "log_record \<Rightarrow> bytes"
  json_read :: "bytes \<Rightarrow> string + log_record"

definition b64_alphabet :: string where
  "b64_alphabet = ''ABCDEFGHIJKLMNOPQRSTUVWXYZabcdefghijklmnopqrstuvwxyz0123456789+/''"

definition b64_text :: "string \<Rightarrow> bool" where
  "b64_text s \<longleftrightarrow> set s \<subseteq> insert (CHR ''='') (set b64_alphabet)"

text \<open>
  Base64 decodes what it encodes, in groups of four characters of its alphabet. The compact JSON
  of a record whose data needs no escape reads back (with the newline that ends the line), has no
  newline of its own, and adds less than 512 bytes to the data.
\<close>

definition log_codec_documented :: "log_codec \<Rightarrow> bool" where
  "log_codec_documented C \<longleftrightarrow>
     (\<forall>bs. b64_decode C (b64_encode C bs) = Inr bs \<and>
        length (b64_encode C bs) = 4 * ((length bs + 2) div 3) \<and> b64_text (b64_encode C bs)) \<and>
     (\<forall>r. lg_schema_version r = log_record_schema_version \<and> b64_text (lg_data r) \<longrightarrow>
        json_read C (json_write C r @ [10]) = Inr r \<and> 10 \<notin> set (json_write C r) \<and>
        length (json_write C r) < length (lg_data r) + 512)"

section \<open>Base64\<close>

definition b64_char :: "nat \<Rightarrow> char" where
  "b64_char n = b64_alphabet ! n"

fun rfc4648_encode :: "bytes \<Rightarrow> string" where
  "rfc4648_encode [] = []"
| "rfc4648_encode [a] =
     [b64_char (unat a div 4), b64_char (unat a mod 4 * 16), CHR ''='', CHR ''='']"
| "rfc4648_encode [a, b] =
     [b64_char (unat a div 4), b64_char (unat a mod 4 * 16 + unat b div 16),
      b64_char (unat b mod 16 * 4), CHR ''='']"
| "rfc4648_encode (a # b # c # bs) =
     [b64_char (unat a div 4), b64_char (unat a mod 4 * 16 + unat b div 16),
      b64_char (unat b mod 16 * 4 + unat c div 64), b64_char (unat c mod 64)] @ rfc4648_encode bs"

abbreviation sextet :: "char \<Rightarrow> nat option" where
  "sextet \<equiv> char_index b64_alphabet"

definition quad :: "nat \<Rightarrow> nat \<Rightarrow> nat \<Rightarrow> nat \<Rightarrow> bytes" where
  "quad v w x y = [of_nat (v * 4 + w div 16), of_nat (w mod 16 * 16 + x div 4), of_nat (x mod 4 * 64 + y)]"

definition decode_last :: "char \<Rightarrow> char \<Rightarrow> char \<Rightarrow> char \<Rightarrow> bytes option" where
  "decode_last p q r s =
     (case (sextet p, sextet q, sextet r, sextet s) of
        (Some v, Some w, Some x, Some y) \<Rightarrow> Some (quad v w x y)
      | (Some v, Some w, Some x, None) \<Rightarrow>
          if s = CHR ''='' \<and> x mod 4 = 0 then Some (take 2 (quad v w x 0)) else None
      | (Some v, Some w, None, None) \<Rightarrow>
          if r = CHR ''='' \<and> s = CHR ''='' \<and> w mod 16 = 0 then Some (take 1 (quad v w 0 0)) else None
      | _ \<Rightarrow> None)"

fun rfc4648_decode :: "string \<Rightarrow> bytes option" where
  "rfc4648_decode [] = Some []"
| "rfc4648_decode [p, q, r, s] = decode_last p q r s"
| "rfc4648_decode (p # q # r # s # cs) =
     (case (sextet p, sextet q, sextet r, sextet s, rfc4648_decode cs) of
        (Some v, Some w, Some x, Some y, Some bs) \<Rightarrow> Some (quad v w x y @ bs)
      | _ \<Rightarrow> None)"
| "rfc4648_decode _ = None"

lemma length_b64_alphabet [simp]: "length b64_alphabet = 64"
  by (simp add: b64_alphabet_def)

lemma distinct_b64_alphabet: "distinct b64_alphabet"
  by (simp add: b64_alphabet_def)

lemma sextet_char [simp]: "n < 64 \<Longrightarrow> sextet (b64_char n) = Some n"
  by (simp add: b64_char_def char_index_nth distinct_b64_alphabet)

lemma sextet_pad [simp]: "sextet (CHR ''='') = None"
  by (simp add: b64_alphabet_def)

lemma b64_char_mem: "n < 64 \<Longrightarrow> b64_char n \<in> set b64_alphabet"
  by (simp add: b64_char_def)

lemma u8_less: "unat (a :: u8) < 256"
  using unat_less [of a] by simp

lemma octets:
  "unat (a :: u8) div 4 < 64" "unat a mod 4 * 16 < 64" "unat a mod 4 * 16 + unat (b :: u8) div 16 < 64"
  "unat b mod 16 * 4 < 64" "unat b mod 16 * 4 + unat (c :: u8) div 64 < 64" "unat c mod 64 < 64"
  using u8_less [of a] u8_less [of b] u8_less [of c] by auto

lemma quad_octets:
  "quad (unat a div 4) (unat a mod 4 * 16 + unat b div 16) (unat b mod 16 * 4 + unat c div 64)
     (unat c mod 64) = [a, b, c]"
proof -
  have "unat b div 16 < 16" "unat c div 64 < 4"
    using u8_less [of b] u8_less [of c] by simp_all
  then have "unat a div 4 * 4 + (unat a mod 4 * 16 + unat b div 16) div 16 = unat a"
    "(unat a mod 4 * 16 + unat b div 16) mod 16 * 16 +
       (unat b mod 16 * 4 + unat c div 64) div 4 = unat b"
    "(unat b mod 16 * 4 + unat c div 64) mod 4 * 64 + unat c mod 64 = unat c"
    by simp_all
  then show ?thesis by (simp add: quad_def)
qed

lemma rfc4648_encode_Nil: "rfc4648_encode bs = [] \<longleftrightarrow> bs = []"
  by (cases bs rule: rfc4648_encode.cases) simp_all

lemma rfc4648_decode_step:
  "cs \<noteq> [] \<Longrightarrow> rfc4648_decode (p # q # r # s # cs) =
     (case (sextet p, sextet q, sextet r, sextet s, rfc4648_decode cs) of
        (Some v, Some w, Some x, Some y, Some bs) \<Rightarrow> Some (quad v w x y @ bs)
      | _ \<Rightarrow> None)"
  by (cases cs) simp_all

lemma rfc4648_roundtrip: "rfc4648_decode (rfc4648_encode bs) = Some bs"
proof (induction bs rule: rfc4648_encode.induct)
  case (2 a)
  have "take 1 (quad (unat a div 4) (unat a mod 4 * 16) 0 0) = [a]"
    using quad_octets [of a 0 0] by simp
  then show ?case by (simp add: decode_last_def octets)
next
  case (3 a b)
  have "take 2 (quad (unat a div 4) (unat a mod 4 * 16 + unat b div 16) (unat b mod 16 * 4) 0) = [a, b]"
    using quad_octets [of a b 0] by simp
  then show ?case by (simp add: decode_last_def octets)
next
  case (4 a b c bs)
  then show ?case
    by (cases "bs = []")
      (simp_all add: decode_last_def octets quad_octets rfc4648_decode_step rfc4648_encode_Nil)
qed simp

lemma rfc4648_length: "length (rfc4648_encode bs) = 4 * ((length bs + 2) div 3)"
proof (induction bs rule: rfc4648_encode.induct)
  case (4 a b c bs)
  have groups: "(length (a # b # c # bs) + 2) div 3 = Suc ((length bs + 2) div 3)" by simp
  have "length (rfc4648_encode (a # b # c # bs)) = 4 + length (rfc4648_encode bs)" by simp
  then show ?case unfolding groups 4 by simp
qed simp_all

lemma rfc4648_text: "b64_text (rfc4648_encode bs)"
  by (induction bs rule: rfc4648_encode.induct)
    (auto simp: b64_text_def intro!: b64_char_mem octets [simplified])

section \<open>The compact JSON of a record\<close>

text \<open>The text \<open>serde_json\<close> writes, as the constant parts around the fields.\<close>

definition json_1 :: string where
  "json_1 = ''{'' @ [CHR 0x22] @ ''schema_version'' @ [CHR 0x22] @ '':'' @ [CHR 0x22] @
     log_record_schema_version @ [CHR 0x22] @ '','' @ [CHR 0x22] @ ''cursor'' @ [CHR 0x22] @ '':''"

definition json_2 :: string where
  "json_2 = '','' @ [CHR 0x22] @ ''timestamp_ms'' @ [CHR 0x22] @ '':''"

definition json_3 :: string where
  "json_3 = '','' @ [CHR 0x22] @ ''stream'' @ [CHR 0x22] @ '':'' @ [CHR 0x22] @ ''std''"

fun json_stream :: "log_stream \<Rightarrow> string" where
  "json_stream Stdout = ''out''"
| "json_stream Stderr = ''err''"

definition json_4 :: string where
  "json_4 = [CHR 0x22] @ '','' @ [CHR 0x22] @ ''encoding'' @ [CHR 0x22] @ '':'' @ [CHR 0x22] @
     ''base64'' @ [CHR 0x22] @ '','' @ [CHR 0x22] @ ''data'' @ [CHR 0x22] @ '':'' @ [CHR 0x22]"

definition json_5 :: string where
  "json_5 = [CHR 0x22] @ '','' @ [CHR 0x22] @ ''byte_count'' @ [CHR 0x22] @ '':''"

definition json_text :: "log_record \<Rightarrow> string" where
  "json_text r = json_1 @ show_word (lg_cursor r) @ json_2 @ show_word (lg_timestamp_ms r) @
     json_3 @ json_stream (lg_stream r) @ json_4 @ lg_data r @ json_5 @
     show_word (lg_byte_count r) @ ''}''"

definition read_number :: "string \<Rightarrow> (u64 \<times> string) option" where
  "read_number s =
     map_option (\<lambda>n. (n, dropWhile is_ascii_digit s)) (parse_u64 (takeWhile is_ascii_digit s))"

definition read_stream :: "string \<Rightarrow> (log_stream \<times> string) option" where
  "read_stream s =
     (case strip_prefix ''out'' s of
        Some t \<Rightarrow> Some (Stdout, t)
      | None \<Rightarrow> map_option (\<lambda>t. (Stderr, t)) (strip_prefix ''err'' s))"

definition json_parse :: "string \<Rightarrow> log_record option" where
  "json_parse s =
     Option.bind (strip_prefix json_1 s) (\<lambda>s.
     Option.bind (read_number s) (\<lambda>(cursor, s).
     Option.bind (strip_prefix json_2 s) (\<lambda>s.
     Option.bind (read_number s) (\<lambda>(timestamp, s).
     Option.bind (strip_prefix json_3 s) (\<lambda>s.
     Option.bind (read_stream s) (\<lambda>(stream, s).
     Option.bind (strip_prefix json_4 s) (\<lambda>s.
     Option.bind (strip_prefix json_5 (dropWhile (\<lambda>c. c \<noteq> CHR 0x22) s)) (\<lambda>t.
     Option.bind (read_number t) (\<lambda>(count, t).
       if t = CHR ''}'' # [CHR 0x0A] then
         Some \<lparr>lg_schema_version = log_record_schema_version, lg_cursor = cursor,
           lg_timestamp_ms = timestamp, lg_stream = stream, lg_encoding = Base64,
           lg_data = takeWhile (\<lambda>c. c \<noteq> CHR 0x22) s, lg_byte_count = count\<rparr>
       else None)))))))))"

definition standard_codec :: log_codec where
  "standard_codec =
     \<lparr>b64_encode = rfc4648_encode,
      b64_decode = (\<lambda>s. ok_or (rfc4648_decode s) ''Invalid base64''),
      json_write = (\<lambda>r. as_bytes (json_text r)),
      json_read = (\<lambda>bs. ok_or (json_parse (of_bytes bs)) ''invalid record'')\<rparr>"

lemma read_number_show:
  "\<not> is_ascii_digit c \<Longrightarrow> read_number (show_word w @ c # s) = Some (w, c # s)"
  by (simp add: read_number_def takeWhile_show parse_u64_show)

lemma not_digits:
  "\<not> is_ascii_digit (CHR '','')" "\<not> is_ascii_digit (CHR ''}'')" "\<not> is_ascii_digit (CHR 0x22)"
  by (simp_all add: is_ascii_digit_def char_code_def)

lemma read_number_json:
  "read_number (show_word w @ json_2 @ s) = Some (w, json_2 @ s)"
  "read_number (show_word w @ json_3 @ s) = Some (w, json_3 @ s)"
  "read_number (show_word w @ CHR ''}'' # s) = Some (w, CHR ''}'' # s)"
  by (simp_all add: json_2_def json_3_def read_number_show not_digits)

lemma read_stream_json: "read_stream (json_stream x @ s) = Some (x, s)"
  by (cases x) (simp_all add: read_stream_def strip_prefix_Some)

lemma quote_not_b64: "CHR 0x22 \<notin> set b64_alphabet"
  by (simp add: b64_alphabet_def)

lemma takeWhile_data:
  assumes "b64_text d"
  shows "takeWhile (\<lambda>c. c \<noteq> CHR 0x22) (d @ json_5 @ s) = d"
    and "dropWhile (\<lambda>c. c \<noteq> CHR 0x22) (d @ json_5 @ s) = json_5 @ s"
proof -
  have "\<forall>c\<in>set d. c \<noteq> CHR 0x22" using assms quote_not_b64 by (auto simp: b64_text_def)
  then show "takeWhile (\<lambda>c. c \<noteq> CHR 0x22) (d @ json_5 @ s) = d"
    "dropWhile (\<lambda>c. c \<noteq> CHR 0x22) (d @ json_5 @ s) = json_5 @ s"
    by (simp_all add: takeWhile_append dropWhile_append json_5_def)
qed

lemma json_roundtrip:
  assumes "lg_schema_version r = log_record_schema_version" and "b64_text (lg_data r)"
  shows "json_parse (json_text r @ [CHR 0x0A]) = Some r"
proof -
  obtain c where "lg_encoding r = c" by simp
  then have "lg_encoding r = Base64" by (cases c) simp
  then show ?thesis
    using assms
    by (simp add: json_parse_def json_text_def read_number_json read_stream_json takeWhile_data)
qed

text \<open>No newline in a line, and the size of what surrounds the data.\<close>

lemma digits_no_newline: "CHR 0x0A \<notin> set (show_nat n)"
  using show_nat_digits [of n] by (auto simp: list_all_iff is_ascii_digit_def char_code_def)

lemma json_no_newline:
  assumes "b64_text (lg_data r)"
  shows "CHR 0x0A \<notin> set (json_text r)"
proof -
  have "CHR 0x0A \<notin> set (lg_data r)" using assms by (auto simp: b64_text_def b64_alphabet_def)
  moreover have "CHR 0x0A \<notin> set (json_stream (lg_stream r))" by (cases "lg_stream r") simp_all
  ultimately show ?thesis
    by (simp add: json_text_def json_1_def json_2_def json_3_def json_4_def json_5_def
        log_record_schema_version_def digits_no_newline)
qed

lemma json_length: "length (json_text r) < length (lg_data r) + 512"
proof -
  have digits: "length (show_word w) \<le> 20" for w :: u64
    using unat_less [of w] by (intro length_show_nat) simp_all
  have "length (json_stream (lg_stream r)) = 3" by (cases "lg_stream r") simp_all
  then show ?thesis
    using digits [of "lg_cursor r"] digits [of "lg_timestamp_ms r"] digits [of "lg_byte_count r"]
    by (simp add: json_text_def json_1_def json_2_def json_3_def json_4_def json_5_def
        log_record_schema_version_def)
qed

lemma as_bytes_newline: "as_bytes s @ [10] = as_bytes (s @ [CHR 0x0A])"
  by (simp add: as_bytes_def)

lemma newline_as_bytes: "10 \<in> set (as_bytes s) \<longleftrightarrow> CHR 0x0A \<in> set s"
proof -
  have "(of_char c :: u8) = 10 \<longleftrightarrow> c = CHR 0x0A" for c
  proof
    assume "(of_char c :: u8) = 10"
    then have "as_bytes [c] = as_bytes [CHR 0x0A]" by (simp add: as_bytes_def)
    then show "c = CHR 0x0A" by (simp only: as_bytes_inject list.inject)
  qed simp
  then show ?thesis by (force simp: as_bytes_def)
qed

lemma standard_codec_documented: "log_codec_documented standard_codec"
  by (simp add: log_codec_documented_def standard_codec_def rfc4648_roundtrip rfc4648_length
      rfc4648_text as_bytes_newline json_roundtrip newline_as_bytes json_no_newline json_length)

end
