(* ===== verification/Log_Writer.thy ===== *)
theory Log_Writer
  imports Log_Codec Hex Systems
begin

text \<open>
  The writing half of \<^verbatim>\<open>src/logs.rs\<close>: the capture thread, \<open>LogWriter\<close> with its bound on
  the captured bytes, and the summary it keeps. The base64 engine and the JSON serializer (\<open>Log_Codec\<close>) and the
  SHA-256 digest are parameters; the outcome of each write is an argument of the step that makes
  it. The widths of \<open>usize\<close> and \<open>u64\<close> agree (64-bit platforms).

  The invariant \<open>writer_holds\<close> ties the file to the list of records it holds; the lemmas show that
  the retained bytes are a prefix of what arrived, that nothing is lost without being counted,
  and that the digests cover the whole streams.
\<close>

section \<open>The digest\<close>

record 'd digest_lib =
  dg_new :: 'd
  dg_update :: "'d \<Rightarrow> bytes \<Rightarrow> 'd"
  dg_finalize :: "'d \<Rightarrow> bytes"

text \<open>A digest depends only on the concatenation of what it was fed.\<close>

definition digest_documented :: "'d digest_lib \<Rightarrow> (bytes \<Rightarrow> bytes) \<Rightarrow> bool" where
  "digest_documented D hash \<longleftrightarrow>
     (\<forall>bss. dg_finalize D (foldl (dg_update D) (dg_new D) bss) = hash (concat bss))"

section \<open>Capturing a stream\<close>

definition read_chunk_bytes :: nat where
  "read_chunk_bytes = 8 * 1024"

record log_chunk =
  ch_stream :: log_stream
  ch_bytes :: bytes

text \<open>
  What a call of \<open>read\<close> gives: bytes (none at the end of the stream), an interruption, or
  another error. \<open>alive n\<close> tells whether the \<open>n\<close>th send finds the receiver.
\<close>

datatype read_outcome = Read_ok bytes | Read_interrupted | Read_failed

fun capture_stream :: "log_stream \<Rightarrow> (nat \<Rightarrow> bool) \<Rightarrow> nat \<Rightarrow> read_outcome list \<Rightarrow> log_chunk list" where
  "capture_stream stream alive n [] = []"
| "capture_stream stream alive n (Read_ok bs # reads) =
     (if bs = [] then []
      else if alive n
      then \<lparr>ch_stream = stream, ch_bytes = bs\<rparr> # capture_stream stream alive (Suc n) reads
      else [])"
| "capture_stream stream alive n (Read_interrupted # reads) = capture_stream stream alive n reads"
| "capture_stream stream alive n (Read_failed # reads) = []"

section \<open>The writer\<close>

record 'd log_writer =
  lw_file :: bytes
  lw_summary :: log_summary
  lw_stdout_digest :: 'd
  lw_stderr_digest :: 'd

definition log_writer_create :: "'d digest_lib \<Rightarrow> app_error + unit \<Rightarrow> u64 \<Rightarrow> app_error + 'd log_writer" where
  "log_writer_create D created max_bytes =
     bindE created (\<lambda>_. Inr
       \<lparr>lw_file = [], lw_summary = log_summary_new max_bytes,
        lw_stdout_digest = dg_new D, lw_stderr_digest = dg_new D\<rparr>)"

fun update_digest :: "'d digest_lib \<Rightarrow> log_chunk \<Rightarrow> 'd log_writer \<Rightarrow> 'd log_writer" where
  "update_digest D ch w =
     (case ch_stream ch of
        Stdout \<Rightarrow> w\<lparr>lw_stdout_digest := dg_update D (lw_stdout_digest w) (ch_bytes ch)\<rparr>
      | Stderr \<Rightarrow> w\<lparr>lw_stderr_digest := dg_update D (lw_stderr_digest w) (ch_bytes ch)\<rparr>)"

declare update_digest.simps [simp del]

definition available :: "'d log_writer \<Rightarrow> nat" where
  "available w = unat (sat_sub (sm_max_bytes (lw_summary w)) (sm_captured_bytes (lw_summary w)))"

definition capturable_bytes :: "'d log_writer \<Rightarrow> log_chunk \<Rightarrow> bytes" where
  "capturable_bytes w ch = take (min (length (ch_bytes ch)) (available w)) (ch_bytes ch)"

text \<open>\<open>u64::try_from\<close> of a length, with the largest value when it does not fit.\<close>

definition u64_of_len :: "nat \<Rightarrow> u64" where
  "u64_of_len n = (if n < 2 ^ 64 then of_nat n else - 1)"

definition record_for :: "log_codec \<Rightarrow> u64 \<Rightarrow> u64 \<Rightarrow> log_stream \<Rightarrow> bytes \<Rightarrow> log_record" where
  "record_for C now cursor stream bs =
     \<lparr>lg_schema_version = log_record_schema_version, lg_cursor = cursor, lg_timestamp_ms = now,
      lg_stream = stream, lg_encoding = Base64, lg_data = b64_encode C bs,
      lg_byte_count = u64_of_len (length bs)\<rparr>"

definition log_line :: "log_codec \<Rightarrow> log_record \<Rightarrow> bytes" where
  "log_line C r = json_write C r @ [10]"

text \<open>
  The outcome of writing a line: done, or a failure of the serializer, of the newline or of the
  flush after \<open>n\<close> bytes of the line have reached the file.
\<close>

datatype write_outcome =
  Written | Json_failed string nat | Write_failed io_error nat | Flush_failed io_error nat

definition add_dropped :: "nat \<Rightarrow> 'd log_writer \<Rightarrow> 'd log_writer" where
  "add_dropped n w = w\<lparr>lw_summary := (lw_summary w)
     \<lparr>sm_dropped_bytes := sat_add (sm_dropped_bytes (lw_summary w)) (u64_of_len n)\<rparr>\<rparr>"

definition append_record :: "log_codec \<Rightarrow> log_record \<Rightarrow> 'd log_writer \<Rightarrow> 'd log_writer" where
  "append_record C r w = w\<lparr>lw_file := lw_file w @ log_line C r,
     lw_summary := (lw_summary w)
       \<lparr>sm_next_cursor := sat_add (sm_next_cursor (lw_summary w)) 1,
        sm_captured_bytes := sat_add (sm_captured_bytes (lw_summary w)) (lg_byte_count r)\<rparr>\<rparr>"

definition append_partial :: "bytes \<Rightarrow> nat \<Rightarrow> 'd log_writer \<Rightarrow> 'd log_writer" where
  "append_partial line n w = w\<lparr>lw_file := lw_file w @ take n line\<rparr>"

definition record_log ::
  "log_codec \<Rightarrow> 'd digest_lib \<Rightarrow> write_outcome \<Rightarrow> u64 \<Rightarrow> log_chunk \<Rightarrow> 'd log_writer \<Rightarrow>
   'd log_writer \<times> (app_error + unit)" where
  "record_log C D outcome now ch w =
     (let w = update_digest D ch w;
          captured = min (length (ch_bytes ch)) (available w);
          dropped = length (ch_bytes ch) - captured
      in if captured > 0 then
           (let r = record_for C now (sm_next_cursor (lw_summary w)) (ch_stream ch)
                      (take captured (ch_bytes ch)) in
            case outcome of
              Written \<Rightarrow> (add_dropped dropped (append_record C r w), Inr ())
            | Json_failed text n \<Rightarrow> (append_partial (log_line C r) n w, Inl (from_json text))
            | Write_failed e n \<Rightarrow> (append_partial (log_line C r) n w, Inl (from_io e))
            | Flush_failed e n \<Rightarrow> (append_partial (log_line C r) n w, Inl (from_io e)))
         else (add_dropped dropped w, Inr ()))"

definition log_snapshot :: "'d log_writer \<Rightarrow> log_summary" where
  "log_snapshot w = lw_summary w"

text \<open>\<open>finish\<close>; \<open>synced\<close> is the outcome of flushing and syncing the file.\<close>

definition log_finish :: "'d digest_lib \<Rightarrow> app_error + unit \<Rightarrow> 'd log_writer \<Rightarrow> app_error + log_summary" where
  "log_finish D synced w =
     bindE synced (\<lambda>_. Inr ((lw_summary w)
       \<lparr>sm_stdout_sha256 := Some (encode_lower (dg_finalize D (lw_stdout_digest w))),
        sm_stderr_sha256 := Some (encode_lower (dg_finalize D (lw_stderr_digest w)))\<rparr>))"

text \<open>Recording a sequence of chunks, each with its outcome and clock, up to the first error.\<close>

fun record_all ::
  "log_codec \<Rightarrow> 'd digest_lib \<Rightarrow> (write_outcome \<times> u64 \<times> log_chunk) list \<Rightarrow> 'd log_writer \<Rightarrow>
   'd log_writer \<times> (app_error + unit)" where
  "record_all C D [] w = (w, Inr ())"
| "record_all C D ((outcome, now, ch) # xs) w =
     (case record_log C D outcome now ch w of
        (w, Inl e) \<Rightarrow> (w, Inl e)
      | (w, Inr _) \<Rightarrow> record_all C D xs w)"

section \<open>What the file holds\<close>

text \<open>An entry is a captured part of a chunk; the records number the entries from 1.\<close>

type_synonym log_entry = "u64 \<times> log_stream \<times> bytes"

abbreviation entry_bytes :: "log_entry \<Rightarrow> bytes" where
  "entry_bytes e \<equiv> snd (snd e)"

definition entries_size :: "log_entry list \<Rightarrow> nat" where
  "entries_size es = length (concat (map entry_bytes es))"

definition record_of :: "log_codec \<Rightarrow> nat \<Rightarrow> log_entry \<Rightarrow> log_record" where
  "record_of C i e = record_for C (fst e) (of_nat i) (fst (snd e)) (entry_bytes e)"

definition records_of :: "log_codec \<Rightarrow> log_entry list \<Rightarrow> log_record list" where
  "records_of C es = map (\<lambda>(i, e). record_of C i e) (enumerate 1 es)"

definition log_file :: "log_codec \<Rightarrow> log_record list \<Rightarrow> bytes" where
  "log_file C rs = concat (map (log_line C) rs)"

definition writer_holds :: "log_codec \<Rightarrow> 'd log_writer \<Rightarrow> log_entry list \<Rightarrow> bool" where
  "writer_holds C w es \<longleftrightarrow>
     lw_file w = log_file C (records_of C es) \<and>
     unat (sm_next_cursor (lw_summary w)) = length es + 1 \<and>
     unat (sm_captured_bytes (lw_summary w)) = entries_size es \<and>
     entries_size es \<le> unat (sm_max_bytes (lw_summary w)) \<and>
     (\<forall>e\<in>set es. entry_bytes e \<noteq> [])"

text \<open>The entries a sequence of chunks gives when \<open>room\<close> bytes are left.\<close>

fun kept :: "nat \<Rightarrow> (u64 \<times> log_chunk) list \<Rightarrow> log_entry list" where
  "kept room [] = []"
| "kept room ((now, ch) # xs) =
     (let bs = take room (ch_bytes ch) in
      (if bs = [] then [] else [(now, ch_stream ch, bs)]) @ kept (room - length bs) xs)"

definition arrived :: "(u64 \<times> log_chunk) list \<Rightarrow> bytes" where
  "arrived xs = concat (map (ch_bytes \<circ> snd) xs)"

lemma arrived_simps [simp]:
  "arrived [] = []" "arrived ((now, ch) # xs) = ch_bytes ch @ arrived xs"
  by (simp_all add: arrived_def)

lemma entries_size_simps [simp]:
  "entries_size [] = 0" "entries_size (e # es) = length (entry_bytes e) + entries_size es"
  "entries_size (es @ es') = entries_size es + entries_size es'"
  by (simp_all add: entries_size_def)

lemma kept_nonempty: "e \<in> set (kept room xs) \<Longrightarrow> entry_bytes e \<noteq> []"
  by (induction room xs rule: kept.induct) (auto simp: Let_def split: if_splits)

text \<open>What is kept is a prefix of what arrived, as long as there is room.\<close>

lemma kept_prefix: "concat (map entry_bytes (kept room xs)) = take room (arrived xs)"
  by (induction room xs rule: kept.induct) (auto simp: Let_def min_def)

lemma kept_size: "entries_size (kept room xs) = min (length (arrived xs)) room"
  by (simp add: entries_size_def kept_prefix)

lemma length_le_size: "\<forall>e\<in>set es. entry_bytes e \<noteq> [] \<Longrightarrow> length es \<le> entries_size es"
proof (induction es)
  case (Cons e es)
  then have "0 < length (entry_bytes e)" by simp
  moreover have "length es \<le> entries_size es" using Cons by simp
  ultimately show ?case by (simp del: length_greater_0_conv)
qed simp

lemma records_of_append:
  "records_of C (es @ [e]) = records_of C es @ [record_of C (length es + 1) e]"
  by (simp add: records_of_def enumerate_append_eq)

lemma length_records_of [simp]: "length (records_of C es) = length es"
  by (simp add: records_of_def)

lemma update_digest_frame [simp]:
  "lw_file (update_digest D ch w) = lw_file w" "lw_summary (update_digest D ch w) = lw_summary w"
  by (simp_all add: update_digest.simps split: log_stream.split)

lemma available_frame [simp]:
  "available (update_digest D ch w) = available w"
  by (simp add: available_def)

lemma available_holds:
  "writer_holds C w es \<Longrightarrow> available w = unat (sm_max_bytes (lw_summary w)) - entries_size es"
  by (simp add: writer_holds_def available_def unat_sat_sub)

lemma unat_u64_of_len: "unat (u64_of_len n) = min n (2 ^ 64 - 1)"
  by (auto simp: u64_of_len_def unat_of_nat unat_neg_one min_def)

section \<open>One step of the writer\<close>

lemma record_log_done:
  "record_log C D Written now ch w =
     (let bs = capturable_bytes w ch; w1 = update_digest D ch w in
      (add_dropped (length (ch_bytes ch) - length bs)
        (if bs = [] then w1
         else append_record C (record_for C now (sm_next_cursor (lw_summary w)) (ch_stream ch) bs) w1),
       Inr ()))"
proof (cases "min (length (ch_bytes ch)) (available w) = 0")
  case True
  then show ?thesis by (simp only: record_log_def Let_def available_frame capturable_bytes_def) simp
next
  case False
  then have "0 < min (length (ch_bytes ch)) (available w)" "ch_bytes ch \<noteq> []" "0 < available w"
    by auto
  then show ?thesis
    by (simp only: record_log_def Let_def available_frame capturable_bytes_def update_digest_frame
        if_True write_outcome.case length_take) (simp add: min_def)
qed

lemma min_add_min:
  "min (a + min b m) m = min (a + b) m" "min (min a m + b) m = min (a + b) (m :: nat)"
  by (simp_all add: min_def)

lemma record_log_written:
  assumes "writer_holds C w es" and "unat (sm_max_bytes (lw_summary w)) < 2 ^ 64 - 1"
    and "record_log C D Written now ch w = (w', r)"
  shows "r = Inr () \<and>
    sm_max_bytes (lw_summary w') = sm_max_bytes (lw_summary w) \<and>
    writer_holds C w'
      (es @ kept (unat (sm_max_bytes (lw_summary w)) - entries_size es) [(now, ch)]) \<and>
    unat (sm_dropped_bytes (lw_summary w')) =
      min (unat (sm_dropped_bytes (lw_summary w)) +
        (length (ch_bytes ch) - (unat (sm_max_bytes (lw_summary w)) - entries_size es))) (2 ^ 64 - 1)"
proof -
  let ?room = "unat (sm_max_bytes (lw_summary w)) - entries_size es"
  let ?bs = "take ?room (ch_bytes ch)"
  have bs: "capturable_bytes w ch = ?bs"
    unfolding capturable_bytes_def available_holds [OF assms(1)] by (simp add: min_def)
  have drop: "length (ch_bytes ch) - length ?bs = length (ch_bytes ch) - ?room"
    by simp
  note h = assms(1) [unfolded writer_holds_def]
  show ?thesis
  proof (cases "?bs = []")
    case True
    have "w' = add_dropped (length (ch_bytes ch) - ?room) (update_digest D ch w)" "r = Inr ()"
      using assms(3) drop unfolding record_log_done Let_def bs by (simp_all add: True)
    then show ?thesis
      using h True
      by (simp add: writer_holds_def add_dropped_def unat_sat_add unat_u64_of_len)
  next
    case False
    let ?e = "(now, ch_stream ch, ?bs)"
    have "0 < ?room" using False by auto
    then have len: "length es < unat (sm_max_bytes (lw_summary w))"
      using length_le_size [of es] h by linarith
    have cursor: "sm_next_cursor (lw_summary w) = of_nat (length es + 1)"
      by (rule word_of_unat) (simp add: h)
    have count: "unat (lg_byte_count (record_of C (length es + 1) ?e)) = length ?bs"
      using assms(2) by (simp add: record_of_def record_for_def unat_u64_of_len)
    have w': "w' = add_dropped (length (ch_bytes ch) - ?room)
        (append_record C (record_of C (length es + 1) ?e) (update_digest D ch w))" "r = Inr ()"
      using assms(3) False drop cursor
      by (simp_all only: record_log_done Let_def bs prod.inject if_False record_of_def fst_conv snd_conv)
    have "kept ?room [(now, ch)] = [?e]" using False by (simp add: Let_def)
    moreover have "unat (sat_add (sm_next_cursor (lw_summary w)) 1) = length es + 2"
      using h len assms(2) by (simp add: unat_sat_add)
    moreover have "unat (sat_add (sm_captured_bytes (lw_summary w))
        (lg_byte_count (record_of C (length es + 1) ?e))) = entries_size (es @ [?e])"
      using h assms(2) by (simp only: unat_sat_add count) (auto simp: min_def)
    moreover have "entries_size (es @ [?e]) \<le> unat (sm_max_bytes (lw_summary w))"
      using h by (auto simp: min_def)
    ultimately show ?thesis
      using h False
      by (simp add: w' writer_holds_def add_dropped_def append_record_def unat_sat_add
          unat_u64_of_len records_of_append log_file_def min_add_min)
  qed
qed

section \<open>A whole run of the writer\<close>

lemma kept_snoc: "kept room ((now, ch) # xs) =
    kept room [(now, ch)] @ kept (room - length (take room (ch_bytes ch))) xs"
  by (simp add: Let_def)

lemma record_all_written:
  assumes "writer_holds C w es" and "sm_max_bytes (lw_summary w) = m" and "unat m < 2 ^ 64 - 1"
    and "record_all C D (map (\<lambda>(now, ch). (Written, now, ch)) xs) w = (w', r)"
  shows "r = Inr () \<and> sm_max_bytes (lw_summary w') = m \<and>
    writer_holds C w' (es @ kept (unat m - entries_size es) xs) \<and>
    unat (sm_dropped_bytes (lw_summary w')) =
      min (unat (sm_dropped_bytes (lw_summary w)) +
        (length (arrived xs) - (unat m - entries_size es))) (2 ^ 64 - 1)"
  using assms
proof (induction xs arbitrary: w es)
  case Nil
  then show ?case using unat_less [of "sm_dropped_bytes (lw_summary w)"] by simp
next
  case (Cons x xs)
  obtain now ch where x: "x = (now, ch)" by (cases x)
  let ?room = "unat m - entries_size es" and ?one = "kept (unat m - entries_size es) [(now, ch)]"
  obtain w1 r1 where step: "record_log C D Written now ch w = (w1, r1)" by (metis surj_pair)
  note one = record_log_written [OF Cons.prems(1) _ step, unfolded Cons.prems(2), OF Cons.prems(3)]
  have rest: "record_all C D (map (\<lambda>(now, ch). (Written, now, ch)) xs) w1 = (w', r)"
    using Cons.prems(4) one by (simp add: x step)
  have size: "entries_size (es @ ?one) = entries_size es + min (length (ch_bytes ch)) ?room"
    using kept_size [of ?room "[(now, ch)]"] by simp
  have room: "unat m - entries_size (es @ ?one) = ?room - length (take ?room (ch_bytes ch))"
    unfolding size by simp
  have "writer_holds C w1 (es @ ?one)" and "sm_max_bytes (lw_summary w1) = m" using one by simp_all
  note ih = Cons.IH [OF this Cons.prems(3) rest, unfolded room]
  have "es @ kept ?room (x # xs) = (es @ ?one) @ kept (?room - length (take ?room (ch_bytes ch))) xs"
    by (simp only: x kept_snoc [of _ _ _ xs] append_assoc)
  moreover have "length (ch_bytes ch) - ?room +
      (length (arrived xs) - (?room - length (take ?room (ch_bytes ch)))) =
      length (arrived (x # xs)) - ?room"
    by (auto simp: x min_def)
  ultimately show ?case
    using ih one by (simp only: min_add_min add.assoc simp_thms)
qed

lemma writer_holds_create:
  "log_writer_create D created m = Inr w \<Longrightarrow>
   writer_holds C w [] \<and> sm_max_bytes (lw_summary w) = m \<and> sm_dropped_bytes (lw_summary w) = 0"
  by (auto simp: log_writer_create_def writer_holds_def log_summary_new_def log_file_def
      records_of_def res_simps)

text \<open>
  C25: the bound on the captured bytes. Whatever chunks arrive, the log file holds one record for
  each captured part, numbered from 1, and together the captured parts are the first
  \<open>max_bytes\<close> bytes that arrived, in order of arrival; the summary counts what was captured and
  what was dropped, and the two add up to all that arrived.
\<close>

theorem log_bound_exact:
  assumes "log_writer_create D created m = Inr w" and "unat m < 2 ^ 64 - 1"
    and "record_all C D (map (\<lambda>(now, ch). (Written, now, ch)) xs) w = (w', r)"
    and "length (arrived xs) < 2 ^ 64"
  shows "r = Inr () \<and>
    (\<exists>es. lw_file w' = log_file C (records_of C es) \<and>
      concat (map entry_bytes es) = take (unat m) (arrived xs) \<and>
      unat (sm_next_cursor (log_snapshot w')) = length es + 1) \<and>
    unat (sm_captured_bytes (log_snapshot w')) = min (length (arrived xs)) (unat m) \<and>
    unat (sm_captured_bytes (log_snapshot w')) + unat (sm_dropped_bytes (log_snapshot w')) =
      length (arrived xs)"
proof -
  note new = writer_holds_create [OF assms(1), of C]
  have "writer_holds C w []" "sm_max_bytes (lw_summary w) = m" using new by simp_all
  note all = record_all_written [OF this assms(2,3)]
  then show ?thesis
    using new assms(4) kept_prefix [of "unat m" xs] kept_size [of "unat m" xs]
    by (auto simp: writer_holds_def log_snapshot_def)
qed

text \<open>A digest that keeps what it is fed, for the concrete runs.\<close>

definition raw_digest :: "bytes digest_lib" where
  "raw_digest = \<lparr>dg_new = [], dg_update = (@), dg_finalize = (\<lambda>bs. bs)\<rparr>"

lemma foldl_append: "foldl (@) bs bss = bs @ concat bss"
  by (induction bss arbitrary: bs) simp_all

lemma raw_digest_documented: "digest_documented raw_digest (\<lambda>bs. bs)"
  by (simp add: digest_documented_def raw_digest_def foldl_append)

theorem log_bound_exact_witness:
  "\<exists>w w'. log_writer_create raw_digest (Inr ()) 3 = Inr w \<and>
     record_all standard_codec raw_digest
       (map (\<lambda>(now, ch). (Written, now, ch))
         [(5, \<lparr>ch_stream = Stdout, ch_bytes = [1, 2]\<rparr>), (6, \<lparr>ch_stream = Stderr, ch_bytes = [3, 4]\<rparr>)]) w =
       (w', Inr ()) \<and>
     unat (sm_captured_bytes (log_snapshot w')) = 3 \<and> unat (sm_dropped_bytes (log_snapshot w')) = 1"
proof -
  let ?xs = "[(5, \<lparr>ch_stream = Stdout, ch_bytes = [1, 2]\<rparr>), (6, \<lparr>ch_stream = Stderr, ch_bytes = [3, 4]\<rparr>)]"
  obtain w where w: "log_writer_create raw_digest (Inr ()) 3 = Inr w"
    by (simp add: log_writer_create_def)
  obtain w' r where run: "record_all standard_codec raw_digest
      (map (\<lambda>(now, ch). (Written, now, ch)) ?xs) w = (w', r)" by (metis surj_pair)
  show ?thesis
    using log_bound_exact [OF w _ run] w run by auto
qed

text \<open>The digests follow the streams, whatever is captured of them.\<close>

definition stream_chunks :: "log_stream \<Rightarrow> log_chunk list \<Rightarrow> bytes list" where
  "stream_chunks s chs = map ch_bytes (filter (\<lambda>ch. ch_stream ch = s) chs)"

lemma add_dropped_frame [simp]:
  "lw_stdout_digest (add_dropped n w) = lw_stdout_digest w"
  "lw_stderr_digest (add_dropped n w) = lw_stderr_digest w"
  "lw_stdout_digest (append_record C r w) = lw_stdout_digest w"
  "lw_stderr_digest (append_record C r w) = lw_stderr_digest w"
  by (simp_all add: add_dropped_def append_record_def)

lemma record_log_digest:
  assumes "record_log C D outcome now ch w = (w', Inr ())"
  shows "lw_stdout_digest w' = foldl (dg_update D) (lw_stdout_digest w) (stream_chunks Stdout [ch])"
    and "lw_stderr_digest w' = foldl (dg_update D) (lw_stderr_digest w) (stream_chunks Stderr [ch])"
proof -
  from assms have "lw_stdout_digest w' = lw_stdout_digest (update_digest D ch w) \<and>
      lw_stderr_digest w' = lw_stderr_digest (update_digest D ch w)"
    by (auto simp: record_log_def Let_def split: if_splits write_outcome.splits)
  then show "lw_stdout_digest w' = foldl (dg_update D) (lw_stdout_digest w) (stream_chunks Stdout [ch])"
    "lw_stderr_digest w' = foldl (dg_update D) (lw_stderr_digest w) (stream_chunks Stderr [ch])"
    by (cases "ch_stream ch"; simp add: update_digest.simps stream_chunks_def)+
qed

lemma record_all_digest:
  assumes "record_all C D xs w = (w', Inr ())"
  shows "lw_stdout_digest w' = foldl (dg_update D) (lw_stdout_digest w)
      (stream_chunks Stdout (map (snd \<circ> snd) xs)) \<and>
    lw_stderr_digest w' = foldl (dg_update D) (lw_stderr_digest w)
      (stream_chunks Stderr (map (snd \<circ> snd) xs))"
  using assms
proof (induction xs arbitrary: w)
  case (Cons x xs)
  obtain outcome now ch where x: "x = (outcome, now, ch)" by (cases x)
  obtain w1 where step: "record_log C D outcome now ch w = (w1, Inr ())"
    and rest: "record_all C D xs w1 = (w', Inr ())"
    using Cons.prems by (auto simp: x split: prod.splits sum.splits)
  show ?case
    using Cons.IH [OF rest] record_log_digest [OF step] by (simp add: x stream_chunks_def)
qed (simp add: stream_chunks_def)

text \<open>
  The digests of a finished log cover the whole of each stream, dropped bytes included, and
  not only what was captured.
\<close>

theorem log_digests_cover_streams:
  assumes "digest_documented D hash" and "log_writer_create D created m = Inr w"
    and "record_all C D xs w = (w', Inr ())" and "log_finish D (Inr ()) w' = Inr sm"
  shows "sm_stdout_sha256 sm =
      Some (encode_lower (hash (concat (stream_chunks Stdout (map (snd \<circ> snd) xs))))) \<and>
    sm_stderr_sha256 sm =
      Some (encode_lower (hash (concat (stream_chunks Stderr (map (snd \<circ> snd) xs)))))"
proof -
  have "lw_stdout_digest w = dg_new D \<and> lw_stderr_digest w = dg_new D"
    using assms(2) by (auto simp: log_writer_create_def res_simps)
  then show ?thesis
    using record_all_digest [OF assms(3)] assms(1,4)
    by (auto simp: log_finish_def digest_documented_def)
qed

theorem log_digests_cover_streams_witness:
  "\<exists>w w' sm. log_writer_create raw_digest (Inr ()) 1 = Inr w \<and>
     record_all standard_codec raw_digest [(Written, 5, \<lparr>ch_stream = Stdout, ch_bytes = [1, 2]\<rparr>)] w =
       (w', Inr ()) \<and>
     log_finish raw_digest (Inr ()) w' = Inr sm \<and> sm_stdout_sha256 sm = Some (encode_lower [1, 2])"
proof -
  obtain w where w: "log_writer_create raw_digest (Inr ()) 1 = Inr w"
    by (simp add: log_writer_create_def)
  obtain w' where run: "record_all standard_codec raw_digest
      [(Written, 5, \<lparr>ch_stream = Stdout, ch_bytes = [1, 2]\<rparr>)] w = (w', Inr ())"
    by (simp add: record_log_done Let_def)
  obtain sm where fin: "log_finish raw_digest (Inr ()) w' = Inr sm" by (simp add: log_finish_def)
  show ?thesis
    using log_digests_cover_streams [OF raw_digest_documented w run fin] w run fin
    by (auto simp: stream_chunks_def)
qed

text \<open>A writer that captures two bytes, for the examples of the readers.\<close>

definition two_bytes :: "(u64 \<times> log_chunk) list" where
  "two_bytes = [(5, \<lparr>ch_stream = Stdout, ch_bytes = [1, 2]\<rparr>)]"

lemma two_bytes_run:
  obtains w w' where "log_writer_create raw_digest (Inr ()) 3 = Inr w"
    "record_all standard_codec raw_digest (map (\<lambda>(now, ch). (Written, now, ch)) two_bytes) w = (w', Inr ())"
proof -
  obtain w where "log_writer_create raw_digest (Inr ()) 3 = Inr w" by (simp add: log_writer_create_def)
  moreover have "\<exists>w'. record_all standard_codec raw_digest
      (map (\<lambda>(now, ch). (Written, now, ch)) two_bytes) w = (w', Inr ())"
    by (simp add: record_log_done Let_def two_bytes_def)
  ultimately show thesis using that by blast
qed

lemma two_bytes_small: "\<forall>(now, ch)\<in>set two_bytes. length (ch_bytes ch) \<le> read_chunk_bytes"
  by (simp add: two_bytes_def read_chunk_bytes_def)

end
