(* ===== verification/Log_Reader.thy ===== *)
theory Log_Reader
  imports Log_Writer
begin

text \<open>
  The reading half of \<^verbatim>\<open>src/logs.rs\<close>: \<open>read_logs\<close> with the checks of every line. The results of
  opening the file and of checking that it is regular are arguments; a reader is the content it
  delivers with the error, if any, it fails with afterwards.

  The lemmas show what a page is on the file of a writer: a terminal run gives back exactly the
  records of the captured bytes, pages chained by their cursors give each record once, and a
  reader of a live run stops at the durable boundary, however much more has been flushed.
\<close>

definition max_record_line_bytes :: nat where
  "max_record_line_bytes = 32 * 1024"

record log_input =
  li_content :: bytes
  li_fault :: "io_error option"

text \<open>\<open>read_until\<close> a newline: the line with its newline, and the rest.\<close>

definition read_until :: "io_error option \<Rightarrow> bytes \<Rightarrow> io_error + bytes \<times> bytes" where
  "read_until fault bs =
     (case dropWhile (\<lambda>b. b \<noteq> 10) bs of
        [] \<Rightarrow> (case fault of Some e \<Rightarrow> Inl e | None \<Rightarrow> Inr (bs, []))
      | b # rest \<Rightarrow> Inr (takeWhile (\<lambda>b. b \<noteq> 10) bs @ [b], rest))"

fun decode_record :: "log_codec \<Rightarrow> log_record \<Rightarrow> app_error + bytes" where
  "decode_record C r =
     (case lg_encoding r of
        Base64 \<Rightarrow> map_err (\<lambda>text. integrity (''log cursor '' @ show_word (lg_cursor r) @
          '' contains invalid base64: '' @ text)) (b64_decode C (lg_data r)))"

declare decode_record.simps [simp del]

text \<open>
  One line of the file: the record it holds, an error, or nothing when a live reader stops at
  an incomplete line or at the durable boundary.
\<close>

definition check_record ::
  "log_codec \<Rightarrow> run_state \<Rightarrow> u64 \<Rightarrow> log_record \<Rightarrow> app_error + log_record option" where
  "check_record C st previous r =
     (if lg_schema_version r \<noteq> log_record_schema_version
      then Inl (integrity (''unsupported log schema '' @ lg_schema_version r))
      else if lg_cursor r = 0 \<or> lg_cursor r \<le> previous
      then Inl (integrity (''log cursor '' @ show_word (lg_cursor r) @ '' is not strictly monotonic''))
      else if sm_next_cursor (rs_logs st) \<le> lg_cursor r
      then (if \<not> is_terminal (rs_status st) then Inr None
            else Inl (integrity (''log cursor '' @ show_word (lg_cursor r) @
              '' is outside the durable summary'')))
      else bindE (decode_record C r) (\<lambda>decoded.
        if lg_byte_count r = 0 \<or> u64_of_len (length decoded) \<noteq> lg_byte_count r
        then Inl (integrity (''log cursor '' @ show_word (lg_cursor r) @
          '' byte count does not match its decoded data''))
        else Inr (Some r)))"

definition check_line ::
  "log_codec \<Rightarrow> run_state \<Rightarrow> u64 \<Rightarrow> bytes \<Rightarrow> app_error + log_record option" where
  "check_line C st previous line =
     (if max_record_line_bytes < length line
      then Inl (integrity (''log record exceeds '' @ show_nat max_record_line_bytes @ '' bytes''))
      else if \<not> suffix [10] line
      then (if is_terminal (rs_status st)
            then Inl (integrity ''terminal run contains an incomplete log record'') else Inr None)
      else bindE (map_err (\<lambda>text. integrity (''invalid log record: '' @ text)) (json_read C line))
        (check_record C st previous))"

definition selected :: "u64 \<Rightarrow> log_stream option \<Rightarrow> log_record \<Rightarrow> bool" where
  "selected after_cursor stream r \<longleftrightarrow>
     \<not> (lg_cursor r \<le> after_cursor \<or>
        (case stream of None \<Rightarrow> False | Some s \<Rightarrow> s \<noteq> lg_stream r))"

lemma read_until_shorter:
  assumes "read_until fault bs = Inr (line, rest)" and "line \<noteq> []"
  shows "length rest < length bs"
proof (cases "dropWhile (\<lambda>b. b \<noteq> 10) bs")
  case Nil
  then have "line = bs \<and> rest = []"
    using assms(1) unfolding read_until_def Nil by (auto split: option.splits)
  then show ?thesis using assms(2) by simp
next
  case (Cons b rest')
  then have "length (b # rest) \<le> length bs"
    using assms(1) length_dropWhile_le [of "\<lambda>b. b \<noteq> 10" bs] by (simp add: read_until_def)
  then show ?thesis by simp
qed

function read_loop ::
  "log_codec \<Rightarrow> run_state \<Rightarrow> u64 \<Rightarrow> nat \<Rightarrow> log_stream option \<Rightarrow> io_error option \<Rightarrow>
   u64 \<Rightarrow> log_record list \<Rightarrow> bytes \<Rightarrow> app_error + log_record list \<times> bool" where
  "read_loop C st after_cursor limit stream fault previous records bs =
     bindE (map_err from_io (read_until fault bs)) (\<lambda>(line, rest).
       if line = [] then Inr (records, False)
       else bindE (check_line C st previous line) (\<lambda>checked.
         case checked of
           None \<Rightarrow> Inr (records, False)
         | Some r \<Rightarrow>
             if \<not> selected after_cursor stream r
             then read_loop C st after_cursor limit stream fault (lg_cursor r) records rest
             else if length records = limit then Inr (records, True)
             else read_loop C st after_cursor limit stream fault (lg_cursor r) (records @ [r]) rest))"
  by pat_completeness auto

termination
  by (relation "measure (\<lambda>(C, st, after_cursor, limit, stream, fault, previous, records, bs). length bs)")
    (auto simp: res_simps intro: read_until_shorter)

declare read_loop.simps [simp del]

definition read_logs ::
  "log_codec \<Rightarrow> io_error + log_input \<Rightarrow> app_error + unit \<Rightarrow> run_state \<Rightarrow> u64 \<Rightarrow> nat \<Rightarrow>
   log_stream option \<Rightarrow> app_error + logs_result" where
  "read_logs C opened regular st after_cursor limit stream =
     (if limit = 0 \<or> limit > 1000 then Inl (usage ''log limit must be between 1 and 1000'')
      else
        bindE
          (case opened of
             Inr input \<Rightarrow> bindE regular (\<lambda>_.
               read_loop C st after_cursor limit stream (li_fault input) 0 [] (li_content input))
           | Inl e \<Rightarrow>
               if io_kind e = NotFound \<and> (rs_status st = Created \<or> rs_status st = Starting)
               then Inr ([], False)
               else Inl (from_io e))
          (\<lambda>(records, has_more). Inr
             \<lparr>lo_schema_version = ''procherd.logs.v1'', lo_run_id = rs_run_id st,
              lo_after_cursor = after_cursor, lo_records = records,
              lo_next_after_cursor =
                (if records = [] then after_cursor else lg_cursor (List.last records)),
              lo_has_more = has_more,
              lo_captured_bytes = sm_captured_bytes (rs_logs st),
              lo_dropped_bytes = sm_dropped_bytes (rs_logs st),
              lo_terminal = is_terminal (rs_status st)\<rparr>))"

section \<open>Lines of the writer\<close>

definition record_ok :: "log_codec \<Rightarrow> log_record \<Rightarrow> bool" where
  "record_ok C r \<longleftrightarrow>
     (\<exists>now cursor stream bs. r = record_for C now cursor stream bs \<and> bs \<noteq> [] \<and>
       length bs \<le> read_chunk_bytes)"

lemma documented_line:
  assumes "log_codec_documented C" and "record_ok C r"
  shows "10 \<notin> set (json_write C r)" "json_read C (log_line C r) = Inr r"
    "length (log_line C r) \<le> max_record_line_bytes" "lg_schema_version r = log_record_schema_version"
    "\<exists>bs. decode_record C r = Inr bs \<and> bs \<noteq> [] \<and> u64_of_len (length bs) = lg_byte_count r"
    "lg_byte_count r \<noteq> 0"
proof -
  obtain now cursor stream bs where r: "r = record_for C now cursor stream bs" "bs \<noteq> []"
    "length bs \<le> read_chunk_bytes" using assms(2) by (auto simp: record_ok_def)
  have b64: "b64_decode C (b64_encode C bs) = Inr bs" "b64_text (b64_encode C bs)"
    "length (b64_encode C bs) = 4 * ((length bs + 2) div 3)"
    using assms(1) by (simp_all add: log_codec_documented_def)
  have json: "json_read C (json_write C r @ [10]) = Inr r" "10 \<notin> set (json_write C r)"
    "length (json_write C r) < length (b64_encode C bs) + 512"
    using assms(1) [unfolded log_codec_documented_def, THEN conjunct2, rule_format, of r] b64(2)
    by (simp_all add: r(1) record_for_def)
  then show "10 \<notin> set (json_write C r)" "json_read C (log_line C r) = Inr r"
    "lg_schema_version r = log_record_schema_version"
    by (simp_all add: log_line_def r(1) record_for_def)
  have "4 * ((length bs + 2) div 3) \<le> 4 * (8194 div 3)"
    using r(3) by (intro mult_le_mono2 div_le_mono) (simp add: read_chunk_bytes_def)
  then show "length (log_line C r) \<le> max_record_line_bytes"
    using json(3) b64(3) by (simp add: log_line_def max_record_line_bytes_def)
  show "\<exists>bs. decode_record C r = Inr bs \<and> bs \<noteq> [] \<and> u64_of_len (length bs) = lg_byte_count r"
    using b64(1) r(2) by (auto simp: r(1) record_for_def decode_record.simps)
  have "unat (lg_byte_count r) = min (length bs) (2 ^ 64 - 1)"
    by (simp add: r(1) record_for_def unat_u64_of_len)
  then show "lg_byte_count r \<noteq> 0" using r(2) by (auto simp: min_def split: if_splits)
qed

lemma read_until_line:
  "10 \<notin> set (json_write C r) \<Longrightarrow>
   read_until fault (log_line C r @ rest) = Inr (log_line C r, rest)"
proof -
  assume no: "10 \<notin> set (json_write C r)"
  have "takeWhile (\<lambda>b. b \<noteq> 10) (json_write C r @ 10 # rest) = json_write C r"
    "dropWhile (\<lambda>b. b \<noteq> 10) (json_write C r @ 10 # rest) = 10 # rest"
    using no by (induction "json_write C r") (auto simp: takeWhile_append dropWhile_append)
  then show ?thesis by (simp add: read_until_def log_line_def)
qed

lemma check_line_committed:
  assumes "log_codec_documented C" and "record_ok C r" and "previous < lg_cursor r"
  shows "check_line C st previous (log_line C r) =
    (if lg_cursor r < sm_next_cursor (rs_logs st) then Inr (Some r)
     else if is_terminal (rs_status st)
     then Inl (integrity (''log cursor '' @ show_word (lg_cursor r) @ '' is outside the durable summary''))
     else Inr None)"
proof -
  note line = documented_line [OF assms(1,2)]
  obtain bs where "decode_record C r = Inr bs" "u64_of_len (length bs) = lg_byte_count r"
    using line(5) by blast
  moreover have "lg_cursor r \<noteq> 0" using assms(3) by auto
  moreover have "suffix [10] (log_line C r)" by (simp add: log_line_def suffix_def)
  ultimately show ?thesis
    using line(2,3,4,6) assms(3) by (auto simp: check_line_def check_record_def not_less not_le)
qed

text \<open>Records whose cursors ascend, from above \<open>previous\<close>.\<close>

fun ascending :: "u64 \<Rightarrow> log_record list \<Rightarrow> bool" where
  "ascending previous [] \<longleftrightarrow> True"
| "ascending previous (r # rs) \<longleftrightarrow> previous < lg_cursor r \<and> ascending (lg_cursor r) rs"

fun last_cursor :: "u64 \<Rightarrow> log_record list \<Rightarrow> u64" where
  "last_cursor previous [] = previous"
| "last_cursor previous (r # rs) = last_cursor (lg_cursor r) rs"

lemma log_line_nonempty [simp]: "log_line C r \<noteq> []"
  by (simp add: log_line_def)

text \<open>The loop over a file that starts with committed records.\<close>

lemma read_loop_committed:
  assumes "log_codec_documented C" and "\<forall>r\<in>set rs. record_ok C r" and "ascending previous rs"
    and "\<forall>r\<in>set rs. lg_cursor r < sm_next_cursor (rs_logs st)" and "length records \<le> limit"
  shows "read_loop C st after_cursor limit stream fault previous records (log_file C rs @ tail) =
    (let sel = filter (selected after_cursor stream) rs in
     if limit < length records + length sel then Inr (take limit (records @ sel), True)
     else read_loop C st after_cursor limit stream fault (last_cursor previous rs) (records @ sel) tail)"
  using assms(2-5)
proof (induction rs arbitrary: previous records)
  case Nil
  then show ?case by (simp add: log_file_def)
next
  case (Cons r rs)
  have ok: "record_ok C r" and up: "previous < lg_cursor r"
    and low: "lg_cursor r < sm_next_cursor (rs_logs st)" using Cons.prems by simp_all
  have line: "check_line C st previous (log_line C r) = Inr (Some r)"
    by (simp add: check_line_committed [OF assms(1) ok up] low)
  have content: "log_file C (r # rs) @ tail = log_line C r @ (log_file C rs @ tail)"
    by (simp add: log_file_def)
  have "read_loop C st after_cursor limit stream fault previous records (log_file C (r # rs) @ tail) =
      (if \<not> selected after_cursor stream r
       then read_loop C st after_cursor limit stream fault (lg_cursor r) records (log_file C rs @ tail)
       else if length records = limit then Inr (records, True)
       else read_loop C st after_cursor limit stream fault (lg_cursor r) (records @ [r])
         (log_file C rs @ tail))"
    unfolding content
    by (subst read_loop.simps) (simp add: read_until_line documented_line [OF assms(1) ok] line)
  then show ?case
    using Cons.IH [of "lg_cursor r" records] Cons.IH [of "lg_cursor r" "records @ [r]"] Cons.prems
    by (auto simp: Let_def)
qed

lemma read_loop_end: "read_loop C st after_cursor limit stream None previous records [] = Inr (records, False)"
  by (subst read_loop.simps) (simp add: read_until_def)

section \<open>Pages\<close>

text \<open>The page a reader should give of a list of records.\<close>

definition log_page ::
  "run_state \<Rightarrow> u64 \<Rightarrow> nat \<Rightarrow> log_stream option \<Rightarrow> log_record list \<Rightarrow> logs_result" where
  "log_page st after_cursor limit stream rs =
     (let sel = filter (selected after_cursor stream) rs; page = take limit sel in
      \<lparr>lo_schema_version = ''procherd.logs.v1'', lo_run_id = rs_run_id st,
       lo_after_cursor = after_cursor, lo_records = page,
       lo_next_after_cursor = (if page = [] then after_cursor else lg_cursor (List.last page)),
       lo_has_more = (limit < length sel),
       lo_captured_bytes = sm_captured_bytes (rs_logs st),
       lo_dropped_bytes = sm_dropped_bytes (rs_logs st),
       lo_terminal = is_terminal (rs_status st)\<rparr>)"

lemma read_logs_committed:
  assumes "log_codec_documented C" and "\<forall>r\<in>set rs. record_ok C r" and "ascending 0 rs"
    and "\<forall>r\<in>set rs. lg_cursor r < sm_next_cursor (rs_logs st)" and "0 < limit" and "limit \<le> 1000"
    and stop: "\<And>records. read_loop C st after_cursor limit stream None (last_cursor 0 rs) records tail =
      Inr (records, False)"
  shows "read_logs C (Inr \<lparr>li_content = log_file C rs @ tail, li_fault = None\<rparr>) (Inr ())
      st after_cursor limit stream = Inr (log_page st after_cursor limit stream rs)"
  using assms(5,6)
  by (simp add: read_logs_def log_page_def Let_def stop
      read_loop_committed [OF assms(1-4), of "[]" limit after_cursor stream None tail])

lemma record_of_cursor: "i < 2 ^ 64 \<Longrightarrow> unat (lg_cursor (record_of C i e)) = i"
  by (simp add: record_of_def record_for_def unat_of_nat)

lemma ascending_enumerate:
  "k + length es \<le> 2 ^ 64 \<Longrightarrow> unat previous < k \<Longrightarrow>
   ascending previous (map (\<lambda>(i, e). record_of C i e) (enumerate k es))"
proof (induction es arbitrary: k previous)
  case (Cons e es)
  then have "unat (lg_cursor (record_of C k e)) = k" by (intro record_of_cursor) simp
  then show ?case
    using Cons.IH [of "Suc k" "lg_cursor (record_of C k e)"] Cons.prems
    by (simp add: word_less_nat_alt)
qed simp

text \<open>The records of a list of entries are what the reader expects.\<close>

definition log_entries_ok :: "log_entry list \<Rightarrow> bool" where
  "log_entries_ok es \<longleftrightarrow> (\<forall>e\<in>set es. entry_bytes e \<noteq> [] \<and> length (entry_bytes e) \<le> read_chunk_bytes)"

lemma set_records_of:
  assumes "r \<in> set (records_of C es)"
  obtains i e where "1 \<le> i" "i \<le> length es" "e \<in> set es" "r = record_of C i e"
proof -
  from assms obtain p where p: "p \<in> set (enumerate 1 es)" "r = record_of C (fst p) (snd p)"
    by (auto simp: records_of_def)
  then have "1 \<le> fst p" "fst p - 1 < length es" "snd p = es ! (fst p - 1)"
    by (auto simp: in_set_enumerate_eq)
  with that [of "fst p" "snd p"] p(2) show thesis by (metis Suc_pred' less_eq_Suc_le nth_mem One_nat_def)
qed

lemma records_of_ok:
  assumes "log_entries_ok es" and "length es < 2 ^ 64 - 1"
  shows "\<forall>r\<in>set (records_of C es). record_ok C r" and "ascending 0 (records_of C es)"
    and "\<forall>r\<in>set (records_of C es). unat (lg_cursor r) \<le> length es"
proof -
  show "\<forall>r\<in>set (records_of C es). record_ok C r"
  proof
    fix r assume "r \<in> set (records_of C es)"
    then obtain i e where "e \<in> set es" and r: "r = record_of C i e" by (rule set_records_of)
    then have "entry_bytes e \<noteq> [] \<and> length (entry_bytes e) \<le> read_chunk_bytes"
      using assms(1) by (auto simp: log_entries_ok_def)
    then show "record_ok C r" unfolding r record_ok_def record_of_def by blast
  qed
  show "ascending 0 (records_of C es)"
    unfolding records_of_def using assms(2) by (intro ascending_enumerate) simp_all
  show "\<forall>r\<in>set (records_of C es). unat (lg_cursor r) \<le> length es"
    using assms(2) by (auto elim!: set_records_of simp: record_of_cursor)
qed

lemma kept_ok:
  "\<forall>(now, ch)\<in>set xs. length (ch_bytes ch) \<le> read_chunk_bytes \<Longrightarrow> log_entries_ok (kept room xs)"
  by (induction room xs rule: kept.induct) (auto simp: log_entries_ok_def Let_def split: if_splits)

lemma record_of_decode:
  "log_codec_documented C \<Longrightarrow> decode_record C (record_of C i e) = Inr (entry_bytes e)"
  by (simp add: record_of_def record_for_def decode_record.simps log_codec_documented_def)

lemma records_of_decode:
  "log_codec_documented C \<Longrightarrow> map (decode_record C) (records_of C es) = map (Inr \<circ> entry_bytes) es"
  by (rule nth_equalityI) (simp_all add: records_of_def record_of_decode nth_enumerate_eq)

text \<open>The file of a writer, and the bound on its number of records.\<close>

lemma writer_file:
  assumes "log_writer_create D created m = Inr w" and "unat m < 2 ^ 64 - 1"
    and "record_all C D (map (\<lambda>(now, ch). (Written, now, ch)) xs) w = (w', r)"
  shows "lw_file w' = log_file C (records_of C (kept (unat m) xs))"
    and "unat (sm_next_cursor (log_snapshot w')) = length (kept (unat m) xs) + 1"
    and "length (kept (unat m) xs) < 2 ^ 64 - 1"
proof -
  note new = writer_holds_create [OF assms(1), of C]
  have "writer_holds C w []" "sm_max_bytes (lw_summary w) = m" using new by simp_all
  note all = record_all_written [OF this assms(2,3)]
  then show "lw_file w' = log_file C (records_of C (kept (unat m) xs))"
    "unat (sm_next_cursor (log_snapshot w')) = length (kept (unat m) xs) + 1"
    by (simp_all add: writer_holds_def log_snapshot_def)
  have "length (kept (unat m) xs) \<le> entries_size (kept (unat m) xs)"
    by (rule length_le_size) (blast dest: kept_nonempty)
  then show "length (kept (unat m) xs) < 2 ^ 64 - 1" using assms(2) by (simp add: kept_size)
qed

text \<open>
  C5: what the writer captured, the reader gives back. For a finished run the page after any
  cursor holds the records of the captured parts beyond it, of the chosen stream, up to the
  limit, says whether more remain, and each record decodes to the captured bytes; no record of
  the writer is ever rejected (in particular no line is too long).
\<close>

theorem logs_roundtrip:
  assumes "log_codec_documented C" and "log_writer_create D created m = Inr w"
    and "unat m < 2 ^ 64 - 1" and "\<forall>(now, ch)\<in>set xs. length (ch_bytes ch) \<le> read_chunk_bytes"
    and "record_all C D (map (\<lambda>(now, ch). (Written, now, ch)) xs) w = (w', r)"
    and "sm_next_cursor (rs_logs st) = sm_next_cursor (log_snapshot w')"
    and "0 < limit" and "limit \<le> 1000"
  shows "\<exists>es. concat (map entry_bytes es) = take (unat m) (arrived xs) \<and>
    read_logs C (Inr \<lparr>li_content = lw_file w', li_fault = None\<rparr>) (Inr ()) st after_cursor limit stream =
      Inr (log_page st after_cursor limit stream (records_of C es)) \<and>
    map (decode_record C) (records_of C es) = map (Inr \<circ> entry_bytes) es"
proof (intro exI conjI)
  let ?es = "kept (unat m) xs"
  note wf = writer_file [OF assms(2,3,5)]
  note ok = records_of_ok [OF kept_ok [OF assms(4)] wf(3), of C]
  show "concat (map entry_bytes ?es) = take (unat m) (arrived xs)" by (rule kept_prefix)
  have "\<forall>r\<in>set (records_of C ?es). lg_cursor r < sm_next_cursor (rs_logs st)"
    using ok(3) wf(2) by (auto simp: assms(6) word_less_nat_alt)
  from read_logs_committed [OF assms(1) ok(1,2) this assms(7,8) read_loop_end]
  show "read_logs C (Inr \<lparr>li_content = lw_file w', li_fault = None\<rparr>) (Inr ()) st after_cursor limit
      stream = Inr (log_page st after_cursor limit stream (records_of C ?es))"
    by (simp add: wf(1))
  show "map (decode_record C) (records_of C ?es) = map (Inr \<circ> entry_bytes) ?es"
    by (rule records_of_decode [OF assms(1)])
qed

theorem logs_roundtrip_witness:
  "\<exists>w w' es. log_writer_create raw_digest (Inr ()) 3 = Inr w \<and>
     record_all standard_codec raw_digest (map (\<lambda>(now, ch). (Written, now, ch)) two_bytes) w =
       (w', Inr ()) \<and>
     concat (map entry_bytes es) = [1, 2] \<and>
     read_logs standard_codec (Inr \<lparr>li_content = lw_file w', li_fault = None\<rparr>) (Inr ())
       (example_state Exited (log_snapshot w')) 0 10 None =
       Inr (log_page (example_state Exited (log_snapshot w')) 0 10 None (records_of standard_codec es))"
proof -
  obtain w w' where w: "log_writer_create raw_digest (Inr ()) 3 = Inr w"
    "record_all standard_codec raw_digest (map (\<lambda>(now, ch). (Written, now, ch)) two_bytes) w = (w', Inr ())"
    by (rule two_bytes_run)
  have "take (unat (3 :: u64)) (arrived two_bytes) = [1, 2]" by (simp add: two_bytes_def)
  then show ?thesis
    using logs_roundtrip [OF standard_codec_documented w(1) _ two_bytes_small w(2),
        of "example_state Exited (log_snapshot w')" 10 0 None] w
    by auto
qed

section \<open>Chained pages\<close>

text \<open>
  A client that follows \<open>next_after_cursor\<close> while a page says that more remain; \<open>fuel\<close> bounds
  the number of pages.
\<close>

fun read_pages :: "(u64 \<Rightarrow> app_error + logs_result) \<Rightarrow> nat \<Rightarrow> u64 \<Rightarrow> log_record list option" where
  "read_pages read 0 after_cursor = None"
| "read_pages read (Suc fuel) after_cursor =
     (case read after_cursor of
        Inl e \<Rightarrow> None
      | Inr p \<Rightarrow>
          if lo_has_more p
          then map_option ((@) (lo_records p)) (read_pages read fuel (lo_next_after_cursor p))
          else Some (lo_records p))"

lemma ascending_sorted:
  "ascending previous rs \<Longrightarrow>
   sorted_wrt (\<lambda>r s. lg_cursor r < lg_cursor s) rs \<and> (\<forall>r\<in>set rs. previous < lg_cursor r)"
  by (induction rs arbitrary: previous) (auto intro: less_trans)

text \<open>What is selected after the last record of a page is what the page left out.\<close>

lemma selected_drop:
  assumes "sorted_wrt (\<lambda>r s. lg_cursor r < lg_cursor s) rs" and "0 < n"
    and "n \<le> length (filter (selected a stream) rs)"
  shows "filter (selected (lg_cursor (List.last (take n (filter (selected a stream) rs)))) stream) rs =
    drop n (filter (selected a stream) rs)"
proof -
  let ?sel = "filter (selected a stream) rs"
  obtain m where n: "n = Suc m" using assms(2) by (cases n) auto
  let ?c = "lg_cursor (?sel ! m)"
  have at: "lg_cursor (List.last (take n ?sel)) = ?c"
    using assms(3) by (simp add: n take_Suc_conv_app_nth)
  have sorted: "sorted_wrt (\<lambda>r s. lg_cursor r < lg_cursor s) ?sel"
    by (rule sorted_wrt_filter [OF assms(1)])
  have low: "\<not> ?c < lg_cursor (?sel ! i)" if "i < n" for i
    using sorted_wrt_nth_less [OF sorted, of i m] assms(3) that
    by (cases "i = m") (auto simp: n)
  have high: "?c < lg_cursor (?sel ! i)" if "n \<le> i" "i < length ?sel" for i
    using sorted_wrt_nth_less [OF sorted, of m i] that by (simp add: n)
  have "selected a stream (?sel ! m)" using assms(3) n nth_mem [of m ?sel] by auto
  then have "a < ?c" by (simp add: selected_def not_le)
  then have "filter (selected ?c stream) rs = filter (\<lambda>r. ?c < lg_cursor r) ?sel"
    by (auto simp: selected_def not_le intro!: filter_cong)
  also have "\<dots> = filter (\<lambda>r. ?c < lg_cursor r) (take n ?sel @ drop n ?sel)" by simp
  also have "\<dots> = drop n ?sel"
  proof -
    have "filter (\<lambda>r. ?c < lg_cursor r) (take n ?sel) = []"
      using low by (auto simp: filter_empty_conv in_set_conv_nth)
    moreover have "filter (\<lambda>r. ?c < lg_cursor r) (drop n ?sel) = drop n ?sel"
      using high by (auto simp: filter_id_conv in_set_conv_nth)
    ultimately show ?thesis by (simp only: filter_append append_Nil)
  qed
  finally show ?thesis by (simp add: at)
qed

lemma read_pages_all:
  assumes "ascending 0 rs" and "0 < limit"
    and "length (filter (selected a stream) rs) < fuel"
  shows "read_pages (\<lambda>a. Inr (log_page st a limit stream rs)) fuel a = Some (filter (selected a stream) rs)"
  using assms(3)
proof (induction fuel arbitrary: a)
  case (Suc fuel)
  let ?sel = "filter (selected a stream) rs"
  show ?case
  proof (cases "limit < length ?sel")
    case True
    let ?c = "lg_cursor (List.last (take limit ?sel))"
    have rest: "filter (selected ?c stream) rs = drop limit ?sel"
      using selected_drop ascending_sorted [OF assms(1)] assms(2) True by simp
    have "length (filter (selected ?c stream) rs) < fuel"
      unfolding rest using Suc.prems True assms(2) by simp
    note ih = Suc.IH [OF this, unfolded rest]
    have "take limit ?sel \<noteq> []" using True assms(2) by auto
    then show ?thesis
      using ih True by (simp add: log_page_def Let_def)
  next
    case False
    then show ?thesis by (simp add: log_page_def Let_def)
  qed
qed simp

text \<open>
  C24: paging is complete. A client that starts at cursor 0 and follows the cursors of the pages
  reads, in as many pages as there are records at most, every captured record of the chosen
  stream exactly once and in order, whatever the page size.
\<close>

theorem paging_complete:
  assumes "log_codec_documented C" and "log_writer_create D created m = Inr w"
    and "unat m < 2 ^ 64 - 1" and "\<forall>(now, ch)\<in>set xs. length (ch_bytes ch) \<le> read_chunk_bytes"
    and "record_all C D (map (\<lambda>(now, ch). (Written, now, ch)) xs) w = (w', r)"
    and "sm_next_cursor (rs_logs st) = sm_next_cursor (log_snapshot w')"
    and "0 < limit" and "limit \<le> 1000"
  shows "\<exists>es. concat (map entry_bytes es) = take (unat m) (arrived xs) \<and>
    read_pages (\<lambda>after_cursor. read_logs C (Inr \<lparr>li_content = lw_file w', li_fault = None\<rparr>) (Inr ()) st
        after_cursor limit stream) (length es + 1) 0 =
      Some (filter (\<lambda>r. \<forall>s. stream = Some s \<longrightarrow> lg_stream r = s) (records_of C es))"
proof (intro exI conjI)
  let ?es = "kept (unat m) xs"
  note wf = writer_file [OF assms(2,3,5)]
  note ok = records_of_ok [OF kept_ok [OF assms(4)] wf(3), of C]
  show "concat (map entry_bytes ?es) = take (unat m) (arrived xs)" by (rule kept_prefix)
  have low: "\<forall>r\<in>set (records_of C ?es). lg_cursor r < sm_next_cursor (rs_logs st)"
    using ok(3) wf(2) by (auto simp: assms(6) word_less_nat_alt)
  have page: "read_logs C (Inr \<lparr>li_content = lw_file w', li_fault = None\<rparr>) (Inr ()) st a limit stream =
      Inr (log_page st a limit stream (records_of C ?es))" for a
    using read_logs_committed [OF assms(1) ok(1,2) low assms(7,8) read_loop_end] by (simp add: wf(1))
  have "length (filter (selected 0 stream) (records_of C ?es)) < length ?es + 1"
    by (metis length_filter_le length_records_of less_add_one order_le_less_trans)
  note all = read_pages_all [OF ok(2) assms(7) this]
  have "filter (selected 0 stream) (records_of C ?es) =
      filter (\<lambda>r. \<forall>s. stream = Some s \<longrightarrow> lg_stream r = s) (records_of C ?es)"
    using ascending_sorted [OF ok(2)] by (intro filter_cong) (auto simp: selected_def split: option.split)
  then show "read_pages (\<lambda>a. read_logs C (Inr \<lparr>li_content = lw_file w', li_fault = None\<rparr>) (Inr ()) st
        a limit stream) (length ?es + 1) 0 =
      Some (filter (\<lambda>r. \<forall>s. stream = Some s \<longrightarrow> lg_stream r = s) (records_of C ?es))"
    unfolding page all by simp
qed

theorem paging_complete_witness:
  "\<exists>w w' es. log_writer_create raw_digest (Inr ()) 3 = Inr w \<and>
     record_all standard_codec raw_digest (map (\<lambda>(now, ch). (Written, now, ch)) two_bytes) w =
       (w', Inr ()) \<and>
     concat (map entry_bytes es) = [1, 2] \<and>
     read_pages (\<lambda>after_cursor. read_logs standard_codec
         (Inr \<lparr>li_content = lw_file w', li_fault = None\<rparr>) (Inr ())
         (example_state Exited (log_snapshot w')) after_cursor 1 None) (length es + 1) 0 =
       Some (records_of standard_codec es)"
proof -
  obtain w w' where w: "log_writer_create raw_digest (Inr ()) 3 = Inr w"
    "record_all standard_codec raw_digest (map (\<lambda>(now, ch). (Written, now, ch)) two_bytes) w = (w', Inr ())"
    by (rule two_bytes_run)
  have "take (unat (3 :: u64)) (arrived two_bytes) = [1, 2]" by (simp add: two_bytes_def)
  then show ?thesis
    using paging_complete [OF standard_codec_documented w(1) _ two_bytes_small w(2),
        of "example_state Exited (log_snapshot w')" 1 None] w
    by auto
qed

end
