(* ===== verification/Log_Live.thy ===== *)
theory Log_Live
  imports Log_Reader
begin

text \<open>
  Reading the log of a run that is still being written, and what a page of any file at all
  guarantees. A live reader has an older summary than the file: more records may follow, and the
  last line may be cut anywhere.
\<close>

section \<open>The durable boundary\<close>

lemma read_until_partial:
  assumes "n < length (log_line C r)" and "10 \<notin> set (json_write C r)"
  shows "read_until None (take n (log_line C r)) = Inr (take n (log_line C r), [])"
    and "\<not> suffix [10] (take n (log_line C r))"
proof -
  have "take n (log_line C r) = take n (json_write C r)"
    using assms(1) by (simp add: log_line_def)
  then have no: "10 \<notin> set (take n (log_line C r))" using assms(2) by (metis in_set_takeD)
  then have "dropWhile (\<lambda>b. b \<noteq> 10) (take n (log_line C r)) = []" by auto
  then show "read_until None (take n (log_line C r)) = Inr (take n (log_line C r), [])"
    unfolding read_until_def by (simp only: list.case option.case)
  show "\<not> suffix [10] (take n (log_line C r))"
    using no by (auto simp: suffix_def)
qed

text \<open>A live reader stops before the records it does not know and before a cut line.\<close>

lemma read_loop_live_stop:
  assumes "log_codec_documented C" and "\<not> is_terminal (rs_status st)"
    and "\<forall>r\<in>set rs. record_ok C r" and "ascending previous rs"
    and "\<forall>r\<in>set rs. sm_next_cursor (rs_logs st) \<le> lg_cursor r"
    and "record_ok C nxt" and "n < length (log_line C nxt)"
  shows "read_loop C st a limit stream None previous records (log_file C rs @ take n (log_line C nxt)) =
    Inr (records, False)"
proof (cases rs)
  case Nil
  note nl = documented_line [OF assms(1,6)]
  note part = read_until_partial [OF assms(7) nl(1)]
  have "\<not> max_record_line_bytes < length (take n (log_line C nxt))" using nl(3) by simp
  then have "check_line C st previous (take n (log_line C nxt)) = Inr None"
    using part(2) assms(2) unfolding check_line_def by (simp only: if_False if_True not_False_eq_True)
  then show ?thesis
    unfolding Nil by (subst read_loop.simps) (simp add: log_file_def part(1))
next
  case (Cons r rs')
  have ok: "record_ok C r" "previous < lg_cursor r" "\<not> lg_cursor r < sm_next_cursor (rs_logs st)"
    using assms(3-5) by (auto simp: Cons)
  have "check_line C st previous (log_line C r) = Inr None"
    using assms(2) ok(3) by (simp add: check_line_committed [OF assms(1) ok(1,2)])
  then show ?thesis
    unfolding Cons
    by (subst read_loop.simps) (simp add: log_file_def read_until_line documented_line [OF assms(1) ok(1)])
qed

lemma kept_append:
  "kept room (xs @ ys) = kept room xs @ kept (room - entries_size (kept room xs)) ys"
  by (induction room xs rule: kept.induct) (auto simp: Let_def)

lemma records_of_split:
  "records_of C (es @ es') = records_of C es @ map (\<lambda>(i, e). record_of C i e) (enumerate (length es + 1) es')"
  by (simp add: records_of_def enumerate_append_eq add.commute)

lemma ascending_append:
  "ascending previous (rs @ rs') \<longleftrightarrow> ascending previous rs \<and> ascending (last_cursor previous rs) rs'"
  by (induction rs arbitrary: previous) auto

text \<open>
  A reader of a live run is never confused by what the writer flushed after the summary the
  reader holds. Records beyond the summary and a last line cut anywhere change nothing: the page
  is the one of the file at the time of the summary, and it is never an error.
\<close>

theorem live_reader_boundary:
  assumes "log_codec_documented C" and "log_writer_create D created m = Inr w"
    and "unat m < 2 ^ 64 - 1" and "\<forall>(now, ch)\<in>set (xs @ ys). length (ch_bytes ch) \<le> read_chunk_bytes"
    and "record_all C D (map (\<lambda>(now, ch). (Written, now, ch)) xs) w = (w1, r1)"
    and "record_all C D (map (\<lambda>(now, ch). (Written, now, ch)) (xs @ ys)) w = (w2, r2)"
    and "sm_next_cursor (rs_logs st) = sm_next_cursor (log_snapshot w1)"
    and "\<not> is_terminal (rs_status st)"
    and "record_ok C nxt" and "n < length (log_line C nxt)" and "0 < limit" and "limit \<le> 1000"
  shows "\<exists>page.
    read_logs C (Inr \<lparr>li_content = lw_file w1, li_fault = None\<rparr>) (Inr ()) st a limit stream = Inr page \<and>
    read_logs C (Inr \<lparr>li_content = lw_file w2 @ take n (log_line C nxt), li_fault = None\<rparr>) (Inr ())
      st a limit stream = Inr page"
proof -
  let ?es1 = "kept (unat m) xs"
  let ?es2 = "kept (unat m - entries_size ?es1) ys"
  let ?more = "map (\<lambda>(i, e). record_of C i e) (enumerate (length ?es1 + 1) ?es2)"
  note wf1 = writer_file [OF assms(2,3,5)] and wf2 = writer_file [OF assms(2,3,6)]
  have chunks: "\<forall>(now, ch)\<in>set xs. length (ch_bytes ch) \<le> read_chunk_bytes" using assms(4) by auto
  note ok1 = records_of_ok [OF kept_ok [OF chunks] wf1(3), of C]
  note ok2 = records_of_ok [OF kept_ok [OF assms(4)] wf2(3), of C]
  have low: "\<forall>r\<in>set (records_of C ?es1). lg_cursor r < sm_next_cursor (rs_logs st)"
    using ok1(3) wf1(2) by (auto simp: assms(7) word_less_nat_alt)
  have split: "records_of C (kept (unat m) (xs @ ys)) = records_of C ?es1 @ ?more"
    by (simp only: kept_append records_of_split)
  have more: "\<forall>r\<in>set ?more. record_ok C r" "ascending (last_cursor 0 (records_of C ?es1)) ?more"
    using ok2(1,2) unfolding split ascending_append by auto
  have len: "length ?es1 + length ?es2 < 2 ^ 64 - 1" using wf2(3) by (simp add: kept_append)
  have high: "\<forall>r\<in>set ?more. sm_next_cursor (rs_logs st) \<le> lg_cursor r"
    using wf1(2) len by (auto simp: assms(7) word_le_nat_alt in_set_enumerate_eq record_of_cursor)
  have content: "lw_file w2 @ take n (log_line C nxt) =
      log_file C (records_of C ?es1) @ (log_file C ?more @ take n (log_line C nxt))"
    by (simp add: wf2(1) split log_file_def)
  note stop = read_loop_live_stop [OF assms(1,8) more high assms(9,10)]
  have "read_logs C (Inr \<lparr>li_content = lw_file w2 @ take n (log_line C nxt), li_fault = None\<rparr>) (Inr ())
      st a limit stream = Inr (log_page st a limit stream (records_of C ?es1))"
    unfolding content by (rule read_logs_committed [OF assms(1) ok1(1,2) low assms(11,12) stop])
  moreover have "read_logs C (Inr \<lparr>li_content = lw_file w1, li_fault = None\<rparr>) (Inr ())
      st a limit stream = Inr (log_page st a limit stream (records_of C ?es1))"
    using read_logs_committed [OF assms(1) ok1(1,2) low assms(11,12) read_loop_end]
    by (simp add: wf1(1))
  ultimately show ?thesis by blast
qed

section \<open>A file that goes on\<close>

text \<open>The file may end within a record.\<close>

definition log_upto :: "log_codec \<Rightarrow> log_entry list \<Rightarrow> bytes \<Rightarrow> bool" where
  "log_upto C es content \<longleftrightarrow>
     log_entries_ok es \<and> length es < 2 ^ 64 - 1 \<and> prefix content (log_file C (records_of C es))"

lemma log_file_records_append:
  "log_file C (records_of C (es @ es')) = log_file C (records_of C es) @
     log_file C (map (\<lambda>(i, e). record_of C i e) (enumerate (length es + 1) es'))"
  by (simp add: records_of_split log_file_def)

lemma log_file_prefix: "prefix (log_file C (records_of C es)) (log_file C (records_of C (es @ es')))"
  by (simp add: log_file_records_append)

text \<open>
  A reader whose summary counts \<open>es\<close> gets the page of \<open>es\<close>, wherever in the records that follow the
  file ends.
\<close>

lemma read_loop_upto:
  assumes "log_codec_documented C" and "\<not> is_terminal (rs_status st)"
    and "\<forall>r\<in>set rs. record_ok C r" and "ascending previous rs"
    and "\<forall>r\<in>set rs. sm_next_cursor (rs_logs st) \<le> lg_cursor r" and "prefix tail (log_file C rs)"
  shows "read_loop C st a limit stream None previous records tail = Inr (records, False)"
proof (cases "tail = []")
  case True
  then show ?thesis by (simp add: read_loop_end)
next
  case False
  then obtain r rs' where rs: "rs = r # rs'" using assms(6) by (cases rs) (auto simp: log_file_def)
  let ?line = "log_line C r"
  have cut: "log_file C rs = ?line @ log_file C rs'" by (simp add: rs log_file_def)
  show ?thesis
  proof (cases "prefix ?line tail")
    case True
    then obtain rest where "tail = log_file C [r] @ rest" by (auto simp: prefix_def log_file_def)
    moreover have ok: "record_ok C r" "previous < lg_cursor r" "\<not> lg_cursor r < sm_next_cursor (rs_logs st)"
      using assms(3-5) by (auto simp: rs)
    moreover have "check_line C st previous ?line = Inr None"
      using assms(2) ok(3) by (simp add: check_line_committed [OF assms(1) ok(1,2)])
    ultimately show ?thesis
      by (subst read_loop.simps) (simp add: log_file_def read_until_line documented_line [OF assms(1) ok(1)])
  next
    case False
    have "prefix tail ?line"
      using prefix_same_cases [of tail "log_file C rs" ?line] assms(6) False by (auto simp: cut)
    then have tail: "tail = take (length tail) ?line" and "length tail < length ?line"
      using False by (auto simp: prefix_def)
    from read_loop_live_stop [OF assms(1,2) _ _ _ _ this(2), of "[]" previous a limit stream records]
    have "read_loop C st a limit stream None previous records (take (length tail) ?line) = Inr (records, False)"
      using assms(3) by (simp add: rs log_file_def)
    then show ?thesis using tail by simp
  qed
qed

lemma read_logs_upto:
  assumes "log_codec_documented C" and next_cursor: "unat (sm_next_cursor (rs_logs st)) = length es + 1" and "\<not> is_terminal (rs_status st)"
    and "prefix (log_file C (records_of C es)) content" and "log_upto C (es @ es') content"
    and "0 < limit" and "limit \<le> 1000"
  shows "read_logs C (Inr \<lparr>li_content = content, li_fault = None\<rparr>) (Inr ()) st a limit stream =
    Inr (log_page st a limit stream (records_of C es))"
proof -
  let ?rest = "map (\<lambda>(i, e). record_of C i e) (enumerate (length es + 1) es')"
  have all: "log_entries_ok (es @ es')" "length (es @ es') < 2 ^ 64 - 1"
    using assms(5) by (simp_all add: log_upto_def)
  then have "log_entries_ok es" "length es < 2 ^ 64 - 1" by (auto simp: log_entries_ok_def)
  note ok = records_of_ok [OF this, of C] and ok_all = records_of_ok [OF all, of C, unfolded records_of_split]
  obtain tail where content: "content = log_file C (records_of C es) @ tail" using assms(4) by (auto simp: prefix_def)
  have rest: "\<forall>r\<in>set ?rest. record_ok C r" "ascending (last_cursor 0 (records_of C es)) ?rest"
    using ok_all(1,2) unfolding ascending_append by auto
  have high: "\<forall>r\<in>set ?rest. sm_next_cursor (rs_logs st) \<le> lg_cursor r"
    using all(2) next_cursor by (auto simp: word_le_nat_alt in_set_enumerate_eq record_of_cursor)
  have low: "\<forall>r\<in>set (records_of C es). lg_cursor r < sm_next_cursor (rs_logs st)"
    using ok(3) next_cursor by (auto simp: word_less_nat_alt)
  have "prefix tail (log_file C ?rest)"
    using assms(5) by (simp add: log_upto_def content log_file_records_append)
  note stop = read_loop_upto [OF assms(1,3) rest high this]
  show ?thesis unfolding content by (rule read_logs_committed [OF assms(1) ok(1,2) low assms(6,7) stop])
qed

text \<open>The file of a finished run holds just what its summary counts.\<close>

lemma read_logs_whole:
  assumes "log_codec_documented C" and next_cursor: "unat (sm_next_cursor (rs_logs st)) = length es + 1" and "log_upto C es (log_file C (records_of C es))"
    and "0 < limit" and "limit \<le> 1000"
  shows "read_logs C (Inr \<lparr>li_content = log_file C (records_of C es), li_fault = None\<rparr>) (Inr ()) st a limit stream =
    Inr (log_page st a limit stream (records_of C es))"
proof -
  have "log_entries_ok es" "length es < 2 ^ 64 - 1" using assms(3) by (simp_all add: log_upto_def)
  note ok = records_of_ok [OF this, of C]
  have "\<forall>r\<in>set (records_of C es). lg_cursor r < sm_next_cursor (rs_logs st)"
    using ok(3) next_cursor by (auto simp: word_less_nat_alt)
  from read_logs_committed [OF assms(1) ok(1,2) this assms(4,5) read_loop_end] show ?thesis by simp
qed

text \<open>Of a terminal run a record beyond its summary is an error, on every page that reaches it.\<close>

lemma read_logs_beyond:
  assumes "log_codec_documented C" and next_cursor: "unat (sm_next_cursor (rs_logs st)) = length es + 1" and "is_terminal (rs_status st)"
    and "log_entries_ok (es @ [e])" and "length (es @ [e]) < 2 ^ 64 - 1"
    and "prefix (log_file C (records_of C (es @ [e]))) content"
    and "0 < limit" and "limit \<le> 1000" and "length (filter (selected a stream) (records_of C es)) \<le> limit"
  shows "read_logs C (Inr \<lparr>li_content = content, li_fault = None\<rparr>) (Inr ()) st a limit stream =
    Inl (integrity (''log cursor '' @ show_word (sm_next_cursor (rs_logs st)) @ '' is outside the durable summary''))"
proof -
  define r where "r = record_of C (length es + 1) e"
  note ok_all = records_of_ok [OF assms(4,5), of C, unfolded records_of_append, folded r_def]
  have "log_entries_ok es" "length es < 2 ^ 64 - 1" using assms(4,5) by (auto simp: log_entries_ok_def)
  note ok = records_of_ok [OF this, of C]
  have up: "record_ok C r" "last_cursor 0 (records_of C es) < lg_cursor r"
    using ok_all(1,2) unfolding ascending_append by auto
  have cursor: "lg_cursor r = sm_next_cursor (rs_logs st)"
    using assms(5) next_cursor by (intro word_unat_eq_iff [THEN iffD2]) (simp add: record_of_cursor r_def)
  have low: "\<forall>r\<in>set (records_of C es). lg_cursor r < sm_next_cursor (rs_logs st)"
    using ok(3) next_cursor by (auto simp: word_less_nat_alt)
  obtain rest where content: "content = log_file C (records_of C es) @ (log_line C r @ rest)"
    using assms(6) by (auto simp: prefix_def records_of_append log_file_def r_def)
  have stop: "read_loop C st a limit stream None (last_cursor 0 (records_of C es)) records (log_line C r @ rest) =
      Inl (integrity (''log cursor '' @ show_word (sm_next_cursor (rs_logs st)) @ '' is outside the durable summary''))"
    for records
    by (subst read_loop.simps)
      (simp add: read_until_line documented_line [OF assms(1) up(1)] check_line_committed [OF assms(1) up] assms(3) cursor)
  show ?thesis unfolding content
    using read_loop_committed [OF assms(1) ok(1,2) low, of "[]" limit a stream None] assms(7-9)
    by (simp add: read_logs_def Let_def stop)
qed

section \<open>What any page guarantees\<close>

definition record_valid :: "log_codec \<Rightarrow> run_state \<Rightarrow> u64 \<Rightarrow> log_stream option \<Rightarrow> log_record \<Rightarrow> bool" where
  "record_valid C st a stream r \<longleftrightarrow>
     lg_schema_version r = log_record_schema_version \<and> a < lg_cursor r \<and>
     lg_cursor r < sm_next_cursor (rs_logs st) \<and> (\<forall>s. stream = Some s \<longrightarrow> lg_stream r = s) \<and>
     (\<exists>bs. decode_record C r = Inr bs \<and> bs \<noteq> [] \<and> u64_of_len (length bs) = lg_byte_count r)"

abbreviation cursors_ascend :: "log_record list \<Rightarrow> bool" where
  "cursors_ascend rs \<equiv> sorted_wrt (\<lambda>r s. lg_cursor r < lg_cursor s) rs"

lemma check_line_Some:
  assumes "check_line C st previous line = Inr (Some r)"
  shows "previous < lg_cursor r" and "selected a stream r \<Longrightarrow> record_valid C st a stream r"
proof -
  from assms have r: "check_record C st previous r = Inr (Some r)"
    by (auto simp: check_line_def check_record_def res_simps split: if_splits)
  then show "previous < lg_cursor r"
    by (auto simp: check_record_def not_le split: if_splits)
  from r obtain bs where "decode_record C r = Inr bs" "lg_byte_count r \<noteq> 0"
    "u64_of_len (length bs) = lg_byte_count r" "lg_schema_version r = log_record_schema_version"
    "lg_cursor r < sm_next_cursor (rs_logs st)"
    by (auto simp: check_record_def res_simps not_le split: if_splits)
  moreover from this have "bs \<noteq> []" by (auto simp: u64_of_len_def)
  ultimately show "selected a stream r \<Longrightarrow> record_valid C st a stream r"
    by (auto simp: record_valid_def selected_def not_le)
qed

lemma read_loop_lines:
  "read_until fault bs = Inl e \<Longrightarrow>
   read_loop C st a limit stream fault previous records bs = Inl (from_io e)"
  "read_until fault bs = Inr ([], rest) \<Longrightarrow>
   read_loop C st a limit stream fault previous records bs = Inr (records, False)"
  "read_until fault bs = Inr (line, rest) \<Longrightarrow> line \<noteq> [] \<Longrightarrow> check_line C st previous line = Inl err \<Longrightarrow>
   read_loop C st a limit stream fault previous records bs = Inl err"
  "read_until fault bs = Inr (line, rest) \<Longrightarrow> line \<noteq> [] \<Longrightarrow> check_line C st previous line = Inr None \<Longrightarrow>
   read_loop C st a limit stream fault previous records bs = Inr (records, False)"
  "read_until fault bs = Inr (line, rest) \<Longrightarrow> line \<noteq> [] \<Longrightarrow> check_line C st previous line = Inr (Some r) \<Longrightarrow>
   read_loop C st a limit stream fault previous records bs =
     (if \<not> selected a stream r
      then read_loop C st a limit stream fault (lg_cursor r) records rest
      else if length records = limit then Inr (records, True)
      else read_loop C st a limit stream fault (lg_cursor r) (records @ [r]) rest)"
  by (subst read_loop.simps; simp; fail)+

lemma read_loop_valid:
  assumes "read_loop C st a limit stream fault previous records bs = Inr (records', has_more)"
    and "cursors_ascend records" and "\<forall>r\<in>set records. record_valid C st a stream r \<and> lg_cursor r \<le> previous"
    and "length records \<le> limit"
  shows "cursors_ascend records' \<and> (\<forall>r\<in>set records'. record_valid C st a stream r) \<and>
    length records' \<le> limit"
  using assms
proof (induction "length bs" arbitrary: previous records bs rule: less_induct)
  case less
  obtain line rest where line: "read_until fault bs = Inr (line, rest)"
  proof (cases "read_until fault bs")
    case (Inl e)
    then show thesis using less.prems(1) read_loop_lines(1) [OF Inl, of C st a limit stream previous records]
      by simp
  qed (use that in \<open>auto split: prod.splits\<close>)
  show ?case
  proof (cases "line = [] \<or> check_line C st previous line = Inr None")
    case True
    then have "read_loop C st a limit stream fault previous records bs = Inr (records, False)"
    proof
      assume "line = []"
      then show ?thesis using line by (intro read_loop_lines(2)) simp
    next
      assume "check_line C st previous line = Inr None"
      then show ?thesis using read_loop_lines(2) read_loop_lines(4) [OF line] line by (cases "line = []") auto
    qed
    then have "records' = records" using less.prems(1) by simp
    then show ?thesis using less.prems(2-4) by blast
  next
    case False
    then obtain r where r: "check_line C st previous line = Inr (Some r)"
    proof (cases "check_line C st previous line")
      case (Inl e)
      then show thesis using less.prems(1) read_loop_lines(3) [OF line _ Inl] False by simp
    next
      case (Inr checked)
      then show thesis using that False by (cases checked) simp_all
    qed
    note up = check_line_Some(1) [OF r] and valid = check_line_Some(2) [OF r, of a stream]
    have run: "(if \<not> selected a stream r
        then read_loop C st a limit stream fault (lg_cursor r) records rest
        else if length records = limit then Inr (records, True)
        else read_loop C st a limit stream fault (lg_cursor r) (records @ [r]) rest) =
        Inr (records', has_more)"
      using less.prems(1) read_loop_lines(5) [OF line _ r, of a limit stream records] False by simp
    have below: "\<forall>q\<in>set records. lg_cursor q < lg_cursor r"
      using less.prems(3) le_less_trans [OF _ up] by blast
    then have old: "\<forall>q\<in>set records. record_valid C st a stream q \<and> lg_cursor q \<le> lg_cursor r"
      using less.prems(3) less_imp_le by blast
    have "length rest < length bs" using read_until_shorter [OF line] False by blast
    note ih = less.hyps [OF this]
    consider (skip) "\<not> selected a stream r" | (full) "selected a stream r" "length records = limit"
      | (push) "selected a stream r" "length records \<noteq> limit" by blast
    then show ?thesis
    proof cases
      case skip
      then have "read_loop C st a limit stream fault (lg_cursor r) records rest = Inr (records', has_more)"
        using run by (simp only: if_True not_False_eq_True)
      then show ?thesis by (rule ih [OF _ less.prems(2) old less.prems(4)])
    next
      case full
      then have "records' = records" using run by simp
      then show ?thesis using less.prems(2-4) by blast
    next
      case push
      then have "read_loop C st a limit stream fault (lg_cursor r) (records @ [r]) rest =
          Inr (records', has_more)"
        using run by (simp only: if_False if_True not_True_eq_False simp_thms)
      moreover have "cursors_ascend (records @ [r])"
        using less.prems(2) below by (simp add: sorted_wrt_append)
      moreover have "\<forall>q\<in>set (records @ [r]). record_valid C st a stream q \<and> lg_cursor q \<le> lg_cursor r"
        using old valid push by auto
      moreover have "length (records @ [r]) \<le> limit" using less.prems(4) push by simp
      ultimately show ?thesis by (rule ih)
    qed
  qed
qed

text \<open>
  C30: whatever the file holds, a page that is returned is sound: its records have the supported
  schema, strictly ascending cursors inside the requested range and the durable summary, the
  chosen stream, and data that decodes to exactly the announced, non-empty number of bytes; and
  there are at most \<open>limit\<close> of them.
\<close>

theorem page_sound:
  assumes "read_logs C opened regular st a limit stream = Inr page"
  shows "cursors_ascend (lo_records page) \<and>
    (\<forall>r\<in>set (lo_records page). record_valid C st a stream r) \<and> length (lo_records page) \<le> limit"
proof (cases opened)
  case (Inl e)
  then have "lo_records page = []" using assms by (auto simp: read_logs_def res_simps split: if_splits)
  then show ?thesis by simp
next
  case (Inr input)
  then obtain has_more where
    "read_loop C st a limit stream (li_fault input) 0 [] (li_content input) = Inr (lo_records page, has_more)"
    using assms by (auto simp: read_logs_def res_simps split: if_splits)
  from read_loop_valid [OF this] show ?thesis by simp
qed

theorem live_reader_boundary_witness:
  "\<exists>w w' page. log_writer_create raw_digest (Inr ()) 3 = Inr w \<and>
     record_all standard_codec raw_digest (map (\<lambda>(now, ch). (Written, now, ch)) two_bytes) w = (w', Inr ()) \<and>
     read_logs standard_codec (Inr \<lparr>li_content = lw_file w' @
         take 3 (log_line standard_codec (record_for standard_codec 9 2 Stderr [7])), li_fault = None\<rparr>)
       (Inr ()) (example_state Running (log_snapshot w)) 0 10 None = Inr page"
proof -
  obtain w w' where w: "log_writer_create raw_digest (Inr ()) 3 = Inr w"
    "record_all standard_codec raw_digest (map (\<lambda>(now, ch). (Written, now, ch)) two_bytes) w = (w', Inr ())"
    by (rule two_bytes_run)
  let ?nxt = "record_for standard_codec 9 2 Stderr [7]"
  have ok: "record_ok standard_codec ?nxt" unfolding record_ok_def
    by (intro exI [of _ 9] exI [of _ 2] exI [of _ Stderr] exI [of _ "[7]"]) (simp add: read_chunk_bytes_def)
  have long: "3 < length (log_line standard_codec ?nxt)"
    by (simp add: log_line_def standard_codec_def json_text_def json_1_def json_4_def)
  have "record_all standard_codec raw_digest (map (\<lambda>(now, ch). (Written, now, ch)) []) w = (w, Inr ())"
    by simp
  from live_reader_boundary [OF standard_codec_documented w(1) _ _ this, of two_bytes w' "Inr ()"
      "example_state Running (log_snapshot w)" ?nxt 3 10 0 None] two_bytes_small w ok long
  show ?thesis by auto
qed

theorem page_sound_witness:
  "\<exists>w page. log_writer_create raw_digest (Inr ()) 3 = Inr w \<and>
     read_logs standard_codec (Inr \<lparr>li_content = lw_file w, li_fault = None\<rparr>) (Inr ())
       (example_state Exited (log_snapshot w)) 0 10 None = Inr page \<and> length (lo_records page) \<le> 10"
proof -
  obtain w where w: "log_writer_create raw_digest (Inr ()) 3 = Inr w" "lw_file w = []"
    by (simp add: log_writer_create_def)
  obtain page where page: "read_logs standard_codec (Inr \<lparr>li_content = lw_file w, li_fault = None\<rparr>) (Inr ())
      (example_state Exited (log_snapshot w)) 0 10 None = Inr page"
    by (simp add: read_logs_def w(2) read_loop_end)
  then show ?thesis using page_sound [OF page] w(1) by blast
qed

end
