(* ===== verification/Placeholders.thy ===== *)
theory Placeholders
  imports Lease_Names
begin

text \<open>
  The substitution of lease placeholders in an argument, \<open>replace_placeholders\<close> of
  \<^verbatim>\<open>src/leases.rs\<close>, and its specification: an argument is a list of segments, literals and
  references to leased ports and directories, and the sequence of textual replacements the code
  performs is one simultaneous substitution of the references.
\<close>

section \<open>Ordered maps\<close>

text \<open>A \<open>BTreeMap\<close> as its entries in key order; a second insertion of a key replaces its value.\<close>

fun btree_insert :: "'k::linorder \<Rightarrow> 'v \<Rightarrow> ('k \<times> 'v) list \<Rightarrow> ('k \<times> 'v) list" where
  "btree_insert k v [] = [(k, v)]"
| "btree_insert k v ((k', v') # m) =
     (if k < k' then (k, v) # (k', v') # m
      else if k = k' then (k, v) # m
      else (k', v') # btree_insert k v m)"

definition btree_of :: "('k::linorder \<times> 'v) list \<Rightarrow> ('k \<times> 'v) list" where
  "btree_of kvs = foldl (\<lambda>m (k, v). btree_insert k v m) [] kvs"

lemma map_of_btree_insert: "map_of (btree_insert k v m) = (map_of m)(k \<mapsto> v)"
  by (induction k v m rule: btree_insert.induct) (auto simp: fun_eq_iff)

lemma map_of_btree_foldl:
  "map_of (foldl (\<lambda>m (k, v). btree_insert k v m) m kvs) = map_of m ++ map_of (rev kvs)"
proof (induction kvs arbitrary: m)
  case (Cons kv kvs)
  then show ?case
    by (cases kv) (auto simp: map_of_btree_insert map_add_def fun_eq_iff split: option.splits)
qed simp

lemma map_of_btree_of: "map_of (btree_of kvs) = map_of (rev kvs)"
  by (simp add: btree_of_def map_of_btree_foldl)

lemma map_of_btree_of_distinct: "distinct (map fst kvs) \<Longrightarrow> map_of (btree_of kvs) = map_of kvs"
proof -
  assume d: "distinct (map fst kvs)"
  then have "distinct (map fst (rev kvs))" by (simp add: rev_map [symmetric])
  then have "map_of (rev kvs) = map_of kvs"
    by (intro ext) (metis d map_of_inject_set set_rev)
  then show ?thesis by (simp add: map_of_btree_of)
qed

section \<open>The code's replacement\<close>

definition port_placeholder :: "string \<Rightarrow> string" where
  "port_placeholder name = ''{port:'' @ name @ ''}''"

definition temp_placeholder :: "string \<Rightarrow> string" where
  "temp_placeholder name = ''{temp:'' @ name @ ''}''"

text \<open>On Windows, the slashes after a verbatim path prefix become backslashes.\<close>

fun normalize_verbatim_path_separators :: "string \<Rightarrow> string" where
  "normalize_verbatim_path_separators [] = []"
| "normalize_verbatim_path_separators (c # cs) =
     (if strip_prefix [CHR 0x5C, CHR 0x5C, CHR ''?'', CHR 0x5C] (c # cs) \<noteq> None
      then map (\<lambda>d. if d = CHR ''/'' then CHR 0x5C else d) (c # cs)
      else c # normalize_verbatim_path_separators cs)"

definition replace_placeholders ::
  "bool \<Rightarrow> string \<Rightarrow> (string \<times> string) list \<Rightarrow> (string \<times> string) list \<Rightarrow> app_error + string" where
  \<comment> \<open>the first argument is \<open>cfg!(windows)\<close>\<close>
  "replace_placeholders windows value ports temp_directories =
     (let contains_temp_placeholder =
        list_ex (\<lambda>(name, _). contains_sub (temp_placeholder name) value) temp_directories;
      result = foldl (\<lambda>r (name, port). replace_all (port_placeholder name) port r) value ports;
      result = foldl (\<lambda>r (name, path). replace_all (temp_placeholder name) path r) result
        temp_directories;
      result =
        (if windows \<and> contains_temp_placeholder then normalize_verbatim_path_separators result
         else result) in
      if contains_sub ''{port:'' result \<or> contains_sub ''{temp:'' result
      then Inl (usage (''argument contains an unknown or unterminated lease placeholder: '' @ value))
      else Inr result)"

section \<open>Arguments as segments\<close>

datatype segment = Lit string | Port_ref string | Temp_ref string

fun render_segment :: "segment \<Rightarrow> string" where
  "render_segment (Lit s) = s"
| "render_segment (Port_ref n) = port_placeholder n"
| "render_segment (Temp_ref n) = temp_placeholder n"

definition render_segments :: "segment list \<Rightarrow> string" where
  "render_segments segs = concat (map render_segment segs)"

text \<open>
  A literal holds no start of a placeholder, not even one that the next segment could complete:
  every opening brace in it is followed, inside it, by a character other than \<open>p\<close> and \<open>t\<close>.
\<close>

fun unopened :: "string \<Rightarrow> bool" where
  "unopened [] \<longleftrightarrow> True"
| "unopened (c # cs) \<longleftrightarrow>
     (c = CHR ''{'' \<longrightarrow> (case cs of [] \<Rightarrow> False | d # _ \<Rightarrow> d \<noteq> CHR ''p'' \<and> d \<noteq> CHR ''t'')) \<and> unopened cs"

fun segment_ok :: "segment \<Rightarrow> bool" where
  "segment_ok (Lit s) \<longleftrightarrow> unopened s"
| "segment_ok (Port_ref n) \<longleftrightarrow> CHR ''{'' \<notin> set n \<and> CHR ''}'' \<notin> set n"
| "segment_ok (Temp_ref n) \<longleftrightarrow> CHR ''{'' \<notin> set n \<and> CHR ''}'' \<notin> set n"

text \<open>What a reference stands for.\<close>

fun resolve :: "(string \<times> string) list \<Rightarrow> (string \<times> string) list \<Rightarrow> segment \<Rightarrow> string option" where
  "resolve ports temps (Lit s) = Some s"
| "resolve ports temps (Port_ref n) = map_of ports n"
| "resolve ports temps (Temp_ref n) = map_of temps n"

lemma plain_braceless: "CHR ''{'' \<notin> set s \<Longrightarrow> unopened s"
  by (induction s) auto

lemma valid_name_segment_ok:
  "valid_name n \<Longrightarrow> segment_ok (Port_ref n)" "valid_name n \<Longrightarrow> segment_ok (Temp_ref n)"
  by (auto dest: valid_name_excludes)

text \<open>A pattern that opens like a placeholder is never found inside a literal.\<close>

lemma plain_take_ne:
  "unopened (c # cs) \<Longrightarrow> d = CHR ''p'' \<or> d = CHR ''t'' \<Longrightarrow>
   take (length (CHR ''{'' # d # q)) (c # cs @ r) \<noteq> CHR ''{'' # d # q"
  by (cases cs) auto

lemma replace_all_plain:
  assumes "d = CHR ''p'' \<or> d = CHR ''t''"
  shows "unopened s \<Longrightarrow> replace_all (CHR ''{'' # d # q) t (s @ r) = s @ replace_all (CHR ''{'' # d # q) t r"
proof (induction s)
  case (Cons c cs)
  then show ?case using plain_take_ne [OF Cons.prems assms, of q r] by auto
qed simp

lemma contains_sub_plain:
  assumes "d = CHR ''p'' \<or> d = CHR ''t''"
  shows "unopened s \<Longrightarrow> contains_sub (CHR ''{'' # d # q) (s @ r) = contains_sub (CHR ''{'' # d # q) r"
proof (induction s)
  case (Cons c cs)
  then show ?case using plain_take_ne [OF Cons.prems assms, of q r] by auto
qed simp

text \<open>A pattern matches a reference exactly when it is that reference's own placeholder.\<close>

lemma name_match:
  assumes "CHR ''}'' \<notin> set n" and "CHR ''}'' \<notin> set m"
  shows "take (length (n @ ''}'')) (m @ ''}'' @ r) = n @ ''}'' \<longleftrightarrow> n = m"
proof
  assume "take (length (n @ ''}'')) (m @ ''}'' @ r) = n @ ''}''"
  then obtain r' where "m @ ''}'' @ r = n @ ''}'' @ r'"
    by (metis append.assoc append_take_drop_id)
  then have "takeWhile (\<lambda>c. c \<noteq> CHR ''}'') (m @ ''}'' @ r) =
      takeWhile (\<lambda>c. c \<noteq> CHR ''}'') (n @ ''}'' @ r')" by simp
  moreover have "takeWhile (\<lambda>c. c \<noteq> CHR ''}'') (x @ ''}'' @ s) = x" if "CHR ''}'' \<notin> set x" for x s
    by (subst takeWhile_append2) (use that in auto)
  ultimately show "n = m" using assms by metis
qed simp

lemma placeholder_match:
  assumes "CHR ''}'' \<notin> set n" and "CHR ''}'' \<notin> set m"
  shows
    "take (length (port_placeholder n)) (port_placeholder m @ r) = port_placeholder n \<longleftrightarrow> n = m"
    "take (length (temp_placeholder n)) (temp_placeholder m @ r) = temp_placeholder n \<longleftrightarrow> n = m"
    "take (length (port_placeholder n)) (temp_placeholder m @ r) \<noteq> port_placeholder n"
    "take (length (temp_placeholder n)) (port_placeholder m @ r) \<noteq> temp_placeholder n"
  using name_match [OF assms, of r]
  by (auto simp: port_placeholder_def temp_placeholder_def)

lemma placeholder_shape:
  "port_placeholder n = CHR ''{'' # CHR ''p'' # ''ort:'' @ n @ ''}''"
  "temp_placeholder n = CHR ''{'' # CHR ''t'' # ''emp:'' @ n @ ''}''"
  by (simp_all add: port_placeholder_def temp_placeholder_def)

lemma placeholder_tail_plain:
  "CHR ''{'' \<notin> set n \<Longrightarrow> unopened (''port:'' @ n @ ''}'')"
  "CHR ''{'' \<notin> set n \<Longrightarrow> unopened (''temp:'' @ n @ ''}'')"
  by (auto intro!: plain_braceless)

lemma replace_all_skip:
  assumes "take (length (CHR ''{'' # d # q)) (CHR ''{'' # y @ r) \<noteq> CHR ''{'' # d # q"
    and "d = CHR ''p'' \<or> d = CHR ''t''" and "unopened y"
  shows "replace_all (CHR ''{'' # d # q) t (CHR ''{'' # y @ r) =
    CHR ''{'' # y @ replace_all (CHR ''{'' # d # q) t r"
proof -
  have "replace_all (CHR ''{'' # d # q) t (CHR ''{'' # y @ r) =
      CHR ''{'' # replace_all (CHR ''{'' # d # q) t (y @ r)"
    using assms(1) by auto
  then show ?thesis using replace_all_plain [OF assms(2,3)] by simp
qed

section \<open>One replacement acts on the segments\<close>

definition fill_port :: "string \<times> string \<Rightarrow> segment \<Rightarrow> segment" where
  "fill_port kv seg = (if seg = Port_ref (fst kv) then Lit (snd kv) else seg)"

definition fill_temp :: "string \<times> string \<Rightarrow> segment \<Rightarrow> segment" where
  "fill_temp kv seg = (if seg = Temp_ref (fst kv) then Lit (snd kv) else seg)"

lemma replace_port_segment:
  assumes "segment_ok seg" and "CHR ''}'' \<notin> set n"
  shows "replace_all (port_placeholder n) v (render_segment seg @ r) =
    render_segment (fill_port (n, v) seg) @ replace_all (port_placeholder n) v r"
proof (cases seg)
  case (Lit s)
  then show ?thesis
    using assms(1) replace_all_plain [of "CHR ''p''" s "''ort:'' @ n @ ''}''" v r]
    by (simp add: fill_port_def placeholder_shape)
next
  case (Port_ref m)
  show ?thesis
  proof (cases "m = n")
    case True
    then show ?thesis
      using Port_ref replace_all_pattern [of "port_placeholder n" v r]
      by (simp add: fill_port_def placeholder_shape)
  next
    case False
    then show ?thesis
      using Port_ref assms placeholder_match(1) [of n m r] placeholder_tail_plain(1) [of m]
        replace_all_skip [of "CHR ''p''" "''ort:'' @ n @ ''}''" "''port:'' @ m @ ''}''" r v]
      by (auto simp: fill_port_def placeholder_shape simp del: unopened.simps replace_all.simps take_Suc_Cons)
  qed
next
  case (Temp_ref m)
  then show ?thesis
    using assms placeholder_match(3) [of n m r] placeholder_tail_plain(2) [of m]
      replace_all_skip [of "CHR ''p''" "''ort:'' @ n @ ''}''" "''temp:'' @ m @ ''}''" r v]
    by (auto simp: fill_port_def placeholder_shape simp del: unopened.simps replace_all.simps take_Suc_Cons)
qed

lemma replace_temp_segment:
  assumes "segment_ok seg" and "CHR ''}'' \<notin> set n"
  shows "replace_all (temp_placeholder n) v (render_segment seg @ r) =
    render_segment (fill_temp (n, v) seg) @ replace_all (temp_placeholder n) v r"
proof (cases seg)
  case (Lit s)
  then show ?thesis
    using assms(1) replace_all_plain [of "CHR ''t''" s "''emp:'' @ n @ ''}''" v r]
    by (simp add: fill_temp_def placeholder_shape)
next
  case (Temp_ref m)
  show ?thesis
  proof (cases "m = n")
    case True
    then show ?thesis
      using Temp_ref replace_all_pattern [of "temp_placeholder n" v r]
      by (simp add: fill_temp_def placeholder_shape)
  next
    case False
    then show ?thesis
      using Temp_ref assms placeholder_match(2) [of n m r] placeholder_tail_plain(2) [of m]
        replace_all_skip [of "CHR ''t''" "''emp:'' @ n @ ''}''" "''temp:'' @ m @ ''}''" r v]
      by (auto simp: fill_temp_def placeholder_shape simp del: unopened.simps replace_all.simps take_Suc_Cons)
  qed
next
  case (Port_ref m)
  then show ?thesis
    using assms placeholder_match(4) [of n m r] placeholder_tail_plain(1) [of m]
      replace_all_skip [of "CHR ''t''" "''emp:'' @ n @ ''}''" "''port:'' @ m @ ''}''" r v]
    by (auto simp: fill_temp_def placeholder_shape simp del: unopened.simps replace_all.simps take_Suc_Cons)
qed

lemma replace_port_segments:
  "list_all segment_ok segs \<Longrightarrow> CHR ''}'' \<notin> set n \<Longrightarrow>
   replace_all (port_placeholder n) v (render_segments segs) =
     render_segments (map (fill_port (n, v)) segs)"
  by (induction segs) (simp_all add: render_segments_def replace_port_segment)

lemma replace_temp_segments:
  "list_all segment_ok segs \<Longrightarrow> CHR ''}'' \<notin> set n \<Longrightarrow>
   replace_all (temp_placeholder n) v (render_segments segs) =
     render_segments (map (fill_temp (n, v)) segs)"
  by (induction segs) (simp_all add: render_segments_def replace_temp_segment)

lemma fill_ok:
  "segment_ok seg \<Longrightarrow> unopened (snd kv) \<Longrightarrow> segment_ok (fill_port kv seg)"
  "segment_ok seg \<Longrightarrow> unopened (snd kv) \<Longrightarrow> segment_ok (fill_temp kv seg)"
  by (auto simp: fill_port_def fill_temp_def)

text \<open>The entries a map may have: names without braces, values that open no placeholder.\<close>

definition entries_ok :: "(string \<times> string) list \<Rightarrow> bool" where
  "entries_ok m \<longleftrightarrow> list_all (\<lambda>(n, v). CHR ''}'' \<notin> set n \<and> unopened v) m"

definition fill_ports :: "(string \<times> string) list \<Rightarrow> segment \<Rightarrow> segment" where
  "fill_ports m seg = foldl (\<lambda>s kv. fill_port kv s) seg m"

definition fill_temps :: "(string \<times> string) list \<Rightarrow> segment \<Rightarrow> segment" where
  "fill_temps m seg = foldl (\<lambda>s kv. fill_temp kv s) seg m"

lemma fold_ports:
  "entries_ok m \<Longrightarrow> list_all segment_ok segs \<Longrightarrow>
   foldl (\<lambda>r (n, v). replace_all (port_placeholder n) v r) (render_segments segs) m =
     render_segments (map (fill_ports m) segs) \<and> list_all segment_ok (map (fill_ports m) segs)"
proof (induction m arbitrary: segs)
  case (Cons kv m)
  obtain n v where kv: "kv = (n, v)" by (cases kv)
  have ok: "list_all segment_ok (map (fill_port kv) segs)"
    using Cons.prems kv by (auto simp: list_all_iff entries_ok_def fill_ok)
  then show ?case
    using Cons.IH [OF _ ok] Cons.prems
    by (simp add: kv entries_ok_def replace_port_segments fill_ports_def comp_def)
qed (simp add: fill_ports_def [abs_def])

lemma fold_temps:
  "entries_ok m \<Longrightarrow> list_all segment_ok segs \<Longrightarrow>
   foldl (\<lambda>r (n, v). replace_all (temp_placeholder n) v r) (render_segments segs) m =
     render_segments (map (fill_temps m) segs) \<and> list_all segment_ok (map (fill_temps m) segs)"
proof (induction m arbitrary: segs)
  case (Cons kv m)
  obtain n v where kv: "kv = (n, v)" by (cases kv)
  have ok: "list_all segment_ok (map (fill_temp kv) segs)"
    using Cons.prems kv by (auto simp: list_all_iff entries_ok_def fill_ok)
  then show ?case
    using Cons.IH [OF _ ok] Cons.prems
    by (simp add: kv entries_ok_def replace_temp_segments fill_temps_def comp_def)
qed (simp add: fill_temps_def [abs_def])

lemma fill_ports_simps [simp]:
  "fill_ports m (Lit s) = Lit s" "fill_ports m (Temp_ref n) = Temp_ref n"
  by (induction m) (simp_all add: fill_ports_def fill_port_def)

lemma fill_temps_simps [simp]:
  "fill_temps m (Lit s) = Lit s" "fill_temps m (Port_ref n) = Port_ref n"
  by (induction m) (simp_all add: fill_temps_def fill_temp_def)

lemma fill_ports_Port_ref:
  "fill_ports m (Port_ref n) = (case map_of m n of None \<Rightarrow> Port_ref n | Some v \<Rightarrow> Lit v)"
proof (induction m)
  case (Cons kv m)
  then show ?case
    using fill_ports_simps(1) [of m] by (cases kv) (auto simp: fill_ports_def fill_port_def)
qed (simp add: fill_ports_def)

lemma fill_temps_Temp_ref:
  "fill_temps m (Temp_ref n) = (case map_of m n of None \<Rightarrow> Temp_ref n | Some v \<Rightarrow> Lit v)"
proof (induction m)
  case (Cons kv m)
  then show ?case
    using fill_temps_simps(1) [of m] by (cases kv) (auto simp: fill_temps_def fill_temp_def)
qed (simp add: fill_temps_def)

text \<open>What is left of a placeholder after the replacements is an unresolved reference.\<close>

lemma contains_port_segments:
  "list_all segment_ok segs \<Longrightarrow>
   contains_sub ''{port:'' (render_segments segs) \<longleftrightarrow> (\<exists>n. Port_ref n \<in> set segs)"
proof (induction segs)
  case (Cons seg segs)
  have lit: "contains_sub ''{port:'' (s @ r) = contains_sub ''{port:'' r" if "unopened s" for s r
    using contains_sub_plain [of "CHR ''p''" s "''ort:''" r] that by simp
  show ?case
  proof (cases seg)
    case (Temp_ref m)
    then have "unopened (''temp:'' @ m @ ''}'')"
      using Cons.prems by (intro placeholder_tail_plain(2)) simp
    then show ?thesis
      using Temp_ref Cons lit [of "''temp:'' @ m @ ''}''" "render_segments segs"]
      by (simp add: render_segments_def temp_placeholder_def)
  qed (use Cons lit in \<open>auto simp: render_segments_def port_placeholder_def\<close>)
qed (simp add: render_segments_def)

lemma contains_temp_segments:
  "list_all segment_ok segs \<Longrightarrow>
   contains_sub ''{temp:'' (render_segments segs) \<longleftrightarrow> (\<exists>n. Temp_ref n \<in> set segs)"
proof (induction segs)
  case (Cons seg segs)
  have lit: "contains_sub ''{temp:'' (s @ r) = contains_sub ''{temp:'' r" if "unopened s" for s r
    using contains_sub_plain [of "CHR ''t''" s "''emp:''" r] that by simp
  show ?case
  proof (cases seg)
    case (Port_ref m)
    then have "unopened (''port:'' @ m @ ''}'')"
      using Cons.prems by (intro placeholder_tail_plain(1)) simp
    then show ?thesis
      using Port_ref Cons lit [of "''port:'' @ m @ ''}''" "render_segments segs"]
      by (simp add: render_segments_def port_placeholder_def)
  qed (use Cons lit in \<open>auto simp: render_segments_def temp_placeholder_def\<close>)
qed (simp add: render_segments_def)

lemma filled_segment:
  "fill_temps temps (fill_ports ports seg) =
     (case resolve ports temps seg of None \<Rightarrow> seg | Some v \<Rightarrow> Lit v)"
  by (cases seg) (auto simp: fill_ports_Port_ref fill_temps_Temp_ref split: option.split)

section \<open>Verbatim paths\<close>

abbreviation verbatim_prefix :: string where
  "verbatim_prefix \<equiv> [CHR 0x5C, CHR 0x5C, CHR ''?'', CHR 0x5C]"

definition backslashed :: "string \<Rightarrow> string" where
  "backslashed = map (\<lambda>d. if d = CHR ''/'' then CHR 0x5C else d)"

text \<open>
  What a text is on Windows: from the first verbatim path prefix on, every slash is a backslash; without
  such a prefix the text is as it was.
\<close>

definition verbatim_separated :: "string \<Rightarrow> string \<Rightarrow> bool" where
  "verbatim_separated s t \<longleftrightarrow>
     (t = s \<and> \<not> contains_sub verbatim_prefix s) \<or>
     (\<exists>p q. s = p @ q \<and> prefix verbatim_prefix q \<and> t = p @ backslashed q \<and>
        (\<forall>p' q'. s = p' @ q' \<and> prefix verbatim_prefix q' \<longrightarrow> length p \<le> length p'))"

lemma normalize_verbatim_Cons:
  "normalize_verbatim_path_separators (c # cs) =
     (if prefix verbatim_prefix (c # cs) then backslashed (c # cs)
      else c # normalize_verbatim_path_separators cs)"
  unfolding normalize_verbatim_path_separators.simps strip_prefix_None not_not backslashed_def by (rule refl)

lemma normalize_separated: "verbatim_separated s (normalize_verbatim_path_separators s)"
proof (induction s)
  case Nil
  then show ?case by (simp add: verbatim_separated_def)
next
  case (Cons c cs)
  show ?case
  proof (cases "prefix verbatim_prefix (c # cs)")
    case True
    then have new: "normalize_verbatim_path_separators (c # cs) = [] @ backslashed (c # cs)"
      unfolding normalize_verbatim_Cons by (simp only: if_True append_Nil)
    show ?thesis unfolding verbatim_separated_def new
      by (intro disjI2 exI [of _ "[]"] exI [of _ "c # cs"] conjI True) simp_all
  next
    case False
    then have new: "normalize_verbatim_path_separators (c # cs) = c # normalize_verbatim_path_separators cs"
      and first: "take (length verbatim_prefix) (c # cs) \<noteq> verbatim_prefix"
      unfolding normalize_verbatim_Cons using take_is_prefix [of "length verbatim_prefix" "c # cs"]
      by (simp only: if_False, metis)
    from Cons.IH consider (none) "normalize_verbatim_path_separators cs = cs" "\<not> contains_sub verbatim_prefix cs"
      | (found) p q where "cs = p @ q" "prefix verbatim_prefix q"
        "normalize_verbatim_path_separators cs = p @ backslashed q"
        "\<And>p' q'. cs = p' @ q' \<Longrightarrow> prefix verbatim_prefix q' \<Longrightarrow> length p \<le> length p'"
      unfolding verbatim_separated_def by blast
    then show ?thesis
    proof cases
      case none
      then show ?thesis unfolding verbatim_separated_def new using first
        by (simp only: contains_sub.simps simp_thms)
    next
      case found
      have "length (c # p) \<le> length p'" if "c # cs = p' @ q'" "prefix verbatim_prefix q'" for p' q'
        using that False found(4) by (cases p') (simp_all only: append_Nil append_Cons list.inject list.size, simp_all)
      then show ?thesis unfolding verbatim_separated_def new 
        by (intro disjI2 exI [of _ "c # p"] exI [of _ q] conjI found(2) allI impI) (simp add: found(1), simp add: found(3), blast)
    qed
  qed
qed

text \<open>It keeps every pattern without separators.\<close>

definition separated :: "string \<Rightarrow> string \<Rightarrow> bool" where
  "separated = list_all2 (\<lambda>c d. d = c \<or> (c = CHR ''/'' \<and> d = CHR 0x5C))"

lemma separated_eq: "separated xs ys \<Longrightarrow> CHR ''/'' \<notin> set xs \<or> CHR 0x5C \<notin> set ys \<Longrightarrow> ys = xs"
  unfolding separated_def by (induction rule: list_all2_induct) auto

lemma contains_separated:
  assumes "CHR ''/'' \<notin> set pat" and "CHR 0x5C \<notin> set pat"
  shows "separated xs ys \<Longrightarrow> contains_sub pat ys = contains_sub pat xs"
  unfolding separated_def
proof (induction rule: list_all2_induct)
  case (Cons x xs y ys)
  have "list_all2 (\<lambda>c d. d = c \<or> (c = CHR ''/'' \<and> d = CHR 0x5C)) (x # xs) (y # ys)"
    using Cons.hyps by simp
  from list_all2_takeI [OF this, of "length pat"]
  have "separated (take (length pat) (x # xs)) (take (length pat) (y # ys))" by (simp add: separated_def)
  from separated_eq [OF this] have "take (length pat) (y # ys) = pat \<longleftrightarrow> take (length pat) (x # xs) = pat"
    using assms by metis
  then show ?case using Cons.IH by simp
qed simp

lemma normalize_keeps_pattern:
  assumes "CHR ''/'' \<notin> set pat" and "CHR 0x5C \<notin> set pat"
  shows "contains_sub pat (normalize_verbatim_path_separators s) = contains_sub pat s"
proof -
  have slashes: "separated s (backslashed s)" for s
    by (induction s) (auto simp: separated_def backslashed_def)
  have "separated s (normalize_verbatim_path_separators s)"
  proof (induction s)
    case (Cons c cs)
    have "separated (c # cs) (c # normalize_verbatim_path_separators cs)" using Cons.IH by (simp add: separated_def)
    with slashes [of "c # cs"] show ?case unfolding normalize_verbatim_Cons by (simp only: if_split simp_thms)
  qed (simp add: separated_def)
  then show ?thesis by (rule contains_separated [OF assms])
qed

text \<open>A leased directory is looked for in the argument as it was given.\<close>

lemma contains_temp_placeholder:
  "list_all segment_ok segs \<Longrightarrow> CHR ''}'' \<notin> set n \<Longrightarrow>
   contains_sub (temp_placeholder n) (render_segments segs) \<longleftrightarrow> Temp_ref n \<in> set segs"
proof (induction segs)
  case Nil
  then show ?case by (simp add: render_segments_def temp_placeholder_def)
next
  case (Cons seg segs)
  let ?r = "render_segments segs"
  have lit: "contains_sub (temp_placeholder n) (s @ ?r) = contains_sub (temp_placeholder n) ?r" if "unopened s" for s
    using contains_sub_plain [of "CHR ''t''" s "''emp:'' @ n @ ''}''" ?r] that by (simp add: placeholder_shape)
  have brace: "contains_sub (temp_placeholder n) (CHR ''{'' # s @ ?r) \<longleftrightarrow>
      take (length (temp_placeholder n)) (CHR ''{'' # s @ ?r) = temp_placeholder n \<or>
      contains_sub (temp_placeholder n) ?r" if "unopened s" for s
    using lit [OF that] by simp
  have r: "render_segments (seg # segs) = render_segment seg @ ?r" by (simp add: render_segments_def)
  show ?case
  proof (cases seg)
    case (Lit s)
    then show ?thesis unfolding r using Cons lit by simp
  next
    case (Port_ref m)
    then have m: "unopened (''port:'' @ m @ ''}'')" "CHR ''}'' \<notin> set m"
      using Cons.prems placeholder_tail_plain(1) [of m] by simp_all
    have "port_placeholder m @ ?r = CHR ''{'' # (''port:'' @ m @ ''}'') @ ?r" by (simp add: port_placeholder_def)
    then show ?thesis unfolding r
      using Cons Port_ref brace [OF m(1)] placeholder_match(4) [OF Cons.prems(2) m(2), of ?r] by simp
  next
    case (Temp_ref m)
    then have m: "unopened (''temp:'' @ m @ ''}'')" "CHR ''}'' \<notin> set m"
      using Cons.prems placeholder_tail_plain(2) [of m] by simp_all
    have "temp_placeholder m @ ?r = CHR ''{'' # (''temp:'' @ m @ ''}'') @ ?r" by (simp add: temp_placeholder_def)
    then show ?thesis unfolding r
      using Cons Temp_ref brace [OF m(1)] placeholder_match(2) [OF Cons.prems(2) m(2), of ?r] by simp
  qed
qed

text \<open>An argument names a directory that is leased.\<close>

definition uses_directory :: "segment list \<Rightarrow> (string \<times> string) list \<Rightarrow> bool" where
  "uses_directory segs temps \<longleftrightarrow> (\<exists>n\<in>fst ` set temps. Temp_ref n \<in> set segs)"

section \<open>The argument as a whole\<close>

lemma replaced_text:
  assumes "list_all segment_ok segs" and "entries_ok ports" and "entries_ok temps"
  defines "filled \<equiv> map (\<lambda>s. fill_temps temps (fill_ports ports s)) segs"
  shows "replace_placeholders windows (render_segments segs) ports temps =
    (if (\<exists>n. Port_ref n \<in> set filled) \<or> (\<exists>n. Temp_ref n \<in> set filled)
     then Inl (usage (''argument contains an unknown or unterminated lease placeholder: '' @
       render_segments segs))
     else Inr (if windows \<and> uses_directory segs temps
       then normalize_verbatim_path_separators (render_segments filled) else render_segments filled))"
proof -
  note p = fold_ports [OF assms(2,1)]
  note t = fold_temps [OF assms(3) p [THEN conjunct2]]
  have ok: "list_all segment_ok filled" using t by (simp add: filled_def comp_def)
  let ?used = "list_ex (\<lambda>(name, _). contains_sub (temp_placeholder name) (render_segments segs)) temps"
  have "contains_sub (temp_placeholder n) (render_segments segs) \<longleftrightarrow> Temp_ref n \<in> set segs"
    if "(n, v) \<in> set temps" for n v
    using contains_temp_placeholder [OF assms(1)] that assms(3) by (auto simp: entries_ok_def list_all_iff)
  then have used: "?used \<longleftrightarrow> uses_directory segs temps"
    by (force simp: uses_directory_def list_ex_iff)
  note kept = normalize_keeps_pattern [of "''{port:''" "render_segments filled"]
    normalize_keeps_pattern [of "''{temp:''" "render_segments filled"]
  show ?thesis
    using p t contains_port_segments [OF ok] contains_temp_segments [OF ok] kept
    by (simp add: replace_placeholders_def used Let_def filled_def comp_def)
qed

lemma filled_refs:
  "(\<exists>n. Port_ref n \<in> (\<lambda>s. fill_temps temps (fill_ports ports s)) ` set segs) \<or>
   (\<exists>n. Temp_ref n \<in> (\<lambda>s. fill_temps temps (fill_ports ports s)) ` set segs) \<longleftrightarrow>
   \<not> list_all (\<lambda>s. resolve ports temps s \<noteq> None) segs"
proof -
  have "(\<exists>n. fill_temps temps (fill_ports ports s) = Port_ref n) \<or>
      (\<exists>n. fill_temps temps (fill_ports ports s) = Temp_ref n) \<longleftrightarrow> resolve ports temps s = None" for s
    by (cases s) (auto simp: fill_ports_Port_ref fill_temps_Temp_ref split: option.splits)
  then show ?thesis unfolding list_all_iff image_iff by metis
qed

lemma filled_text:
  "list_all (\<lambda>s. resolve ports temps s \<noteq> None) segs \<Longrightarrow>
   render_segments (map (\<lambda>s. fill_temps temps (fill_ports ports s)) segs) =
     concat (map (\<lambda>s. the (resolve ports temps s)) segs)"
  by (induction segs) (auto simp: render_segments_def filled_segment)

text \<open>
  C32: substituting the leased ports and directories in an argument, on every platform. For an argument
  read as literals and references, where no literal opens a placeholder and neither do the values of the
  leases, nor a brace occurs in a name, the code's successive textual replacements give the simultaneous
  substitution of every reference by its value; on Windows, when the argument names a leased directory,
  the slashes from the first verbatim path prefix on become backslashes, and nothing else changes. When
  a reference has no lease the result is a usage error that quotes the argument.
\<close>

theorem replace_placeholders_correct:
  assumes "list_all segment_ok segs" and "entries_ok ports" and "entries_ok temps"
  defines "substituted \<equiv> concat (map (\<lambda>s. the (resolve ports temps s)) segs)"
  shows "if list_all (\<lambda>s. resolve ports temps s \<noteq> None) segs
    then \<exists>t. replace_placeholders windows (render_segments segs) ports temps = Inr t \<and>
      (if windows \<and> uses_directory segs temps then verbatim_separated substituted t else t = substituted)
    else replace_placeholders windows (render_segments segs) ports temps =
      Inl (usage (''argument contains an unknown or unterminated lease placeholder: '' @ render_segments segs))"
  using replaced_text [OF assms(1-3), of windows] filled_refs [where ports = ports and temps = temps and segs = segs]
    filled_text [of ports temps segs] normalize_separated [of substituted]
  unfolding substituted_def by simp

theorem replace_placeholders_correct_witness:
  "replace_placeholders False ''127.0.0.1:{port:web}:{temp:build}''
     [(''web'', ''43123'')] [(''build'', ''/tmp/build'')] = Inr ''127.0.0.1:43123:/tmp/build'' \<and>
   (\<exists>t. replace_placeholders True ''{temp:build}/log''  [] [(''build'', verbatim_prefix @ ''C:'')] = Inr t \<and>
     verbatim_separated (verbatim_prefix @ ''C:/log'') t)"
  using replace_placeholders_correct
    [of "[Lit ''127.0.0.1:'', Port_ref ''web'', Lit '':'', Temp_ref ''build'']"
      "[(''web'', ''43123'')]" "[(''build'', ''/tmp/build'')]" False]
    replace_placeholders_correct
    [of "[Temp_ref ''build'', Lit ''/log'']" "[]" "[(''build'', verbatim_prefix @ ''C:'')]" True]
  by (simp add: entries_ok_def render_segments_def port_placeholder_def temp_placeholder_def uses_directory_def)

end
