(* ===== verification/Leases.thy ===== *)
theory Leases
  imports Port_Safety Placeholders
begin

text \<open>
  \<open>LeaseAllocation\<close> of \<^verbatim>\<open>src/leases.rs\<close>: what a supervisor acquires before it starts the
  process, hands off, and releases. The ports come from the registry (\<open>Registry\<close>), the
  directories are created on the world, and \<open>populate_state\<close> writes both into the run state, the
  environment, the arguments and the readiness checks. A path in the state is its text; whether
  it is UTF-8 is an argument. The loops that report the first error of an element are \<open>mapE\<close>.
\<close>

section \<open>Temporary directories\<close>

fun create_named_dirs ::
  "path \<Rightarrow> (string \<times> path) list \<Rightarrow> string list \<Rightarrow> world \<Rightarrow> world \<times> (app_error + (string \<times> path) list)" where
  "create_named_dirs root paths [] w = (w, Inr paths)"
| "create_named_dirs root paths (name # names) w =
     thenW (create_new_private_dir (root @ [name]) w) (\<lambda>_ w.
       create_named_dirs root (btree_insert name (root @ [name]) paths) names w)"

definition create_temp_directories ::
  "path \<Rightarrow> string list \<Rightarrow> world \<Rightarrow> world \<times> (app_error + (string \<times> path) list)" where
  "create_temp_directories dir names w =
     (if names = [] then (w, Inr [])
      else thenW (create_private_dirs dir [''resources'', ''temp''] w) (\<lambda>_ w.
        create_named_dirs (dir @ [''resources'', ''temp'']) [] names w))"

section \<open>The allocation\<close>

record lease_allocation =
  la_run_id :: string
  la_ports :: "reserved_port list"
  la_environment :: "(string \<times> string) list"
  la_registry_released :: bool

definition port_values :: "reserved_port list \<Rightarrow> (string \<times> string) list" where
  "port_values ports = btree_of (map (\<lambda>r. (rp_name r, show_word (rp_port r))) ports)"

definition temp_values :: "(string \<Rightarrow> bool) \<Rightarrow> (string \<times> path) list \<Rightarrow> app_error + (string \<times> string) list" where
  "temp_values utf8 temp_paths =
     mapE (\<lambda>(name, path).
       if utf8 (display path) then Inr (name, display path)
       else Inl (operational ''lease_path'' (''temporary lease path is not UTF-8: '' @ display path)))
     temp_paths"

definition local_address :: "string \<Rightarrow> string" where
  "local_address port = ''127.0.0.1:'' @ port"

definition fill_port_lease :: "reserved_port list \<Rightarrow> u64 \<Rightarrow> port_lease \<Rightarrow> app_error + port_lease" where
  "fill_port_lease ports acquired_at lease =
     bindE (ok_or (find (\<lambda>r. rp_name r = pl_name lease) ports)
       (integrity ''port lease state does not match requests'')) (\<lambda>reserved.
     Inr (lease\<lparr>pl_address := Some (local_address (show_word (rp_port reserved))),
       pl_port := Some (rp_port reserved), pl_acquired_at_ms := Some acquired_at\<rparr>))"

definition fill_temp_lease ::
  "(string \<times> path) list \<Rightarrow> u64 \<Rightarrow> temp_directory_lease \<Rightarrow> app_error + temp_directory_lease" where
  "fill_temp_lease temp_paths acquired_at lease =
     bindE (ok_or (map_of temp_paths (td_name lease))
       (integrity ''temporary-directory lease state does not match requests'')) (\<lambda>path.
     Inr (lease\<lparr>td_path := Some (display path), td_acquired_at_ms := Some acquired_at\<rparr>))"

text \<open>What a filled lease adds to the environment of the process.\<close>

definition port_variable :: "port_lease \<Rightarrow> string \<times> string" where
  "port_variable lease =
     (environment_name ''PORT'' (pl_name lease), case pl_port lease of None \<Rightarrow> [] | Some p \<Rightarrow> show_word p)"

definition temp_variable :: "temp_directory_lease \<Rightarrow> string \<times> string" where
  "temp_variable lease =
     (environment_name ''TEMP'' (td_name lease), case td_path lease of None \<Rightarrow> [] | Some p \<Rightarrow> p)"

definition point_check :: "(string \<times> string) list \<Rightarrow> readiness_check \<Rightarrow> app_error + readiness_check" where
  "point_check ports check =
     (case ck_condition check of
        PortLease name \<Rightarrow>
          bindE (ok_or (map_of ports name)
            (integrity (''readiness references unknown port lease '' @ name))) (\<lambda>port.
          Inr (check\<lparr>ck_condition := Tcp (local_address port)\<rparr>))
      | _ \<Rightarrow> Inr check)"

definition populate_state ::
  "bool \<Rightarrow> (string \<Rightarrow> bool) \<Rightarrow> u64 \<Rightarrow> (string \<times> path) list \<Rightarrow> lease_allocation \<Rightarrow> run_state \<Rightarrow>
   app_error + run_state \<times> lease_allocation" where
  "populate_state windows utf8 acquired_at temp_paths alloc st =
     (let ports = port_values (la_ports alloc) in
      bindE (temp_values utf8 temp_paths) (\<lambda>temps.
      bindE (mapE (fill_port_lease (la_ports alloc) acquired_at) (ls_ports (rs_leases st))) (\<lambda>port_leases.
      bindE (mapE (fill_temp_lease temp_paths acquired_at) (ls_temp_directories (rs_leases st)))
        (\<lambda>temp_leases.
      let variables = map port_variable port_leases @ map temp_variable temp_leases;
          cmd = rs_command st; environment = cmd_environment cmd in
      bindE (mapE (\<lambda>argument. replace_placeholders windows argument ports temps) (cmd_args cmd)) (\<lambda>args.
      bindE (mapE (point_check ports) (rd_checks (rs_readiness st))) (\<lambda>checks.
      Inr (st\<lparr>rs_leases := \<lparr>ls_ports = port_leases, ls_temp_directories = temp_leases\<rparr>,
             rs_command := cmd\<lparr>cmd_args := args,
               cmd_environment := environment\<lparr>env_injected_names :=
                 remdups_adj (sort (env_injected_names environment @ map fst variables))\<rparr>\<rparr>,
             rs_readiness := (rs_readiness st)\<lparr>rd_checks := checks\<rparr>\<rparr>,
           alloc\<lparr>la_environment := la_environment alloc @ variables\<rparr>)))))))"

definition release_registry ::
  "'u ulid_lib \<Rightarrow> port_registry json_codec \<Rightarrow> path \<Rightarrow> lease_allocation \<Rightarrow> world \<Rightarrow>
   world \<times> (app_error + lease_allocation)" where
  "release_registry L J root alloc w =
     (if la_registry_released alloc then (w, Inr alloc)
      else thenW (release_run L J root (la_run_id alloc) w) (\<lambda>_ w.
        (w, Inr (alloc\<lparr>la_registry_released := True\<rparr>))))"

text \<open>Dropping an allocation releases it when that has not been done, and ignores a failure.\<close>

definition drop_allocation ::
  "'u ulid_lib \<Rightarrow> port_registry json_codec \<Rightarrow> path \<Rightarrow> lease_allocation \<Rightarrow> world \<Rightarrow> world" where
  "drop_allocation L J root alloc w = fst (release_registry L J root alloc w)"

definition acquire_leases ::
  "'u ulid_lib \<Rightarrow> port_registry json_codec \<Rightarrow> bool \<Rightarrow> (string \<Rightarrow> bool) \<Rightarrow> (nat \<Rightarrow> io_error + u16) \<Rightarrow>
   (string \<Rightarrow> u64) \<Rightarrow> u64 \<Rightarrow> path \<Rightarrow> path \<Rightarrow> run_state \<Rightarrow> lease_requests \<Rightarrow> world \<Rightarrow>
   world \<times> (app_error + run_state \<times> lease_allocation)" where
  "acquire_leases L J windows utf8 bind now acquired_at root dir st requests w =
     (case bindE (canonical_run_id L (rs_run_id st)) (\<lambda>run_id.
           bindE (validate_names (lr_port_names requests)) (\<lambda>_.
           bindE (validate_names (lr_temp_directory_names requests)) (\<lambda>_. Inr run_id))) of
        Inl e \<Rightarrow> (w, Inl e)
      | Inr run_id \<Rightarrow>
          thenW (create_temp_directories dir (lr_temp_directory_names requests) w) (\<lambda>temp_paths w.
          thenW (reserve_ports L J bind now root run_id (lr_port_names requests) w) (\<lambda>ports w.
            let alloc = \<lparr>la_run_id = run_id, la_ports = ports, la_environment = [],
                         la_registry_released = False\<rparr> in
            case populate_state windows utf8 acquired_at temp_paths alloc st of
              Inr result \<Rightarrow> (w, Inr result)
            | Inl e \<Rightarrow>
                (case release_registry L J root alloc w of
                   (w, Inr alloc) \<Rightarrow> (drop_allocation L J root alloc w, Inl e)
                 | (w, Inl _) \<Rightarrow> (drop_allocation L J root alloc w, Inl e)))))"

text \<open>\<open>find\<close> on a mutable iterator: the first lease of that name is changed.\<close>

fun mark_handoff :: "u64 \<Rightarrow> string \<Rightarrow> port_lease list \<Rightarrow> port_lease list" where
  "mark_handoff at name [] = []"
| "mark_handoff at name (lease # leases) =
     (if pl_name lease = name then lease\<lparr>pl_handoff_at_ms := Some at\<rparr> # leases
      else lease # mark_handoff at name leases)"

definition set_port_leases :: "(port_lease list \<Rightarrow> port_lease list) \<Rightarrow> run_state \<Rightarrow> run_state" where
  "set_port_leases f st = st\<lparr>rs_leases := (rs_leases st)\<lparr>ls_ports := f (ls_ports (rs_leases st))\<rparr>\<rparr>"

definition handoff :: "u64 \<Rightarrow> lease_allocation \<Rightarrow> run_state \<Rightarrow> lease_allocation \<times> run_state" where
  "handoff at alloc st =
     (alloc\<lparr>la_ports := map (\<lambda>r. r\<lparr>rp_listener := False\<rparr>) (la_ports alloc)\<rparr>,
      set_port_leases (\<lambda>leases. foldl (\<lambda>ls r. mark_handoff at (rp_name r) ls) leases (la_ports alloc)) st)"

definition record_spawn :: "u64 \<Rightarrow> run_state \<Rightarrow> run_state" where
  "record_spawn spawned_at =
     set_port_leases (map (\<lambda>lease. case pl_handoff_at_ms lease of
         None \<Rightarrow> lease
       | Some at \<Rightarrow> lease\<lparr>pl_handoff_gap_ms := Some (sat_sub spawned_at at)\<rparr>))"

definition mark_released :: "u64 \<Rightarrow> run_state \<Rightarrow> run_state" where
  "mark_released at st = st\<lparr>rs_leases :=
     \<lparr>ls_ports = map (\<lambda>l. l\<lparr>pl_released_at_ms := Some at\<rparr>) (ls_ports (rs_leases st)),
      ls_temp_directories =
        map (\<lambda>l. l\<lparr>td_released_at_ms := Some at\<rparr>) (ls_temp_directories (rs_leases st))\<rparr>\<rparr>"

definition release_leases ::
  "'u ulid_lib \<Rightarrow> port_registry json_codec \<Rightarrow> u64 \<Rightarrow> path \<Rightarrow> lease_allocation \<Rightarrow> run_state \<Rightarrow> world \<Rightarrow>
   world \<times> (app_error + run_state \<times> lease_allocation)" where
  "release_leases L J released_at root alloc st w =
     thenW (release_registry L J root alloc w) (\<lambda>alloc w.
       (w, Inr (mark_released released_at st, alloc)))"

section \<open>What populating the state gives\<close>

lemma map_of_port_values:
  "distinct (map rp_name ports) \<Longrightarrow>
   map_of (port_values ports) = map_of (map (\<lambda>r. (rp_name r, show_word (rp_port r))) ports)"
  unfolding port_values_def by (rule map_of_btree_of_distinct) (simp add: comp_def)

lemma port_value_reserved:
  assumes "map_of (port_values ports) name = Some v"
  shows "\<exists>r\<in>set ports. rp_name r = name \<and> v = show_word (rp_port r)"
proof -
  have "map_of (rev (map (\<lambda>r. (rp_name r, show_word (rp_port r))) ports)) name = Some v"
    using assms by (simp add: port_values_def map_of_btree_of)
  then show ?thesis by (auto dest!: map_of_SomeD)
qed

definition leased_at :: "reserved_port list \<Rightarrow> u64 \<Rightarrow> port_lease \<Rightarrow> port_lease \<Rightarrow> bool" where
  "leased_at ports at old new \<longleftrightarrow>
     (\<exists>r\<in>set ports. rp_name r = pl_name old \<and> new = old\<lparr>
        pl_address := Some (local_address (show_word (rp_port r))), pl_port := Some (rp_port r),
        pl_acquired_at_ms := Some at\<rparr>)"

definition leased_in :: "(string \<times> path) list \<Rightarrow> u64 \<Rightarrow> temp_directory_lease \<Rightarrow> temp_directory_lease \<Rightarrow> bool" where
  "leased_in temp_paths at old new \<longleftrightarrow>
     (\<exists>path. map_of temp_paths (td_name old) = Some path \<and>
        new = old\<lparr>td_path := Some (display path), td_acquired_at_ms := Some at\<rparr>)"

text \<open>The arguments of the process have the values of the leases in the place of the references.\<close>

definition filled_in ::
  "bool \<Rightarrow> (string \<Rightarrow> bool) \<Rightarrow> reserved_port list \<Rightarrow> (string \<times> path) list \<Rightarrow> string \<Rightarrow> string \<Rightarrow> bool" where
  "filled_in windows utf8 ports temp_paths old new \<longleftrightarrow>
     (\<exists>temps. temp_values utf8 temp_paths = Inr temps \<and>
        replace_placeholders windows old (port_values ports) temps = Inr new)"

text \<open>A check of a port lease becomes a TCP check of the port reserved under that name.\<close>

definition pointed :: "reserved_port list \<Rightarrow> readiness_check \<Rightarrow> readiness_check \<Rightarrow> bool" where
  "pointed ports old new \<longleftrightarrow>
     (case ck_condition old of
        PortLease name \<Rightarrow> \<exists>r\<in>set ports. rp_name r = name \<and>
          new = old\<lparr>ck_condition := Tcp (local_address (show_word (rp_port r)))\<rparr>
      | _ \<Rightarrow> new = old)"

lemma fill_port_lease_Inr: "fill_port_lease ports at l = Inr l' \<Longrightarrow> leased_at ports at l l'"
  by (auto simp: fill_port_lease_def leased_at_def res_simps find_Some_iff)

lemma fill_temp_lease_Inr: "fill_temp_lease paths at l = Inr l' \<Longrightarrow> leased_in paths at l l'"
  by (auto simp: fill_temp_lease_def leased_in_def res_simps)

lemma point_check_Inr: "point_check (port_values ports) c = Inr c' \<Longrightarrow> pointed ports c c'"
  by (auto simp: point_check_def pointed_def res_simps dest!: port_value_reserved
      split: readiness_condition.splits)

lemma mapE_list_all2:
  "mapE f xs = Inr ys \<Longrightarrow> (\<And>x y. f x = Inr y \<Longrightarrow> P x y) \<Longrightarrow> list_all2 P xs ys"
  by (auto simp: mapE_Inr elim!: list_all2_mono)

lemma sorted_dedup: "sorted xs \<Longrightarrow> sorted_wrt (<) (remdups_adj xs)" for xs :: "'a::linorder list"
  by (induction xs rule: remdups_adj.induct) (auto simp: order_le_less order.strict_trans2)

text \<open>What a successful populating has read and made.\<close>

lemma populate_state_Inr:
  assumes "populate_state windows utf8 at temp_paths alloc st = Inr (st', alloc')"
  obtains pls tls checks temps where
    "mapE (fill_port_lease (la_ports alloc) at) (ls_ports (rs_leases st)) = Inr pls"
    "mapE (fill_temp_lease temp_paths at) (ls_temp_directories (rs_leases st)) = Inr tls"
    "mapE (point_check (port_values (la_ports alloc))) (rd_checks (rs_readiness st)) = Inr checks"
    "temp_values utf8 temp_paths = Inr temps"
    "mapE (\<lambda>argument. replace_placeholders windows argument (port_values (la_ports alloc)) temps)
      (cmd_args (rs_command st)) = Inr (cmd_args (rs_command st'))"
    "rs_leases st' = \<lparr>ls_ports = pls, ls_temp_directories = tls\<rparr>"
    "rd_checks (rs_readiness st') = checks"
    "env_injected_names (cmd_environment (rs_command st')) =
      remdups_adj (sort (env_injected_names (cmd_environment (rs_command st)) @
        map fst (map port_variable pls @ map temp_variable tls)))"
    "la_environment alloc' = la_environment alloc @ map port_variable pls @ map temp_variable tls"
  using assms by (auto simp: populate_state_def Let_def res_simps)

text \<open>
  C34: every lease reaches the process. When populating succeeds, each port lease carries a port that was
  reserved under its name and each directory lease the path that was created for its name, one for one and in
  order; the environment gets a variable for each of them, with that value, and the recorded names of the
  injected variables are exactly the old ones and these, sorted without repetitions; every argument has the
  values in the place of its references; and no readiness check refers to a lease any more: each has become
  a TCP check of the port reserved under its name.
\<close>

theorem leases_populated:
  assumes "populate_state windows utf8 at temp_paths alloc st = Inr (st', alloc')"
  shows "list_all2 (leased_at (la_ports alloc) at) (ls_ports (rs_leases st)) (ls_ports (rs_leases st')) \<and>
    list_all2 (leased_in temp_paths at) (ls_temp_directories (rs_leases st)) (ls_temp_directories (rs_leases st')) \<and>
    la_environment alloc' = la_environment alloc @ map port_variable (ls_ports (rs_leases st')) @
      map temp_variable (ls_temp_directories (rs_leases st')) \<and>
    list_all2 (filled_in windows utf8 (la_ports alloc) temp_paths) (cmd_args (rs_command st)) (cmd_args (rs_command st')) \<and>
    list_all2 (pointed (la_ports alloc)) (rd_checks (rs_readiness st)) (rd_checks (rs_readiness st')) \<and>
    (\<forall>c\<in>set (rd_checks (rs_readiness st')). \<forall>name. ck_condition c \<noteq> PortLease name) \<and>
    sorted_wrt (<) (env_injected_names (cmd_environment (rs_command st'))) \<and>
    set (env_injected_names (cmd_environment (rs_command st'))) =
      set (env_injected_names (cmd_environment (rs_command st))) \<union>
      fst ` (port_variable ` set (ls_ports (rs_leases st')) \<union> temp_variable ` set (ls_temp_directories (rs_leases st')))"
proof -
  obtain pls tls checks temps where
    pls: "mapE (fill_port_lease (la_ports alloc) at) (ls_ports (rs_leases st)) = Inr pls"
    and tls: "mapE (fill_temp_lease temp_paths at) (ls_temp_directories (rs_leases st)) = Inr tls"
    and checks: "mapE (point_check (port_values (la_ports alloc))) (rd_checks (rs_readiness st)) = Inr checks"
    and temps: "temp_values utf8 temp_paths = Inr temps"
    and args: "mapE (\<lambda>argument. replace_placeholders windows argument (port_values (la_ports alloc)) temps)
      (cmd_args (rs_command st)) = Inr (cmd_args (rs_command st'))"
    and st': "rs_leases st' = \<lparr>ls_ports = pls, ls_temp_directories = tls\<rparr>"
      "rd_checks (rs_readiness st') = checks"
      "env_injected_names (cmd_environment (rs_command st')) =
        remdups_adj (sort (env_injected_names (cmd_environment (rs_command st)) @
          map fst (map port_variable pls @ map temp_variable tls)))"
    and alloc': "la_environment alloc' = la_environment alloc @ map port_variable pls @ map temp_variable tls"
    by (rule populate_state_Inr [OF assms])
  note lp = mapE_list_all2 [OF pls fill_port_lease_Inr] and lt = mapE_list_all2 [OF tls fill_temp_lease_Inr]
  have lc: "list_all2 (pointed (la_ports alloc)) (rd_checks (rs_readiness st)) checks"
    by (rule mapE_list_all2 [OF checks point_check_Inr])
  have none: "ck_condition c \<noteq> PortLease name" if "c \<in> set checks" for c name
  proof -
    obtain i where "i < length checks" "c = checks ! i" using \<open>c \<in> set checks\<close> by (auto simp: in_set_conv_nth)
    then have "pointed (la_ports alloc) (rd_checks (rs_readiness st) ! i) c"
      using list_all2_nthD2 [OF lc] by simp
    then show ?thesis by (auto simp: pointed_def split: readiness_condition.splits)
  qed
  have "sorted_wrt (<) (env_injected_names (cmd_environment (rs_command st')))"
    unfolding st' by (rule sorted_dedup) simp
  moreover have "set (env_injected_names (cmd_environment (rs_command st'))) =
      set (env_injected_names (cmd_environment (rs_command st))) \<union>
      fst ` (port_variable ` set pls \<union> temp_variable ` set tls)"
    unfolding st' by (simp add: image_Un image_comp)
  moreover have "list_all2 (filled_in windows utf8 (la_ports alloc) temp_paths) (cmd_args (rs_command st)) (cmd_args (rs_command st'))"
    by (rule mapE_list_all2 [OF args]) (simp add: filled_in_def temps)
  ultimately show ?thesis using lp lt lc none unfolding st' alloc' lease_state.select_convs by (intro conjI ballI allI) simp_all
qed

definition leasing_run :: run_state where
  "leasing_run = example_run\<lparr>rs_leases := lease_state_requested [''web''] [''work''],
     rs_readiness := readiness_state_new [PortLease ''web''] 1000 0\<rparr>"

definition leasing_allocation :: lease_allocation where
  "leasing_allocation =
     \<lparr>la_run_id = rs_run_id example_run,
      la_ports = [\<lparr>rp_name = ''web'', rp_port = 4000, rp_listener = True\<rparr>],
      la_environment = [], la_registry_released = False\<rparr>"

lemma leasing_run_populated:
  "\<exists>st alloc. populate_state False (\<lambda>_. True) 7 [(''work'', [''tmp'', ''work''])] leasing_allocation leasing_run =
     Inr (st, alloc)"
  by (simp add: populate_state_def leasing_run_def leasing_allocation_def example_run_def example_state_def
      lease_state_requested_def port_lease_new_def temp_directory_lease_new_def temp_values_def
      fill_port_lease_def fill_temp_lease_def port_values_def btree_of_def readiness_state_new_def
      readiness_check_new_def point_check_def Let_def)

theorem leases_populated_witness:
  "\<exists>st alloc. populate_state False (\<lambda>_. True) 7 [(''work'', [''tmp'', ''work''])] leasing_allocation
       leasing_run = Inr (st, alloc) \<and>
     list_all2 (leased_in [(''work'', [''tmp'', ''work''])] 7) (ls_temp_directories (rs_leases leasing_run))
       (ls_temp_directories (rs_leases st)) \<and>
     la_environment alloc = map port_variable (ls_ports (rs_leases st)) @
       map temp_variable (ls_temp_directories (rs_leases st))"
proof -
  obtain st alloc where run: "populate_state False (\<lambda>_. True) 7 [(''work'', [''tmp'', ''work''])]
      leasing_allocation leasing_run = Inr (st, alloc)"
    using leasing_run_populated by blast
  have empty: "la_environment leasing_allocation = []" by (simp add: leasing_allocation_def)
  from leases_populated [OF run, unfolded empty append_Nil]
  have "list_all2 (leased_in [(''work'', [''tmp'', ''work''])] 7) (ls_temp_directories (rs_leases leasing_run))
      (ls_temp_directories (rs_leases st))"
    "la_environment alloc = map port_variable (ls_ports (rs_leases st)) @
       map temp_variable (ls_temp_directories (rs_leases st))"
    by - (elim conjE, assumption)+
  with run show ?thesis by blast
qed

section \<open>When two leases share a variable\<close>

lemma fst_variables:
  "fst (port_variable l) = environment_name ''PORT'' (pl_name l)"
  "fst (temp_variable d) = environment_name ''TEMP'' (td_name d)"
  by (simp_all add: port_variable_def temp_variable_def)

lemma variable_names:
  "map fst (map port_variable pls) = map (environment_name ''PORT'') (map pl_name pls)"
  "map fst (map temp_variable tls) = map (environment_name ''TEMP'') (map td_name tls)"
  by (simp_all add: fst_variables)

lemma populated_names:
  assumes "populate_state windows utf8 at temp_paths alloc st = Inr (st', alloc')"
  shows "map fst (la_environment alloc') = map fst (la_environment alloc) @
    map (environment_name ''PORT'') (map pl_name (ls_ports (rs_leases st))) @
    map (environment_name ''TEMP'') (map td_name (ls_temp_directories (rs_leases st)))"
proof -
  obtain pls tls where
    pls: "mapE (fill_port_lease (la_ports alloc) at) (ls_ports (rs_leases st)) = Inr pls"
    and tls: "mapE (fill_temp_lease temp_paths at) (ls_temp_directories (rs_leases st)) = Inr tls"
    and alloc': "la_environment alloc' = la_environment alloc @ map port_variable pls @ map temp_variable tls"
    by (rule populate_state_Inr [OF assms])
  have "list_all2 (\<lambda>l l'. pl_name l' = pl_name l) (ls_ports (rs_leases st)) pls"
    by (rule mapE_list_all2 [OF pls]) (auto simp: fill_port_lease_def res_simps)
  then have "map pl_name pls = map pl_name (ls_ports (rs_leases st))"
    by (induction rule: list_all2_induct) simp_all
  moreover have "list_all2 (\<lambda>l l'. td_name l' = td_name l) (ls_temp_directories (rs_leases st)) tls"
    by (rule mapE_list_all2 [OF tls]) (auto simp: fill_temp_lease_def res_simps)
  then have "map td_name tls = map td_name (ls_temp_directories (rs_leases st))"
    by (induction rule: list_all2_induct) simp_all
  ultimately show ?thesis
    by (simp only: alloc' map_append variable_names)
qed

definition no_lookalikes :: "string list \<Rightarrow> bool" where
  "no_lookalikes names \<longleftrightarrow> (\<forall>a\<in>set names. \<forall>b\<in>set names. list_all2 same_but_dashes a b \<longrightarrow> a = b)"

lemma distinct_variables:
  assumes "list_all valid_name names" and "distinct names"
  shows "distinct (map (environment_name kind) names) \<longleftrightarrow> no_lookalikes names"
  using assms by (auto simp: distinct_map inj_on_def no_lookalikes_def list_all_iff environment_name_eq)

text \<open>
  C35: the leases of a run reach the process in distinct environment variables exactly when no two
  port names, and no two directory names, differ only in dashes against underscores. The validation
  of a request does not exclude such names: two leases may share a variable, and the process sees
  one of them only.
\<close>

theorem lease_variables_distinct:
  assumes "populate_state windows utf8 at temp_paths alloc st = Inr (st', alloc')"
    and "validate_requests (map pl_name (ls_ports (rs_leases st)))
      (map td_name (ls_temp_directories (rs_leases st))) = Inr requests"
    and "la_environment alloc = []"
  shows "distinct (map fst (la_environment alloc')) \<longleftrightarrow>
    no_lookalikes (lr_port_names requests) \<and> no_lookalikes (lr_temp_directory_names requests)"
proof -
  let ?ps = "map pl_name (ls_ports (rs_leases st))" and ?ts = "map td_name (ls_temp_directories (rs_leases st))"
  have valid: "list_all valid_name ?ps" "distinct ?ps" "list_all valid_name ?ts" "distinct ?ts"
    "lr_port_names requests = ?ps" "lr_temp_directory_names requests = ?ts"
    using assms(2) by (auto simp: validate_requests_Inr)
  have "map fst (la_environment alloc') = map (environment_name ''PORT'') ?ps @ map (environment_name ''TEMP'') ?ts"
    using populated_names [OF assms(1)] assms(3) by simp
  moreover have "set (map (environment_name ''PORT'') ?ps) \<inter> set (map (environment_name ''TEMP'') ?ts) = {}"
    using environment_name_kinds by auto
  ultimately show ?thesis
    by (simp only: distinct_append distinct_variables [OF valid(1,2)] distinct_variables [OF valid(3,4)]
        valid(5,6) simp_thms)
qed

definition lookalike_run :: run_state where
  "lookalike_run = example_run\<lparr>rs_leases := lease_state_requested [''a-b'', ''a_b''] []\<rparr>"

definition lookalike_allocation :: lease_allocation where
  "lookalike_allocation =
     \<lparr>la_run_id = rs_run_id example_run,
      la_ports = [\<lparr>rp_name = ''a-b'', rp_port = 4000, rp_listener = True\<rparr>,
        \<lparr>rp_name = ''a_b'', rp_port = 4001, rp_listener = True\<rparr>],
      la_environment = [], la_registry_released = False\<rparr>"

lemma lookalike_run_populated:
  "\<exists>st alloc. populate_state False (\<lambda>_. True) 7 [] lookalike_allocation lookalike_run = Inr (st, alloc)"
  by (simp add: populate_state_def lookalike_run_def lookalike_allocation_def example_run_def example_state_def
      lease_state_requested_def port_lease_new_def temp_directory_lease_new_def temp_values_def
      fill_port_lease_def fill_temp_lease_def port_values_def btree_of_def readiness_state_new_def
      readiness_check_new_def point_check_def Let_def)

lemma lookalikes_validated:
  "validate_requests [''a-b'', ''a_b''] [] =
     Inr \<lparr>lr_port_names = [''a-b'', ''a_b''], lr_temp_directory_names = []\<rparr>"
  by code_simp

theorem lease_variables_distinct_witness:
  "\<exists>st alloc. populate_state False (\<lambda>_. True) 7 [] lookalike_allocation lookalike_run = Inr (st, alloc) \<and>
     \<not> distinct (map fst (la_environment alloc))"
proof -
  obtain st alloc where run: "populate_state False (\<lambda>_. True) 7 [] lookalike_allocation lookalike_run =
      Inr (st, alloc)"
    using lookalike_run_populated by blast
  have names: "map pl_name (ls_ports (rs_leases lookalike_run)) = [''a-b'', ''a_b'']"
    "map td_name (ls_temp_directories (rs_leases lookalike_run)) = []"
    "la_environment lookalike_allocation = []"
    by (simp_all add: lookalike_run_def lookalike_allocation_def)
  have "list_all2 same_but_dashes ''a-b'' ''a_b''"
    by (simp add: same_but_dashes_def)
  then have "\<not> no_lookalikes [''a-b'', ''a_b'']"
    by (auto simp: no_lookalikes_def)
  then have "\<not> distinct (map fst (la_environment alloc))"
    using lease_variables_distinct [OF run _ names(3), unfolded names, OF lookalikes_validated]
    by (simp only: lease_requests.simps simp_thms)
  then show ?thesis using run by blast
qed

section \<open>Releasing\<close>

text \<open>
  A successful release takes exactly the entries of its run out of the shared registry and
  touches nothing else of the world, stamps every lease of the state, and is done once: dropping
  the allocation afterwards changes nothing.
\<close>

theorem release_clears:
  assumes "registry_documented J" and "registry_usable root w" and "\<not> la_registry_released alloc"
    and "release_leases L J at root alloc st w = (w', Inr (st', alloc'))"
  shows "(\<exists>es. disk_entries J root w = Some es \<and>
      disk_entries J root w' = Some (filter (\<lambda>e. pe_run_id e \<noteq> la_run_id alloc) es)) \<and>
    same_but_registry root w w' \<and> (\<forall>v. drop_allocation L J root alloc' v = v) \<and>
    list_all (\<lambda>l. pl_released_at_ms l = Some at) (ls_ports (rs_leases st')) \<and>
    list_all (\<lambda>l. td_released_at_ms l = Some at) (ls_temp_directories (rs_leases st'))"
proof -
  from assms(3,4) have run: "release_run L J root (la_run_id alloc) w = (w', Inr ())"
    and alloc': "alloc' = alloc\<lparr>la_registry_released := True\<rparr>" and st': "st' = mark_released at st"
    by (auto simp: release_leases_def release_registry_def thenW_Inr)
  let ?f = "\<lambda>w reg. Inr (reg\<lparr>pr_entries := filter (\<lambda>e. pe_run_id e \<noteq> la_run_id alloc) (pr_entries reg)\<rparr>, ())"
  from update_registry_cases [OF run [unfolded release_run_def]]
  have same: "same_but_registry root w w'" and rep: "replaced J root ?f w w' ()" by auto
  have "\<exists>es. disk_entries J root w = Some es \<and>
      disk_entries J root w' = Some (filter (\<lambda>e. pe_run_id e \<noteq> la_run_id alloc) es)"
    by (rule replaced_entries [OF rep same assms(1,2)]) auto
  then show ?thesis
    using same by (simp add: alloc' st' drop_allocation_def release_registry_def mark_released_def list_all_iff)
qed

lemma one_run_releases:
  "\<exists>w. release_run crockford plain_registry_codec [''srv''] (rs_run_id example_run) one_run_world = (w, Inr ())"
proof -
  let ?w = "put_node [''srv'', ''port-leases.lock''] (Regular []) one_run_world"
  have ok: "attempt (put_node p n one_run_world) op q = Inr ()" "attempt one_run_world op q = Inr ()" for p n op q
    by (simp_all add: attempt_def one_run_world_def empty_world_def)
  have nodes: "node_at one_run_world [''srv''] = Some Directory"
    "node_at one_run_world [''srv'', ''port-leases.lock''] = None"
    "node_at one_run_world [''srv'', ''port-leases.json''] = None"
    by (simp_all add: node_at_def one_run_world_def lock_path_def)
  have lock: "open_registry_lock [''srv''] one_run_world = (?w, Inr ())"
    by (simp add: open_registry_lock_def create_private_file_def parent_dir_def ok nodes)
  have load: "load_registry plain_registry_codec [''srv''] ?w =
      Inr \<lparr>pr_schema_version = registry_schema, pr_entries = []\<rparr>"
    by (simp add: load_registry_def path_exists_def registry_path_def nodes)
  show ?thesis
    by (simp add: release_run_def update_registry_def lock load Let_def ok validate_registry_def
        atomic_write_json_def parent_dir_def registry_path_def nodes)
qed

theorem release_clears_witness:
  "\<exists>w es. disk_entries plain_registry_codec [''srv''] w = Some es \<and>
     (\<forall>e\<in>set es. pe_run_id e \<noteq> rs_run_id example_run) \<and> same_but_registry [''srv''] one_run_world w"
proof -
  obtain w where run: "release_run crockford plain_registry_codec [''srv''] (rs_run_id example_run)
      one_run_world = (w, Inr ())"
    using one_run_releases by blast
  have rel: "release_leases crockford plain_registry_codec 9 [''srv''] leasing_allocation leasing_run one_run_world =
      (w, Inr (mark_released 9 leasing_run, leasing_allocation\<lparr>la_registry_released := True\<rparr>))"
    by (simp add: release_leases_def release_registry_def run leasing_allocation_def)
  have usable: "registry_usable [''srv''] one_run_world"
    by (simp add: registry_usable_def attempt_def one_run_world_def empty_world_def registry_path_def
        node_at_def lock_path_def)
  have "\<not> la_registry_released leasing_allocation" "la_run_id leasing_allocation = rs_run_id example_run"
    by (simp_all add: leasing_allocation_def)
  with release_clears [OF plain_registry_codec_documented usable _ rel] show ?thesis
    by (auto intro!: exI [of _ w])
qed

end
