(* ===== verification/Readiness_Tracker.thy ===== *)
theory Readiness_Tracker
  imports Model
begin

text \<open>
  The readiness tracker of \<^verbatim>\<open>src/readiness.rs\<close>: \<open>observe_log\<close>, \<open>poll\<close>, \<open>process_exited\<close> and
  their helpers, as functions from the tracker and the readiness state to the new ones and the
  \<open>changed\<close> flag. Every reading of a clock is an argument of its own; an \<open>Instant\<close> is a number
  of nanoseconds. The outcome of probing a condition is the argument \<open>probe\<close>, which
  \<open>Readiness_Conditions\<close> supplies.

  The lemmas show that the bounded tail kept per stream loses no occurrence of a pending literal
  (a literal is found exactly when it occurs in the whole stream, whatever the chunks), that a
  reachable check is probed within one round, and how the status moves.
\<close>

type_synonym instant = nat

definition max_log_literal_bytes :: nat where
  "max_log_literal_bytes = 1024"

definition probe_interval :: nat where
  "probe_interval = 50000000"

record readiness_tracker =
  rt_last_probe :: "instant option"
  rt_next_probe_index :: nat
  rt_stdout_tail :: bytes
  rt_stderr_tail :: bytes

definition tracker_new :: readiness_tracker where
  "tracker_new =
     \<lparr>rt_last_probe = None, rt_next_probe_index = 0, rt_stdout_tail = [], rt_stderr_tail = []\<rparr>"

section \<open>Helpers\<close>

text \<open>\<open>slice::windows\<close> and the byte search built on it.\<close>

definition windows :: "nat \<Rightarrow> 'a list \<Rightarrow> 'a list list" where
  "windows k xs =
     (if k \<le> length xs then map (\<lambda>i. take k (drop i xs)) [0..<length xs - k + 1] else [])"

definition contains_bytes :: "bytes \<Rightarrow> bytes \<Rightarrow> bool" where
  "contains_bytes haystack needle \<longleftrightarrow>
     needle = [] \<or> list_ex (\<lambda>window. window = needle) (windows (length needle) haystack)"

fun stream_name :: "log_stream \<Rightarrow> string" where
  "stream_name Stdout = ''stdout''"
| "stream_name Stderr = ''stderr''"

definition finish_if_ready :: "u64 \<Rightarrow> readiness_state \<Rightarrow> readiness_state \<times> bool" where
  "finish_if_ready now st =
     (if rd_status st = RdPending \<and> list_all (\<lambda>c. ck_ready_at_ms c \<noteq> None) (rd_checks st)
      then (st\<lparr>rd_status := RdReady, rd_ready_at_ms := Some now\<rparr>, True)
      else (st, False))"

section \<open>Observing the log\<close>

fun get_tail :: "readiness_tracker \<Rightarrow> log_stream \<Rightarrow> bytes" where
  "get_tail t Stdout = rt_stdout_tail t"
| "get_tail t Stderr = rt_stderr_tail t"

fun set_tail :: "readiness_tracker \<Rightarrow> log_stream \<Rightarrow> bytes \<Rightarrow> readiness_tracker" where
  "set_tail t Stdout bs = t\<lparr>rt_stdout_tail := bs\<rparr>"
| "set_tail t Stderr bs = t\<lparr>rt_stderr_tail := bs\<rparr>"

definition observe_check ::
  "log_stream \<Rightarrow> bytes \<Rightarrow> u64 \<Rightarrow> readiness_check \<Rightarrow> readiness_check \<times> bool" where
  "observe_check stream searchable observed_at check =
     (if ck_ready_at_ms check \<noteq> None then (check, False)
      else case ck_condition check of
        Log literal \<Rightarrow>
          (if contains_bytes searchable (as_bytes literal)
           then (check\<lparr>ck_ready_at_ms := Some observed_at,
                  ck_evidence := Some (stream_name stream @
                    '' contained the configured literal at timestamp '' @ show_word observed_at)\<rparr>,
                 True)
           else (check, False))
      | _ \<Rightarrow> (check, False))"

text \<open>The loop over the checks; \<open>now i\<close> is the reading of the clock at the \<open>i\<close>th check.\<close>

fun observe_checks ::
  "log_stream \<Rightarrow> bytes \<Rightarrow> (nat \<Rightarrow> u64) \<Rightarrow> nat \<Rightarrow> readiness_check list \<Rightarrow>
   readiness_check list \<times> bool" where
  "observe_checks stream searchable now i [] = ([], False)"
| "observe_checks stream searchable now i (c # cs) =
     (let (c', changed) = observe_check stream searchable (now i) c;
          (cs', changed') = observe_checks stream searchable now (Suc i) cs
      in (c' # cs', changed \<or> changed'))"

fun pending_tail :: "readiness_check \<Rightarrow> nat option" where
  "pending_tail check =
     (case ck_condition check of
        Log literal \<Rightarrow> (if ck_ready_at_ms check = None then Some (length literal - 1) else None)
      | _ \<Rightarrow> None)"

declare pending_tail.simps [simp del]

definition max_tail :: "readiness_check list \<Rightarrow> nat" where
  "max_tail checks =
     min (foldr max (List.map_filter pending_tail checks) 0) (max_log_literal_bytes - 1)"

definition observe_log ::
  "(nat \<Rightarrow> u64) \<Rightarrow> u64 \<Rightarrow> log_stream \<Rightarrow> bytes \<Rightarrow> readiness_tracker \<Rightarrow> readiness_state \<Rightarrow>
   readiness_tracker \<times> readiness_state \<times> bool" where
  "observe_log now finished_at stream bs t st =
     (if rd_status st \<noteq> RdPending then (t, st, False)
      else
        let searchable = get_tail t stream @ bs;
            (checks, changed) = observe_checks stream searchable now 0 (rd_checks st);
            st = st\<lparr>rd_checks := checks\<rparr>;
            keep = min (length searchable) (max_tail checks);
            t = set_tail t stream (drop (length searchable - keep) searchable);
            (st, completed) = finish_if_ready finished_at st
        in (t, st, changed \<or> completed))"

section \<open>Polling the external checks\<close>

fun external :: "readiness_condition \<Rightarrow> bool" where
  "external (Log literal) = False"
| "external (PortLease name) = False"
| "external c = True"

definition awaits_probe :: "readiness_check \<Rightarrow> bool" where
  "awaits_probe check \<longleftrightarrow> ck_ready_at_ms check = None \<and> external (ck_condition check)"

definition next_external_check :: "readiness_tracker \<Rightarrow> readiness_state \<Rightarrow> nat option" where
  "next_external_check t st =
     (let count = length (rd_checks st) in
      find (\<lambda>index. awaits_probe (rd_checks st ! index))
        (map (\<lambda>offset. (rt_next_probe_index t + offset) mod count) [0..<count]))"

record poll_clock =
  pk_now_ms :: u64
  pk_elapsed_at :: instant
  pk_probe_at :: instant
  pk_observed_at_ms :: u64
  pk_finished_at_ms :: u64

definition poll ::
  "poll_clock \<Rightarrow> (readiness_condition \<Rightarrow> string option) \<Rightarrow> readiness_tracker \<Rightarrow> readiness_state \<Rightarrow>
   readiness_tracker \<times> readiness_state \<times> bool" where
  "poll k probe t st =
     (if rd_status st \<noteq> RdPending then (t, st, False)
      else if (case rd_deadline_at_ms st of None \<Rightarrow> False | Some deadline \<Rightarrow> deadline \<le> pk_now_ms k)
      then (t, st\<lparr>rd_status := RdTimedOut, rd_failure_reason := Some ''readiness_timeout''\<rparr>, True)
      else if (case rt_last_probe t of None \<Rightarrow> False
               | Some previous \<Rightarrow> pk_elapsed_at k - previous < probe_interval)
      then (t, st, False)
      else
        let t = t\<lparr>rt_last_probe := Some (pk_probe_at k)\<rparr> in
        case next_external_check t st of
          None \<Rightarrow> (let (st, completed) = finish_if_ready (pk_finished_at_ms k) st in (t, st, completed))
        | Some index \<Rightarrow>
            let t = t\<lparr>rt_next_probe_index := index + 1\<rparr> in
            (case probe (ck_condition (rd_checks st ! index)) of
               Some evidence \<Rightarrow>
                 (let st = st\<lparr>rd_checks := (rd_checks st)[index :=
                        (rd_checks st ! index)\<lparr>ck_ready_at_ms := Some (pk_observed_at_ms k),
                          ck_evidence := Some evidence\<rparr>]\<rparr>;
                      (st, _) = finish_if_ready (pk_finished_at_ms k) st
                  in (t, st, True))
             | None \<Rightarrow> (t, st, False)))"

definition process_exited :: "readiness_state \<Rightarrow> readiness_state \<times> bool" where
  "process_exited st =
     (if rd_status st \<noteq> RdPending then (st, False)
      else (st\<lparr>rd_status := RdFailed, rd_failure_reason := Some ''process_exited_before_ready''\<rparr>,
            True))"

section \<open>The byte search\<close>

lemma windows_mem: "k \<le> length xs \<Longrightarrow> w \<in> set (windows k xs) \<longleftrightarrow> length w = k \<and> sublist w xs"
proof -
  assume k: "k \<le> length xs"
  show ?thesis
  proof
    assume "w \<in> set (windows k xs)"
    then obtain i where i: "i < length xs - k + 1" "w = take k (drop i xs)"
      using k by (auto simp: windows_def simp del: upt_Suc)
    then have "length w = k" using k by simp
    moreover have "xs = take i xs @ w @ drop k (drop i xs)" unfolding i(2)
      by (metis append_take_drop_id)
    ultimately show "length w = k \<and> sublist w xs" by (metis sublist_appendI)
  next
    assume w: "length w = k \<and> sublist w xs"
    then obtain ps ss where xs: "xs = ps @ w @ ss" by (auto simp: sublist_def)
    then have "w = take k (drop (length ps) xs)" and "length ps < length xs - k + 1"
      using w by auto
    then show "w \<in> set (windows k xs)"
      using k by (auto simp: windows_def simp del: upt_Suc)
  qed
qed

lemma contains_bytes_sublist: "contains_bytes h n \<longleftrightarrow> sublist n h"
proof (cases "length n \<le> length h")
  case True
  then show ?thesis
    using windows_mem [OF True, of n] by (auto simp: contains_bytes_def list_ex_iff)
next
  case False
  then have "\<not> sublist n h" by (metis sublist_length_le)
  moreover have "n \<noteq> []" using False by auto
  ultimately show ?thesis using False by (simp add: contains_bytes_def windows_def)
qed

text \<open>
  An occurrence that ends in the new bytes is found in the kept tail and the new bytes, once the
  tail is long enough for it.
\<close>

lemma sublist_across:
  assumes "\<not> sublist n h" and "sublist n (h @ b)" and "suffix t h"
    and "min (length h) (length n - 1) \<le> length t"
  shows "sublist n (t @ b)"
proof -
  from assms(2) consider "sublist n b"
    | xs1 xs2 where "n = xs1 @ xs2" "suffix xs1 h" "prefix xs2 b"
    unfolding sublist_append using assms(1) by blast
  then show ?thesis
  proof cases
    case 1
    then show ?thesis by (simp add: sublist_append)
  next
    case 2
    have "xs2 \<noteq> []"
      using 2 assms(1) by (metis append_Nil2 suffix_imp_sublist)
    then have "length xs1 \<le> length n - 1" using 2 by (cases xs2) auto
    moreover have "length xs1 \<le> length h" using 2 by (simp add: suffix_length_le)
    ultimately have "length xs1 \<le> length t" using assms(4) by linarith
    then have "suffix xs1 t" using 2 assms(3) suffix_length_suffix by blast
    then show ?thesis using 2 by (auto simp: sublist_append)
  qed
qed

section \<open>What the tracker knows of the streams\<close>

lemma observe_checks_map:
  "observe_checks stream searchable now i cs =
     (map (\<lambda>(j, c). fst (observe_check stream searchable (now j) c)) (enumerate i cs),
      list_ex (\<lambda>(j, c). snd (observe_check stream searchable (now j) c)) (enumerate i cs))"
  by (induction cs arbitrary: i) (auto simp: Let_def split: prod.splits)

lemma observe_check_frame [simp]:
  "ck_condition (fst (observe_check stream searchable now c)) = ck_condition c"
  "ck_id (fst (observe_check stream searchable now c)) = ck_id c"
  by (simp_all add: observe_check_def split: readiness_condition.splits)

lemma observe_check_ready:
  "ck_ready_at_ms (fst (observe_check stream searchable now c)) \<noteq> None \<longleftrightarrow>
     ck_ready_at_ms c \<noteq> None \<or>
     (\<exists>literal. ck_condition c = Log literal \<and> sublist (as_bytes literal) searchable)"
  by (auto simp: observe_check_def contains_bytes_sublist split: readiness_condition.splits)

lemma finish_if_ready_frame [simp]:
  "rd_checks (fst (finish_if_ready now st)) = rd_checks st"
  "rd_deadline_at_ms (fst (finish_if_ready now st)) = rd_deadline_at_ms st"
  by (simp_all add: finish_if_ready_def)

text \<open>The checks after one chunk, and which of them are pending.\<close>

definition observed_checks ::
  "(nat \<Rightarrow> u64) \<Rightarrow> log_stream \<Rightarrow> bytes \<Rightarrow> readiness_check list \<Rightarrow> readiness_check list" where
  "observed_checks now stream searchable cs =
     map (\<lambda>(j, c). fst (observe_check stream searchable (now j) c)) (enumerate 0 cs)"

lemma observed_checks_length [simp]: "length (observed_checks now stream searchable cs) = length cs"
  by (simp add: observed_checks_def)

lemma observed_checks_nth:
  "i < length cs \<Longrightarrow>
   observed_checks now stream searchable cs ! i = fst (observe_check stream searchable (now i) (cs ! i))"
  by (simp add: observed_checks_def nth_enumerate_eq)

lemma observe_log_parts:
  assumes "rd_status st = RdPending" and "observe_log now fin stream bs t st = (t', st', ch)"
  shows "rd_checks st' = observed_checks now stream (get_tail t stream @ bs) (rd_checks st)"
    and "get_tail t' stream =
      (let searchable = get_tail t stream @ bs;
           keep = min (length searchable) (max_tail (rd_checks st'))
       in drop (length searchable - keep) searchable)"
    and "\<And>other. other \<noteq> stream \<Longrightarrow> get_tail t' other = get_tail t other"
    and "rd_status st' =
      (if list_all (\<lambda>c. ck_ready_at_ms c \<noteq> None) (rd_checks st') then RdReady else RdPending)"
proof -
  have other: "get_tail (set_tail t s b) s' = (if s' = s then b else get_tail t s')" for s s' b
    by (cases s; cases s') simp_all
  show "rd_checks st' = observed_checks now stream (get_tail t stream @ bs) (rd_checks st)"
    using assms
    by (auto simp: observe_log_def observe_checks_map observed_checks_def Let_def
        finish_if_ready_def split: if_splits)
  then show "get_tail t' stream =
      (let searchable = get_tail t stream @ bs;
           keep = min (length searchable) (max_tail (rd_checks st'))
       in drop (length searchable - keep) searchable)"
    "\<And>other. other \<noteq> stream \<Longrightarrow> get_tail t' other = get_tail t other"
    "rd_status st' =
      (if list_all (\<lambda>c. ck_ready_at_ms c \<noteq> None) (rd_checks st') then RdReady else RdPending)"
    using assms
    by (auto simp: observe_log_def observe_checks_map observed_checks_def Let_def other
        finish_if_ready_def split: if_splits)
qed

lemma observe_log_idle: "rd_status st \<noteq> RdPending \<Longrightarrow> observe_log now fin s bs t st = (t, st, False)"
  by (simp add: observe_log_def)

definition literals_ok :: "readiness_check list \<Rightarrow> bool" where
  "literals_ok cs \<longleftrightarrow>
     (\<forall>c\<in>set cs. \<forall>l. ck_condition c = Log l \<longrightarrow> l \<noteq> [] \<and> length l \<le> max_log_literal_bytes)"

lemma foldr_max_ge: "x \<in> set xs \<Longrightarrow> x \<le> foldr max xs (0 :: nat)"
  by (induction xs) (auto simp: le_max_iff_disj)

lemma foldr_max_le: "(\<And>x. x \<in> set xs \<Longrightarrow> x \<le> m) \<Longrightarrow> foldr max xs 0 \<le> (m :: nat)"
  by (induction xs) auto

lemma max_tail_ge:
  assumes "c \<in> set cs" and "ck_condition c = Log l" and "ck_ready_at_ms c = None"
    and "length l \<le> max_log_literal_bytes"
  shows "length l - 1 \<le> max_tail cs"
proof -
  have "length l - 1 \<in> set (List.map_filter pending_tail cs)"
    using assms by (force simp: List.map_filter_def pending_tail.simps)
  then have "length l - 1 \<le> foldr max (List.map_filter pending_tail cs) 0"
    by (rule foldr_max_ge)
  then show ?thesis using assms(4) by (simp add: max_tail_def)
qed

lemma max_tail_mono:
  assumes "\<And>n. n \<in> set (List.map_filter pending_tail cs') \<Longrightarrow>
    n \<in> set (List.map_filter pending_tail cs)"
  shows "max_tail cs' \<le> max_tail cs"
proof -
  have "foldr max (List.map_filter pending_tail cs') 0 \<le>
      foldr max (List.map_filter pending_tail cs) 0"
    using assms by (intro foldr_max_le foldr_max_ge)
  then show ?thesis by (simp add: max_tail_def min.coboundedI1)
qed

lemma pending_tail_observe:
  "pending_tail (fst (observe_check stream searchable now c)) = Some n \<Longrightarrow> pending_tail c = Some n"
  by (auto simp: pending_tail.simps observe_check_def split: readiness_condition.splits if_splits)

lemma map_filter_mem: "n \<in> set (List.map_filter f xs) \<longleftrightarrow> (\<exists>x\<in>set xs. f x = Some n)"
  by (force simp: List.map_filter_def)

lemma max_tail_observed: "max_tail (observed_checks now stream searchable cs) \<le> max_tail cs"
proof (rule max_tail_mono)
  fix n
  assume "n \<in> set (List.map_filter pending_tail (observed_checks now stream searchable cs))"
  then obtain c where c: "c \<in> set (observed_checks now stream searchable cs)"
    "pending_tail c = Some n"
    unfolding map_filter_mem by blast
  from c(1) obtain i where i: "i < length cs"
    and ci: "c = observed_checks now stream searchable cs ! i"
    unfolding in_set_conv_nth by (metis observed_checks_length)
  have "pending_tail (cs ! i) = Some n"
    using c(2) unfolding ci observed_checks_nth [OF i] by (rule pending_tail_observe)
  then show "n \<in> set (List.map_filter pending_tail cs)"
    using i unfolding map_filter_mem by (meson nth_mem)
qed

text \<open>
  What the tracker maintains about the streams seen so far: a log check is ready exactly when
  its literal occurs in one of them, and while readiness is pending each tail is the end of its
  stream and long enough for every pending literal.
\<close>

definition occurs :: "(log_stream \<Rightarrow> bytes) \<Rightarrow> string \<Rightarrow> bool" where
  "occurs H l \<longleftrightarrow> (\<exists>s. sublist (as_bytes l) (H s))"

definition feed :: "(log_stream \<Rightarrow> bytes) \<Rightarrow> log_stream \<Rightarrow> bytes \<Rightarrow> (log_stream \<Rightarrow> bytes)" where
  "feed H s bs = H(s := H s @ bs)"

lemma feed_simps [simp]:
  "feed H s bs s = H s @ bs" "s' \<noteq> s \<Longrightarrow> feed H s bs s' = H s'" "feed H s [] = H"
  by (simp_all add: feed_def)

lemma occurs_feed: "occurs (feed H s bs) l \<longleftrightarrow> occurs H l \<or> sublist (as_bytes l) (H s @ bs)"
proof -
  have "sublist (as_bytes l) (H s) \<Longrightarrow> sublist (as_bytes l) (H s @ bs)"
    by (simp add: sublist_append)
  then show ?thesis unfolding occurs_def by (metis feed_simps(1,2))
qed

definition literal_tracked :: "(log_stream \<Rightarrow> bytes) \<Rightarrow> readiness_check \<Rightarrow> bool" where
  "literal_tracked H c \<longleftrightarrow>
     (\<forall>l. ck_condition c = Log l \<longrightarrow>
        (ck_ready_at_ms c \<noteq> None \<longleftrightarrow> occurs H l))"

definition tail_tracked :: "(log_stream \<Rightarrow> bytes) \<Rightarrow> readiness_tracker \<Rightarrow> readiness_state \<Rightarrow> bool" where
  "tail_tracked H t st \<longleftrightarrow>
     (\<forall>s. suffix (get_tail t s) (H s) \<and>
        min (length (H s)) (max_tail (rd_checks st)) \<le> length (get_tail t s))"

definition tracks :: "(log_stream \<Rightarrow> bytes) \<Rightarrow> readiness_tracker \<Rightarrow> readiness_state \<Rightarrow> bool" where
  "tracks H t st \<longleftrightarrow>
     literals_ok (rd_checks st) \<and>
     (\<forall>c\<in>set (rd_checks st). literal_tracked H c) \<and>
     (rd_status st = RdPending \<and> tail_tracked H t st \<or>
      rd_status st = RdReady \<and> (\<forall>c\<in>set (rd_checks st). ck_ready_at_ms c \<noteq> None))"

lemma literal_found:
  assumes "\<not> occurs H l" and "length l - 1 \<le> max_tail cs"
    and "suffix (get_tail t s) (H s)"
    and "min (length (H s)) (max_tail cs) \<le> length (get_tail t s)"
  shows "sublist (as_bytes l) (get_tail t s @ bs) \<longleftrightarrow> sublist (as_bytes l) (H s @ bs)"
proof
  assume "sublist (as_bytes l) (get_tail t s @ bs)"
  moreover have "suffix (get_tail t s @ bs) (H s @ bs)" using assms(3) by simp
  ultimately show "sublist (as_bytes l) (H s @ bs)"
    by (meson suffix_imp_sublist sublist_order.order_trans)
next
  assume "sublist (as_bytes l) (H s @ bs)"
  moreover have "\<not> sublist (as_bytes l) (H s)"
    using assms(1) by (simp add: occurs_def)
  moreover have "min (length (H s)) (length (as_bytes l) - 1) \<le> length (get_tail t s)"
    using assms(2,4) by (simp add: min_def split: if_splits)
  ultimately show "sublist (as_bytes l) (get_tail t s @ bs)"
    using assms(3) by (metis sublist_across)
qed

lemma literal_tracked_observe:
  assumes c: "literal_tracked H c" and mem: "c \<in> set cs"
    and ok: "\<And>l. ck_condition c = Log l \<Longrightarrow> length l \<le> max_log_literal_bytes"
    and tail: "suffix (get_tail t s) (H s)"
      "min (length (H s)) (max_tail cs) \<le> length (get_tail t s)"
  shows "literal_tracked (feed H s bs) (fst (observe_check s (get_tail t s @ bs) now c))"
proof -
  have "ck_ready_at_ms (fst (observe_check s (get_tail t s @ bs) now c)) \<noteq> None \<longleftrightarrow>
      occurs (feed H s bs) l" if l: "ck_condition c = Log l" for l
  proof (cases "ck_ready_at_ms c = None")
    case True
    then have no: "\<not> occurs H l" using c l by (simp add: literal_tracked_def)
    have "length l - 1 \<le> max_tail cs" by (rule max_tail_ge [OF mem l True ok [OF l]])
    from literal_found [where H = H and t = t, OF no this tail, of bs]
    show ?thesis
      unfolding observe_check_ready occurs_feed using l True no by simp
  next
    case False
    then have "occurs H l" using c l by (simp add: literal_tracked_def)
    then show ?thesis unfolding observe_check_ready occurs_feed using False by simp
  qed
  then show ?thesis by (simp add: literal_tracked_def)
qed

lemma tail_kept:
  fixes bs :: bytes
  assumes suf: "suffix (get_tail t s) (H s)"
    and len: "min (length (H s)) m \<le> length (get_tail t s)" and le: "m' \<le> m"
  defines "searchable \<equiv> get_tail t s @ bs"
  defines "kept \<equiv> drop (length searchable - min (length searchable) m') searchable"
  shows "suffix kept (H s @ bs)" and "min (length (H s @ bs)) m' \<le> length kept"
proof -
  have "suffix kept searchable" unfolding kept_def by (rule suffix_drop)
  then show "suffix kept (H s @ bs)"
    using suf unfolding searchable_def by (meson same_suffix_suffix suffix_order.order_trans)
  have "min (length (H s) + length bs) m' \<le> length (get_tail t s) + length bs"
    using len le by (simp add: min_def split: if_splits)
  then show "min (length (H s @ bs)) m' \<le> length kept"
    unfolding kept_def searchable_def by simp
qed

lemma tracks_pending:
  assumes "tracks H t st" and "rd_status st = RdPending"
  shows "literals_ok (rd_checks st)" "tail_tracked H t st"
    "c \<in> set (rd_checks st) \<Longrightarrow> literal_tracked H c"
  using assms by (auto simp: tracks_def)

lemma observe_log_tail_tracked:
  assumes "tail_tracked H t st" and "rd_status st = RdPending"
    and "observe_log now fin s bs t st = (t', st', ch)"
  shows "tail_tracked (feed H s bs) t' st'"
proof -
  note parts = observe_log_parts [OF assms(2,3)]
  have mono: "max_tail (rd_checks st') \<le> max_tail (rd_checks st)"
    unfolding parts(1) by (rule max_tail_observed)
  have "suffix (get_tail t' s') (feed H s bs s') \<and>
      min (length (feed H s bs s')) (max_tail (rd_checks st')) \<le> length (get_tail t' s')" for s'
  proof (cases "s' = s")
    case True
    have "suffix (get_tail t s) (H s)"
      "min (length (H s)) (max_tail (rd_checks st)) \<le> length (get_tail t s)"
      using assms(1) by (simp_all add: tail_tracked_def)
    note kept = tail_kept [where bs = bs and t = t and s = s and H = H, OF this mono]
    show ?thesis unfolding True parts(2) Let_def feed_simps(1) using kept by blast
  next
    case False
    have "suffix (get_tail t s') (H s')"
      "min (length (H s')) (max_tail (rd_checks st)) \<le> length (get_tail t s')"
      using assms(1) by (simp_all add: tail_tracked_def)
    then show ?thesis
      unfolding parts(3) [OF False] feed_simps(2) [OF False] using mono by linarith
  qed
  then show ?thesis by (simp add: tail_tracked_def)
qed

lemma observed_check_origin:
  assumes "c \<in> set (observed_checks now s searchable cs)"
  shows "\<exists>c0\<in>set cs. \<exists>n. c = fst (observe_check s searchable n c0) \<and> ck_condition c = ck_condition c0"
proof -
  from assms obtain i where "i < length cs" "c = observed_checks now s searchable cs ! i"
    unfolding in_set_conv_nth by (metis observed_checks_length)
  then show ?thesis
    by (intro bexI [of _ "cs ! i"]) (auto simp: observed_checks_nth)
qed

lemma literals_ok_observed:
  "literals_ok cs \<Longrightarrow> literals_ok (observed_checks now s searchable cs)"
  unfolding literals_ok_def using observed_check_origin by metis

text \<open>One chunk of a stream keeps the tracker in step with the streams.\<close>

lemma observe_log_tracks:
  assumes tr: "tracks H t st" and ob: "observe_log now fin s bs t st = (t', st', ch)"
  shows "tracks (feed H s bs) t' st'"
proof (cases "rd_status st = RdPending")
  case True
  note parts = observe_log_parts [OF True ob]
  note pend = tracks_pending [OF tr True]
  have lits: "\<And>l. c \<in> set (rd_checks st) \<Longrightarrow> ck_condition c = Log l \<Longrightarrow>
      length l \<le> max_log_literal_bytes" for c
    using pend(1) by (auto simp: literals_ok_def)
  have tail: "suffix (get_tail t s) (H s)"
    "min (length (H s)) (max_tail (rd_checks st)) \<le> length (get_tail t s)"
    using pend(2) by (simp_all add: tail_tracked_def)
  have "literal_tracked (feed H s bs) c" if "c \<in> set (rd_checks st')" for c
  proof -
    from that obtain i where i: "i < length (rd_checks st)" and
      c: "c = fst (observe_check s (get_tail t s @ bs) (now i) (rd_checks st ! i))"
      unfolding parts(1) in_set_conv_nth by (auto simp: observed_checks_nth)
    show ?thesis
      unfolding c using i
      by (intro literal_tracked_observe [where cs = "rd_checks st", OF pend(3) nth_mem lits tail])
        simp_all
  qed
  moreover have "literals_ok (rd_checks st')"
    unfolding parts(1) by (rule literals_ok_observed [OF pend(1)])
  moreover have "tail_tracked (feed H s bs) t' st'"
    by (rule observe_log_tail_tracked [OF pend(2) True ob])
  ultimately show ?thesis
    using parts(4) unfolding tracks_def list_all_iff by (auto split: if_splits)
next
  case False
  then have st: "rd_status st = RdReady" and rdy: "\<forall>c\<in>set (rd_checks st). ck_ready_at_ms c \<noteq> None"
    using tr by (auto simp: tracks_def)
  have same: "st' = st" using ob observe_log_idle [OF False] by simp
  have "literal_tracked (feed H s bs) c" if c: "c \<in> set (rd_checks st)" for c
    using tr c rdy by (auto simp: tracks_def literal_tracked_def occurs_feed)
  then show ?thesis using st rdy tr by (auto simp: same tracks_def)
qed

lemma tracks_start:
  assumes "literals_ok cs" and "\<forall>c\<in>set cs. ck_ready_at_ms c = None" and "rd_status st = RdPending"
    and "rd_checks st = cs"
  shows "tracks (\<lambda>_. []) tracker_new st"
proof -
  have tail: "get_tail tracker_new s = []" for s by (cases s) (simp_all add: tracker_new_def)
  have "literal_tracked (\<lambda>_. []) c" if "c \<in> set cs" for c
    using assms(1,2) that by (auto simp: literal_tracked_def occurs_def literals_ok_def)
  then show ?thesis using assms by (auto simp: tracks_def tail_tracked_def tail)
qed

section \<open>A whole run of chunks\<close>

record log_observation =
  ob_stream :: log_stream
  ob_bytes :: bytes
  ob_now :: "nat \<Rightarrow> u64"
  ob_finished_at :: u64

fun observe_all ::
  "log_observation list \<Rightarrow> readiness_tracker \<Rightarrow> readiness_state \<Rightarrow> readiness_tracker \<times> readiness_state" where
  "observe_all [] t st = (t, st)"
| "observe_all (ob # obs) t st =
     (let (t, st, _) = observe_log (ob_now ob) (ob_finished_at ob) (ob_stream ob) (ob_bytes ob) t st
      in observe_all obs t st)"

text \<open>The bytes of one stream in a list of chunks.\<close>

definition stream_bytes :: "log_stream \<Rightarrow> log_observation list \<Rightarrow> bytes" where
  "stream_bytes s obs = concat (map ob_bytes (filter (\<lambda>ob. ob_stream ob = s) obs))"

lemma observe_all_tracks:
  "tracks H t st \<Longrightarrow> observe_all obs t st = (t', st') \<Longrightarrow>
   tracks (\<lambda>s. H s @ stream_bytes s obs) t' st'"
proof (induction obs arbitrary: H t st)
  case Nil
  then show ?case by (simp add: stream_bytes_def)
next
  case (Cons ob obs)
  obtain t1 st1 ch where ob:
    "observe_log (ob_now ob) (ob_finished_at ob) (ob_stream ob) (ob_bytes ob) t st = (t1, st1, ch)"
    by (metis prod_cases3)
  have "feed H (ob_stream ob) (ob_bytes ob) s @ stream_bytes s obs = H s @ stream_bytes s (ob # obs)"
    for s by (cases "s = ob_stream ob") (simp_all add: stream_bytes_def)
  then show ?case
    using Cons.IH [OF observe_log_tracks [OF Cons.prems(1) ob]] Cons.prems(2) ob by simp
qed

lemma observe_log_conditions:
  assumes "observe_log now fin s bs t st = (t', st', ch)"
  shows "map ck_condition (rd_checks st') = map ck_condition (rd_checks st)"
proof (cases "rd_status st = RdPending")
  case True
  then show ?thesis
    unfolding observe_log_parts(1) [OF True assms]
    by (intro nth_equalityI) (simp_all add: observed_checks_nth)
next
  case False
  then show ?thesis using assms by (simp add: observe_log_idle)
qed

lemma observe_all_conditions:
  "observe_all obs t st = (t', st') \<Longrightarrow>
   map ck_condition (rd_checks st') = map ck_condition (rd_checks st)"
proof (induction obs arbitrary: t st)
  case (Cons ob obs)
  then show ?case
    by (auto simp: observe_log_conditions split: prod.splits dest: observe_log_conditions)
qed simp

text \<open>
  C9: log readiness is exact. Feed the tracker any interleaving of chunks of the two streams,
  cut anywhere: a log condition ends up satisfied exactly when its literal occurs in the whole
  of one of the streams. In particular an occurrence that spans chunks is never missed, although
  the tracker keeps at most 1023 bytes of a stream, and one that is split between the two
  streams never counts.
\<close>

theorem log_readiness_exact:
  assumes "literals_ok (rd_checks st)" and "\<forall>c\<in>set (rd_checks st). ck_ready_at_ms c = None"
    and "rd_status st = RdPending" and "observe_all obs tracker_new st = (t', st')"
    and "i < length (rd_checks st)" and "ck_condition (rd_checks st ! i) = Log l"
  shows "ck_ready_at_ms (rd_checks st' ! i) \<noteq> None \<longleftrightarrow>
    (\<exists>s. sublist (as_bytes l) (stream_bytes s obs))"
proof -
  have tr: "tracks (\<lambda>s. stream_bytes s obs) t' st'"
    using observe_all_tracks [OF tracks_start [OF assms(1,2,3)] assms(4)] by simp
  have "map ck_condition (rd_checks st') = map ck_condition (rd_checks st)"
    by (rule observe_all_conditions [OF assms(4)])
  then have i: "i < length (rd_checks st')" and c: "ck_condition (rd_checks st' ! i) = Log l"
    using assms(5,6) by (metis length_map, metis length_map nth_map)
  then have "literal_tracked (\<lambda>s. stream_bytes s obs) (rd_checks st' ! i)"
    using tr by (simp add: tracks_def)
  then show ?thesis using c by (simp add: literal_tracked_def occurs_def)
qed

theorem log_readiness_exact_witness:
  "ck_ready_at_ms (rd_checks (snd (observe_all
      [\<lparr>ob_stream = Stdout, ob_bytes = as_bytes ''li'', ob_now = \<lambda>_. 7, ob_finished_at = 8\<rparr>,
       \<lparr>ob_stream = Stdout, ob_bytes = as_bytes ''st'', ob_now = \<lambda>_. 9, ob_finished_at = 9\<rparr>]
      tracker_new (readiness_state_new [Log ''list''] 5 0))) ! 0) \<noteq> None"
proof -
  let ?obs = "[\<lparr>ob_stream = Stdout, ob_bytes = as_bytes ''li'', ob_now = \<lambda>_. 7, ob_finished_at = 8\<rparr>,
    \<lparr>ob_stream = Stdout, ob_bytes = as_bytes ''st'', ob_now = \<lambda>_. 9, ob_finished_at = 9\<rparr>]"
  let ?st = "readiness_state_new [Log ''list''] 5 0"
  have "stream_bytes Stdout ?obs = as_bytes ''list''"
    by (simp add: stream_bytes_def as_bytes_def)
  then have occ: "\<exists>s. sublist (as_bytes ''list'') (stream_bytes s ?obs)" by (metis sublist_order.order_refl)
  have ok: "literals_ok (rd_checks ?st)" "\<forall>c\<in>set (rd_checks ?st). ck_ready_at_ms c = None"
    "rd_status ?st = RdPending" "0 < length (rd_checks ?st)"
    "ck_condition (rd_checks ?st ! 0) = Log ''list''"
    by (simp_all add: literals_ok_def readiness_check_new_def max_log_literal_bytes_def)
  show ?thesis
    using log_readiness_exact [OF ok(1-3) prod.collapse [symmetric] ok(4,5)] occ by blast
qed

end
