(* ===== verification/Readiness_Poll.thy ===== *)
theory Readiness_Poll
  imports Readiness_Tracker Systems
begin

text \<open>
  The polling of external checks and the readiness status as a state machine, over the
  definitions of \<open>Readiness_Tracker\<close>: the round-robin choice of the next check, the progress a
  round of polls makes, and the invariant that ties the status to the evidence of the checks.
\<close>

section \<open>The choice of the next check\<close>

text \<open>The distance from the next index \<open>p\<close> to the check \<open>i\<close> in a cycle of \<open>n\<close>.\<close>

definition cycle_distance :: "nat \<Rightarrow> nat \<Rightarrow> nat \<Rightarrow> nat" where
  "cycle_distance n p i = (i + n - p mod n) mod n"

lemma cycle_distance_bound: "0 < n \<Longrightarrow> cycle_distance n p i < n"
  by (simp add: cycle_distance_def)

lemma cycle_at:
  assumes "i < n"
  shows "(p + cycle_distance n p i) mod n = i"
proof -
  have le: "p mod n \<le> n" using assms by (simp add: less_imp_le)
  have "(p + cycle_distance n p i) mod n = (p mod n + (i + n - p mod n)) mod n"
    by (simp add: cycle_distance_def mod_simps)
  also have "\<dots> = (i + n) mod n" using le by simp
  finally show ?thesis using assms by simp
qed

lemma cycle_distance_offset:
  assumes "d < n"
  shows "cycle_distance n p ((p + d) mod n) = d"
proof -
  have n: "0 < n" using assms by simp
  have le: "p mod n \<le> n" using n by (simp add: less_imp_le)
  have "cycle_distance n p ((p + d) mod n) = ((p + d) mod n + (n - p mod n)) mod n"
    using le by (simp add: cycle_distance_def)
  also have "\<dots> = (p + (d + (n - p mod n))) mod n" by (simp only: mod_add_left_eq add.assoc)
  also have "\<dots> = (p mod n + (d + (n - p mod n))) mod n" by (simp only: mod_add_left_eq)
  also have "p mod n + (d + (n - p mod n)) = d + n" using le by simp
  finally show ?thesis using assms by simp
qed

text \<open>Passing the check at distance \<open>d\<close> brings every later one nearer.\<close>

lemma cycle_distance_step:
  assumes "i < n" and "d < cycle_distance n p i"
  shows "cycle_distance n ((p + d) mod n + 1) i < cycle_distance n p i"
proof -
  let ?e = "cycle_distance n p i - (d + 1)"
  have e: "d + 1 + ?e = cycle_distance n p i" using assms(2) by simp
  have "(((p + d) mod n + 1) + ?e) mod n = (p + (d + 1 + ?e)) mod n"
    by (simp only: mod_add_left_eq add.assoc)
  also have "\<dots> = i" unfolding e by (rule cycle_at [OF assms(1)])
  finally have at: "(((p + d) mod n + 1) + ?e) mod n = i" .
  have "?e < n" using cycle_distance_bound [of n p i] assms by simp
  from cycle_distance_offset [OF this, of "(p + d) mod n + 1"] at
  have "cycle_distance n ((p + d) mod n + 1) i = ?e" by simp
  then show ?thesis using assms(2) by simp
qed

lemma next_external_check_Some:
  assumes "next_external_check t st = Some j"
  shows "j < length (rd_checks st)" and "awaits_probe (rd_checks st ! j)"
    and "\<exists>d < length (rd_checks st). j = (rt_next_probe_index t + d) mod length (rd_checks st) \<and>
      (\<forall>e<d. \<not> awaits_probe (rd_checks st ! ((rt_next_probe_index t + e) mod length (rd_checks st))))"
proof -
  from assms obtain d where d: "d < length (rd_checks st)"
    "awaits_probe (rd_checks st ! ((rt_next_probe_index t + d) mod length (rd_checks st)))"
    "j = (rt_next_probe_index t + d) mod length (rd_checks st)"
    "\<forall>e<d. \<not> awaits_probe (rd_checks st ! ((rt_next_probe_index t + e) mod length (rd_checks st)))"
    by (auto simp: next_external_check_def Let_def find_Some_iff)
  then have "0 < length (rd_checks st)" by linarith
  then show "j < length (rd_checks st)" "awaits_probe (rd_checks st ! j)"
    unfolding d(3) using d(2) by auto
  show "\<exists>d < length (rd_checks st). j = (rt_next_probe_index t + d) mod length (rd_checks st) \<and>
      (\<forall>e<d. \<not> awaits_probe (rd_checks st ! ((rt_next_probe_index t + e) mod length (rd_checks st))))"
    using d by blast
qed

lemma next_external_check_None:
  "next_external_check t st = None \<longleftrightarrow> (\<forall>c\<in>set (rd_checks st). \<not> awaits_probe c)"
proof -
  let ?n = "length (rd_checks st)"
  have "(\<exists>d<?n. awaits_probe (rd_checks st ! ((rt_next_probe_index t + d) mod ?n))) \<longleftrightarrow>
      (\<exists>i<?n. awaits_probe (rd_checks st ! i))"
  proof
    assume "\<exists>i<?n. awaits_probe (rd_checks st ! i)"
    then obtain i where i: "i < ?n" "awaits_probe (rd_checks st ! i)" by blast
    then have "cycle_distance ?n (rt_next_probe_index t) i < ?n"
      by (intro cycle_distance_bound) linarith
    with i cycle_at [OF i(1)]
    show "\<exists>d<?n. awaits_probe (rd_checks st ! ((rt_next_probe_index t + d) mod ?n))" by metis
  qed (metis mod_less_divisor not_less_zero gr0I)
  then show ?thesis
    by (auto simp: next_external_check_def Let_def find_None_iff all_set_conv_all_nth)
qed

text \<open>The chosen check is the nearest one: no awaiting check is closer.\<close>

lemma next_external_check_nearest:
  assumes "next_external_check t st = Some j" and "i < length (rd_checks st)"
    and "awaits_probe (rd_checks st ! i)" and "j \<noteq> i"
  shows "cycle_distance (length (rd_checks st)) (j + 1) i <
    cycle_distance (length (rd_checks st)) (rt_next_probe_index t) i"
proof -
  let ?n = "length (rd_checks st)" and ?p = "rt_next_probe_index t"
  obtain d where d: "d < ?n" "j = (?p + d) mod ?n"
    "\<forall>e<d. \<not> awaits_probe (rd_checks st ! ((?p + e) mod ?n))"
    using next_external_check_Some(3) [OF assms(1)] by blast
  have at: "(?p + cycle_distance ?n ?p i) mod ?n = i" by (rule cycle_at [OF assms(2)])
  have "\<not> cycle_distance ?n ?p i < d" using d(3) at assms(3) by metis
  moreover have "cycle_distance ?n ?p i \<noteq> d" using at d(2) assms(4) by metis
  ultimately have "d < cycle_distance ?n ?p i" by linarith
  then show ?thesis unfolding d(2) by (rule cycle_distance_step [OF assms(2)])
qed

section \<open>Progress of a round of polls\<close>

text \<open>A poll does something when readiness is pending, in time, and the interval has passed.\<close>

definition in_time :: "poll_clock \<Rightarrow> readiness_state \<Rightarrow> bool" where
  "in_time k st \<longleftrightarrow>
     (case rd_deadline_at_ms st of None \<Rightarrow> True | Some deadline \<Rightarrow> pk_now_ms k < deadline)"

definition interval_passed :: "poll_clock \<Rightarrow> readiness_tracker \<Rightarrow> bool" where
  "interval_passed k t \<longleftrightarrow>
     (case rt_last_probe t of None \<Rightarrow> True
      | Some previous \<Rightarrow> probe_interval \<le> pk_elapsed_at k - previous)"

lemma poll_idle: "rd_status st \<noteq> RdPending \<Longrightarrow> poll k probe t st = (t, st, False)"
  by (simp add: poll_def)

text \<open>What an effective poll does, by the chosen check and the outcome of its probe.\<close>

lemma poll_effective:
  assumes "rd_status st = RdPending" and "in_time k st" and "interval_passed k t"
    and "poll k probe t st = (t', st', ch)"
  shows "next_external_check t st = None \<Longrightarrow>
      t' = t\<lparr>rt_last_probe := Some (pk_probe_at k)\<rparr> \<and> st' = fst (finish_if_ready (pk_finished_at_ms k) st)"
    and "next_external_check t st = Some j \<Longrightarrow>
      t' = t\<lparr>rt_last_probe := Some (pk_probe_at k), rt_next_probe_index := j + 1\<rparr> \<and>
      st' = (case probe (ck_condition (rd_checks st ! j)) of
          None \<Rightarrow> st
        | Some evidence \<Rightarrow> fst (finish_if_ready (pk_finished_at_ms k)
            (st\<lparr>rd_checks := (rd_checks st)[j := (rd_checks st ! j)
              \<lparr>ck_ready_at_ms := Some (pk_observed_at_ms k), ck_evidence := Some evidence\<rparr>]\<rparr>)))"
proof -
  have skip: "\<not> (case rd_deadline_at_ms st of None \<Rightarrow> False | Some deadline \<Rightarrow> deadline \<le> pk_now_ms k)"
    "\<not> (case rt_last_probe t of None \<Rightarrow> False
        | Some previous \<Rightarrow> pk_elapsed_at k - previous < probe_interval)"
    using assms(2,3) by (auto simp: in_time_def interval_passed_def split: option.splits)
  have same: "next_external_check (t\<lparr>rt_last_probe := x\<rparr>) st = next_external_check t st" for x
    by (simp add: next_external_check_def)
  show "next_external_check t st = None \<Longrightarrow>
      t' = t\<lparr>rt_last_probe := Some (pk_probe_at k)\<rparr> \<and> st' = fst (finish_if_ready (pk_finished_at_ms k) st)"
    using assms(1,4) skip by (auto simp: poll_def same Let_def split: prod.splits)
  show "next_external_check t st = Some j \<Longrightarrow>
      t' = t\<lparr>rt_last_probe := Some (pk_probe_at k), rt_next_probe_index := j + 1\<rparr> \<and>
      st' = (case probe (ck_condition (rd_checks st ! j)) of
          None \<Rightarrow> st
        | Some evidence \<Rightarrow> fst (finish_if_ready (pk_finished_at_ms k)
            (st\<lparr>rd_checks := (rd_checks st)[j := (rd_checks st ! j)
              \<lparr>ck_ready_at_ms := Some (pk_observed_at_ms k), ck_evidence := Some evidence\<rparr>]\<rparr>)))"
    using assms(1,4) skip by (auto simp: poll_def same Let_def split: prod.splits option.splits)
qed

text \<open>The check a successful probe records, and the only changes a poll makes to the checks.\<close>

definition record_probe :: "u64 \<Rightarrow> string \<Rightarrow> nat \<Rightarrow> readiness_check list \<Rightarrow> readiness_check list" where
  "record_probe at evidence j cs =
     cs[j := (cs ! j)\<lparr>ck_ready_at_ms := Some at, ck_evidence := Some evidence\<rparr>]"

lemma poll_cases:
  assumes "poll k probe t st = (t', st', ch)"
  obtains (idle) "st' = st"
  | (late) "rd_status st = RdPending" "\<not> in_time k st"
      "st' = st\<lparr>rd_status := RdTimedOut, rd_failure_reason := Some ''readiness_timeout''\<rparr>"
  | (none) "rd_status st = RdPending" "in_time k st"
      "st' = fst (finish_if_ready (pk_finished_at_ms k) st)"
  | (probed) j ev where "rd_status st = RdPending" "in_time k st"
      "j < length (rd_checks st)" "awaits_probe (rd_checks st ! j)"
      "probe (ck_condition (rd_checks st ! j)) = Some ev"
      "st' = fst (finish_if_ready (pk_finished_at_ms k)
        (st\<lparr>rd_checks := record_probe (pk_observed_at_ms k) ev j (rd_checks st)\<rparr>))"
proof -
  consider (off) "rd_status st \<noteq> RdPending"
    | (out) "rd_status st = RdPending" "\<not> in_time k st"
    | (wait) "rd_status st = RdPending" "in_time k st" "\<not> interval_passed k t"
    | (go) "rd_status st = RdPending" "in_time k st" "interval_passed k t" by blast
  then show thesis
  proof cases
    case off
    then show thesis using idle assms by (simp add: poll_idle)
  next
    case out
    then have "case rd_deadline_at_ms st of None \<Rightarrow> False | Some deadline \<Rightarrow> deadline \<le> pk_now_ms k"
      by (auto simp: in_time_def split: option.splits)
    then show thesis using late out assms by (simp add: poll_def)
  next
    case wait
    then have "\<not> (case rd_deadline_at_ms st of None \<Rightarrow> False | Some deadline \<Rightarrow> deadline \<le> pk_now_ms k)"
      "case rt_last_probe t of None \<Rightarrow> False
        | Some previous \<Rightarrow> pk_elapsed_at k - previous < probe_interval"
      by (auto simp: in_time_def interval_passed_def split: option.splits)
    then show thesis using idle assms wait(1) by (simp add: poll_def)
  next
    case go
    note eff = poll_effective [OF go assms]
    show thesis
    proof (cases "next_external_check t st")
      case None
      then show thesis using none go eff(1) by blast
    next
      case (Some j)
      then show thesis
        using probed [OF go(1,2) next_external_check_Some(1,2) [OF Some]] idle eff(2) [OF Some]
        by (cases "probe (ck_condition (rd_checks st ! j))") (simp_all add: record_probe_def)
    qed
  qed
qed

lemma record_probe_frame [simp]:
  "length (record_probe at ev j cs) = length cs"
  "map ck_condition (record_probe at ev j cs) = map ck_condition cs"
  by (cases "j < length cs"; simp add: record_probe_def list_eq_iff_nth_eq nth_list_update)+

lemma record_probe_ready:
  "awaits_probe (cs ! j) \<Longrightarrow> ck_ready_at_ms (cs ! i) \<noteq> None \<Longrightarrow> record_probe at ev j cs ! i = cs ! i"
  by (cases "i = j") (auto simp: record_probe_def awaits_probe_def)

lemma poll_frame:
  assumes "poll k probe t st = (t', st', ch)"
  shows poll_deadline: "rd_deadline_at_ms st' = rd_deadline_at_ms st"
    and poll_length: "length (rd_checks st') = length (rd_checks st)"
    and poll_conditions: "map ck_condition (rd_checks st') = map ck_condition (rd_checks st)"
    and poll_ready: "ck_ready_at_ms (rd_checks st ! i) \<noteq> None \<Longrightarrow> rd_checks st' ! i = rd_checks st ! i"
  by (rule poll_cases [OF assms]; simp add: record_probe_ready; fail)+

type_synonym poll_input = "poll_clock \<times> (readiness_condition \<Rightarrow> string option)"

fun poll_all ::
  "poll_input list \<Rightarrow> readiness_tracker \<Rightarrow> readiness_state \<Rightarrow> readiness_tracker \<times> readiness_state" where
  "poll_all [] t st = (t, st)"
| "poll_all ((k, probe) # ps) t st = (let (t, st, _) = poll k probe t st in poll_all ps t st)"

text \<open>Polls spaced by the probe interval, each before the deadline.\<close>

fun spaced :: "instant option \<Rightarrow> poll_input list \<Rightarrow> bool" where
  "spaced previous [] \<longleftrightarrow> True"
| "spaced previous ((k, probe) # ps) \<longleftrightarrow>
     (case previous of None \<Rightarrow> True | Some p \<Rightarrow> probe_interval \<le> pk_elapsed_at k - p) \<and>
     spaced (Some (pk_probe_at k)) ps"

lemma poll_all_keeps_ready:
  "poll_all ps t st = (t', st') \<Longrightarrow> i < length (rd_checks st) \<Longrightarrow>
   ck_ready_at_ms (rd_checks st ! i) \<noteq> None \<Longrightarrow> ck_ready_at_ms (rd_checks st' ! i) \<noteq> None"
proof (induction ps arbitrary: t st)
  case (Cons kp ps)
  obtain k probe t1 st1 ch where kp: "kp = (k, probe)" and p: "poll k probe t st = (t1, st1, ch)"
    by (metis prod_cases3 surj_pair)
  show ?case
    using Cons.IH [of t1 st1] Cons.prems poll_length [OF p] poll_ready [OF p] unfolding kp by (simp add: p)
qed simp

lemma finish_if_ready_waiting:
  assumes "i < length (rd_checks st)" and "ck_ready_at_ms (rd_checks st ! i) = None"
  shows "finish_if_ready now st = (st, False)"
  using assms by (auto simp: finish_if_ready_def list_all_length)

lemma poll_round:
  assumes "poll_all ps t st = (t', st')" and "rd_status st = RdPending"
    and "i < length (rd_checks st)" and "awaits_probe (rd_checks st ! i)"
    and "spaced (rt_last_probe t) ps" and "\<forall>(k, probe)\<in>set ps. in_time k st"
    and "\<forall>(k, probe)\<in>set ps. probe (ck_condition (rd_checks st ! i)) \<noteq> None"
    and "cycle_distance (length (rd_checks st)) (rt_next_probe_index t) i < length ps"
  shows "ck_ready_at_ms (rd_checks st' ! i) \<noteq> None"
  using assms
proof (induction ps arbitrary: t st)
  case (Cons kp ps)
  obtain k probe t1 st1 ch where kp: "kp = (k, probe)" and p: "poll k probe t st = (t1, st1, ch)"
    by (metis prod_cases3 surj_pair)
  have run: "poll_all ps t1 st1 = (t', st')" using Cons.prems(1) by (simp add: kp p)
  have eff: "in_time k st" "interval_passed k t"
    using Cons.prems(5,6) by (simp_all add: kp interval_passed_def)
  note poll = poll_effective [OF Cons.prems(2) eff p]
  obtain j where j: "next_external_check t st = Some j"
    using Cons.prems(3,4) next_external_check_None by (metis not_None_eq nth_mem)
  note t1 = poll(2) [OF j, THEN conjunct1] and st1 = poll(2) [OF j, THEN conjunct2]
  show ?case
  proof (cases "j = i")
    case True
    obtain ev where "probe (ck_condition (rd_checks st ! i)) = Some ev"
      using Cons.prems(7) by (auto simp: kp)
    then have "rd_checks st1 ! i = (rd_checks st ! i)
        \<lparr>ck_ready_at_ms := Some (pk_observed_at_ms k), ck_evidence := Some ev\<rparr>"
      using Cons.prems(3) by (simp add: st1 True)
    then show ?thesis
      using poll_all_keeps_ready [OF run, of i] poll_length [OF p] Cons.prems(3) by simp
  next
    case False
    have same: "rd_checks st1 ! i = rd_checks st ! i \<and> rd_status st1 = RdPending"
      using False Cons.prems(2,3,4) finish_if_ready_waiting [of i]
      by (auto simp: st1 awaits_probe_def split: option.splits)
    have near: "cycle_distance (length (rd_checks st)) (j + 1) i <
        cycle_distance (length (rd_checks st)) (rt_next_probe_index t) i"
      by (rule next_external_check_nearest [OF j Cons.prems(3,4) False])
    show ?thesis
    proof (rule Cons.IH [OF run])
      show "spaced (rt_last_probe t1) ps" using Cons.prems(5) by (simp add: kp t1)
      show "\<forall>(k, probe)\<in>set ps. in_time k st1"
        using Cons.prems(6) poll_deadline [OF p] by (auto simp: kp in_time_def)
    qed (use same near Cons.prems poll_length [OF p] in \<open>auto simp: kp t1\<close>)
  qed
qed simp

text \<open>
  C29: no external check starves. Whatever the other checks do and wherever the round-robin
  stands, a pending check whose target answers its probes is recorded as ready after as many
  effective polls (spaced by the probe interval, before the deadline) as there are checks.
\<close>

theorem poll_no_starvation:
  assumes "poll_all ps t st = (t', st')" and "rd_status st = RdPending"
    and "i < length (rd_checks st)" and "awaits_probe (rd_checks st ! i)"
    and "spaced (rt_last_probe t) ps" and "\<forall>(k, probe)\<in>set ps. in_time k st"
    and "\<forall>(k, probe)\<in>set ps. probe (ck_condition (rd_checks st ! i)) \<noteq> None"
    and "length (rd_checks st) \<le> length ps"
  shows "ck_ready_at_ms (rd_checks st' ! i) \<noteq> None"
proof -
  have "cycle_distance (length (rd_checks st)) (rt_next_probe_index t) i < length ps"
    using cycle_distance_bound [of "length (rd_checks st)" "rt_next_probe_index t" i] assms(3,8)
    by linarith
  then show ?thesis using assms(1-7) by (intro poll_round)
qed

theorem poll_no_starvation_witness:
  "ck_ready_at_ms (rd_checks (snd (poll_all
      [(\<lparr>pk_now_ms = 1, pk_elapsed_at = 0, pk_probe_at = 0, pk_observed_at_ms = 1,
         pk_finished_at_ms = 1\<rparr>, \<lambda>c. if c = File ''b'' then Some ''seen'' else None),
       (\<lparr>pk_now_ms = 60, pk_elapsed_at = 60000000, pk_probe_at = 60000000, pk_observed_at_ms = 60,
         pk_finished_at_ms = 60\<rparr>, \<lambda>c. if c = File ''b'' then Some ''seen'' else None)]
      tracker_new (readiness_state_new [File ''a'', File ''b''] 1000 0))) ! 1) \<noteq> None"
proof (rule poll_no_starvation [OF prod.collapse [symmetric]])
qed (simp_all add: awaits_probe_def tracker_new_def probe_interval_def in_time_def
      readiness_state_new_def readiness_check_new_def sat_add_def)

section \<open>Readiness as a state machine\<close>

text \<open>
  The events of readiness: a chunk of a log, a poll, the exit of the process. The state is the
  tracker with the persisted readiness.
\<close>

inductive rd_step ::
  "readiness_tracker \<times> readiness_state \<Rightarrow> readiness_tracker \<times> readiness_state \<Rightarrow> bool" where
  rd_observe: "observe_log now fin s bs t st = (t', st', ch) \<Longrightarrow> rd_step (t, st) (t', st')"
| rd_poll: "poll k probe t st = (t', st', ch) \<Longrightarrow> rd_step (t, st) (t', st')"
| rd_exit: "process_exited st = (st', ch) \<Longrightarrow> rd_step (t, st) (t, st')"

inductive_cases rd_stepE: "rd_step (t, st) (t', st')"

definition rd_start :: "readiness_tracker \<times> readiness_state \<Rightarrow> bool" where
  "rd_start s \<longleftrightarrow> fst s = tracker_new \<and>
     (\<exists>conditions limit created. snd s = readiness_state_new conditions limit created)"

text \<open>What the persisted readiness says of itself.\<close>

definition rd_consistent :: "readiness_state \<Rightarrow> bool" where
  "rd_consistent st \<longleftrightarrow>
     (rd_status st = RdNotConfigured \<longleftrightarrow> rd_checks st = []) \<and>
     (rd_status st = RdNotConfigured \<longleftrightarrow> rd_deadline_at_ms st = None) \<and>
     (rd_status st = RdReady \<longrightarrow> list_all (\<lambda>c. ck_ready_at_ms c \<noteq> None) (rd_checks st)) \<and>
     (rd_status st = RdPending \<longrightarrow> \<not> list_all (\<lambda>c. ck_ready_at_ms c \<noteq> None) (rd_checks st)) \<and>
     (rd_ready_at_ms st \<noteq> None \<longleftrightarrow> rd_status st = RdReady) \<and>
     (rd_failure_reason st \<noteq> None \<longleftrightarrow> rd_status st \<in> {RdTimedOut, RdFailed}) \<and>
     list_all (\<lambda>c. ck_ready_at_ms c = None \<longleftrightarrow> ck_evidence c = None) (rd_checks st)"

lemma rd_consistent_new: "rd_consistent (readiness_state_new cs limit created)"
  by (cases cs)
    (auto simp: rd_consistent_def readiness_state_new_def Let_def list_all_iff
      readiness_check_new_def in_set_enumerate_eq)

text \<open>Recording evidence for some checks of a pending readiness and finishing keeps it consistent.\<close>

lemma rd_consistent_finish:
  assumes "rd_consistent st" and "rd_status st = RdPending" and "length cs = length (rd_checks st)"
    and "list_all (\<lambda>c. ck_ready_at_ms c = None \<longleftrightarrow> ck_evidence c = None) cs"
  shows "rd_consistent (fst (finish_if_ready now (st\<lparr>rd_checks := cs\<rparr>)))"
proof -
  have "cs \<noteq> []" using assms(1-3) by (auto simp: rd_consistent_def)
  then show ?thesis using assms by (simp add: rd_consistent_def finish_if_ready_def)
qed

lemma observed_checks_evidence:
  assumes "list_all (\<lambda>c. ck_ready_at_ms c = None \<longleftrightarrow> ck_evidence c = None) cs"
  shows "list_all (\<lambda>c. ck_ready_at_ms c = None \<longleftrightarrow> ck_evidence c = None)
    (observed_checks now s searchable cs)"
proof -
  have "ck_ready_at_ms (fst (observe_check s searchable at c)) = None \<longleftrightarrow>
      ck_evidence (fst (observe_check s searchable at c)) = None"
    if "ck_ready_at_ms c = None \<longleftrightarrow> ck_evidence c = None" for at c
    using that by (simp add: observe_check_def split: readiness_condition.split)
  then show ?thesis using assms by (simp add: list_all_length observed_checks_nth)
qed

lemma observe_log_state:
  assumes "rd_status st = RdPending"
  shows "fst (snd (observe_log now fin s bs t st)) =
    fst (finish_if_ready fin (st\<lparr>rd_checks := observed_checks now s (get_tail t s @ bs) (rd_checks st)\<rparr>))"
  using assms
  by (simp add: observe_log_def observe_checks_map observed_checks_def Let_def split: prod.splits)

lemma rd_consistent_observe:
  assumes "rd_consistent st" and "observe_log now fin s bs t st = (t', st', ch)"
  shows "rd_consistent st'"
proof (cases "rd_status st = RdPending")
  case True
  have "st' = fst (finish_if_ready fin
      (st\<lparr>rd_checks := observed_checks now s (get_tail t s @ bs) (rd_checks st)\<rparr>))"
    by (metis observe_log_state [OF True] assms(2) fst_conv snd_conv)
  moreover have "list_all (\<lambda>c. ck_ready_at_ms c = None \<longleftrightarrow> ck_evidence c = None) (rd_checks st)"
    using assms(1) by (simp add: rd_consistent_def)
  ultimately show ?thesis
    using rd_consistent_finish [OF assms(1) True] observed_checks_evidence by simp
next
  case False
  then show ?thesis using assms by (simp add: observe_log_idle)
qed

lemma rd_consistent_poll:
  assumes "rd_consistent st" and "poll k probe t st = (t', st', ch)"
  shows "rd_consistent st'"
proof (rule poll_cases [OF assms(2)])
  assume "rd_status st = RdPending" "st' = fst (finish_if_ready (pk_finished_at_ms k) st)"
  then show ?thesis using assms(1) by (simp add: rd_consistent_def finish_if_ready_def)
next
  fix j ev
  assume a: "rd_status st = RdPending" "j < length (rd_checks st)"
    "st' = fst (finish_if_ready (pk_finished_at_ms k)
      (st\<lparr>rd_checks := record_probe (pk_observed_at_ms k) ev j (rd_checks st)\<rparr>))"
  have "list_all (\<lambda>c. ck_ready_at_ms c = None \<longleftrightarrow> ck_evidence c = None) (rd_checks st)"
    using assms(1) by (simp add: rd_consistent_def)
  then have "list_all (\<lambda>c. ck_ready_at_ms c = None \<longleftrightarrow> ck_evidence c = None)
      (record_probe (pk_observed_at_ms k) ev j (rd_checks st))"
    using a(2) by (auto simp: list_all_length record_probe_def nth_list_update)
  then show ?thesis using rd_consistent_finish [OF assms(1) a(1)] by (simp add: a(3))
qed (use assms(1) in \<open>auto simp: rd_consistent_def\<close>)

lemma rd_consistent_exit: "rd_consistent st \<Longrightarrow> rd_consistent (fst (process_exited st))"
  by (auto simp: rd_consistent_def process_exited_def)

lemma rd_step_consistent: "rd_step (t, st) (t', st') \<Longrightarrow> rd_consistent st \<Longrightarrow> rd_consistent st'"
  by (erule rd_stepE)
    (auto dest: rd_consistent_observe rd_consistent_poll rd_consistent_exit)

lemma rd_step_settled: "rd_step (t, st) (t', st') \<Longrightarrow> rd_status st \<noteq> RdPending \<Longrightarrow> st' = st"
  by (erule rd_stepE) (auto simp: observe_log_idle poll_idle process_exited_def)

interpretation readiness: settling_system rd_start rd_step "\<lambda>s. rd_consistent (snd s)" snd
  "\<lambda>st. rd_status st \<noteq> RdPending"
  by unfold_locales (auto simp: rd_start_def rd_consistent_new dest: rd_step_consistent rd_step_settled)

text \<open>
  C15: whatever the order of log chunks, polls and the exit of the process, the persisted
  readiness is consistent: it is \<open>ready\<close> only when every check has recorded its evidence and
  never stays \<open>pending\<close> once all have, it carries a ready timestamp exactly when it is ready and
  a failure reason exactly when it timed out or failed, and a check has evidence exactly when it
  has a ready timestamp.
\<close>

theorem readiness_consistent:
  assumes "rd_step\<^sup>*\<^sup>* (tracker_new, readiness_state_new conditions limit created) (t, st)"
  shows "rd_consistent st"
  using readiness.reachable_inv [OF _ assms] by (auto simp: rd_start_def)

theorem readiness_consistent_witness:
  "rd_consistent (fst (process_exited (readiness_state_new [Log ''up''] 5 0)))"
proof -
  have "rd_step (tracker_new, readiness_state_new [Log ''up''] 5 0)
      (tracker_new, fst (process_exited (readiness_state_new [Log ''up''] 5 0)))"
    by (rule rd_exit) (simp add: process_exited_def)
  then show ?thesis by (intro readiness_consistent) (rule r_into_rtranclp)
qed

text \<open>
  A decided readiness is final. Once the status is no longer \<open>pending\<close>, no later chunk,
  poll or exit changes anything of the persisted readiness: a service that timed out never
  becomes ready afterwards, and one that was ready is not failed by its own exit.
\<close>

theorem readiness_final:
  assumes "rd_step\<^sup>*\<^sup>* (tracker_new, readiness_state_new conditions limit created) (t, st)"
    and "rd_status st \<noteq> RdPending" and "rd_step\<^sup>*\<^sup>* (t, st) (t', st')"
  shows "st' = st"
  using readiness.settled_stays [OF _ assms(1) _ assms(3)] assms(2) by (auto simp: rd_start_def)

theorem readiness_final_witness:
  "\<exists>t' st'. rd_step (tracker_new, readiness_state_new [] 5 0) (t', st') \<and>
     st' = readiness_state_new [] 5 0"
proof -
  have s: "rd_step (tracker_new, readiness_state_new [] 5 0)
      (tracker_new, fst (process_exited (readiness_state_new [] 5 0)))"
    by (rule rd_exit [OF prod.collapse [symmetric]])
  have "fst (process_exited (readiness_state_new [] 5 0)) = readiness_state_new [] 5 0"
    by (rule readiness_final [OF rtranclp.rtrancl_refl _ r_into_rtranclp [of rd_step, OF s]]) simp
  then show ?thesis using s by metis
qed

end
