(* ===== verification/Supervisor.thy ===== *)
theory Supervisor
  imports Leases Readiness_Poll Log_Writer
begin

text \<open>
  The supervisor of \<^verbatim>\<open>src/supervisor.rs\<close>. \<open>begin_supervision\<close> and \<open>spawn_process\<close> are the part of
  \<open>supervise_locked\<close> before its loop, \<open>supervise_tick\<close> is one iteration of the loop,
  \<open>supervise\<close> the whole. The memory of the supervisor and the world it works on are one record; an
  operation gives the new record with its result, so the effects before an error are kept, and
  \<open>thenW\<close> is the operator \<open>?\<close>. What the system answers in an iteration is a \<open>tick\<close>: the clock at each
  point that reads it, the chunks the channel delivers, the outcomes of signals, waits, writes and
  probes, and what other processes do to the world. A sequence of answers that ends while the code
  still waits gives \<open>Waiting\<close>.
\<close>

section \<open>Libraries and the platform\<close>

record ('u, 'd) libs =
  lb_ulid :: "'u ulid_lib"
  lb_state :: "run_state json_codec"
  lb_spec :: "supervisor_spec json_codec"
  lb_stop :: "stop_request json_codec"
  lb_registry :: "port_registry json_codec"
  lb_log :: log_codec
  lb_digest :: "'d digest_lib"
  lb_windows :: bool
  lb_utf8 :: "string \<Rightarrow> bool"

definition state_path :: "path \<Rightarrow> path" where
  "state_path dir = dir @ [''state.json'']"

definition stop_path :: "path \<Rightarrow> path" where
  "stop_path dir = dir @ [''stop.request.json'']"

definition persist_state ::
  "('u, 'd) libs \<Rightarrow> path \<Rightarrow> run_state \<Rightarrow> world \<Rightarrow> world \<times> (app_error + unit)" where
  "persist_state lb dir st w = atomic_write_json (lb_state lb) (state_path dir) st w"

section \<open>The child\<close>

datatype child_signal = Terminate | Kill

record exit_status =
  es_code :: "i32 option"
  es_signal :: "i32 option"

record stopping =
  sg_deadline :: instant
  sg_force_sent :: bool
  sg_reason :: exit_reason

datatype 'a progress = Returned 'a | Waiting

text \<open>Everything the supervisor owns once the process runs. \<open>su_sent\<close> are the signals sent so far.\<close>

record 'd sup =
  su_world :: world
  su_sent :: "child_signal list"
  su_armed :: bool
  su_state :: run_state
  su_alloc :: lease_allocation
  su_logs :: "'d log_writer"
  su_tracker :: readiness_tracker
  su_stopping :: "stopping option"
  su_last_write :: instant

definition in_world :: "(world \<Rightarrow> world \<times> (app_error + 'a)) \<Rightarrow> 'd sup \<Rightarrow> 'd sup \<times> (app_error + 'a)" where
  "in_world f su = (let (w, r) = f (su_world su) in (su\<lparr>su_world := w\<rparr>, r))"

definition on_state :: "(run_state \<Rightarrow> run_state) \<Rightarrow> 'd sup \<Rightarrow> 'd sup" where
  "on_state f su = su\<lparr>su_state := f (su_state su)\<rparr>"

definition on_cleanup :: "(cleanup_info \<Rightarrow> cleanup_info) \<Rightarrow> 'd sup \<Rightarrow> 'd sup" where
  "on_cleanup f = on_state (\<lambda>st. st\<lparr>rs_cleanup := f (rs_cleanup st)\<rparr>)"

definition persist :: "('u, 'd) libs \<Rightarrow> path \<Rightarrow> 'd sup \<Rightarrow> 'd sup \<times> (app_error + unit)" where
  "persist lb dir su = in_world (persist_state lb dir (su_state su)) su"

definition is_process_gone :: "io_error \<Rightarrow> bool" where
  "is_process_gone e \<longleftrightarrow> io_kind e = NotFound \<or> io_kind e = InvalidInput \<or> io_raw e = Some 3"

definition send_signal :: "child_signal \<Rightarrow> 'd sup \<Rightarrow> 'd sup" where
  "send_signal s su = su\<lparr>su_sent := su_sent su @ [s]\<rparr>"

definition start_kill_tolerant :: "io_error + unit \<Rightarrow> 'd sup \<Rightarrow> 'd sup \<times> (app_error + bool)" where
  "start_kill_tolerant outcome su =
     (send_signal Kill su,
      case outcome of Inr _ \<Rightarrow> Inr True | Inl e \<Rightarrow> if is_process_gone e then Inr False else Inl (from_io e))"

definition request_stop ::
  "('u, 'd) libs \<Rightarrow> io_error + unit \<Rightarrow> instant \<Rightarrow> u64 \<Rightarrow> exit_reason \<Rightarrow> 'd sup \<Rightarrow>
   'd sup \<times> (app_error + stopping)" where
  "request_stop lb outcome now grace_ms reason su =
     (let su = on_cleanup (\<lambda>cl. cl\<lparr>cl_descendant_cleanup_triggered := True\<rparr>) su in
      if lb_windows lb then
        thenW (start_kill_tolerant outcome su) (\<lambda>_ su.
          (on_cleanup (\<lambda>cl. cl\<lparr>cl_force_used := True\<rparr>) su,
           Inr \<lparr>sg_deadline = now, sg_force_sent = True, sg_reason = reason\<rparr>))
      else
        (send_signal Terminate su,
         case outcome of
           Inl e \<Rightarrow> if is_process_gone e
             then Inr \<lparr>sg_deadline = now + unat grace_ms * 1000000, sg_force_sent = False, sg_reason = reason\<rparr>
             else Inl (from_io e)
         | Inr _ \<Rightarrow>
             Inr \<lparr>sg_deadline = now + unat grace_ms * 1000000, sg_force_sent = False, sg_reason = reason\<rparr>))"

text \<open>The loop around \<open>try_wait\<close>: an interrupted call is repeated.\<close>

fun try_wait_retry :: "(io_error + exit_status option) list \<Rightarrow> app_error + exit_status option progress" where
  "try_wait_retry [] = Inr Waiting"
| "try_wait_retry (Inr status # answers) = Inr (Returned status)"
| "try_wait_retry (Inl e # answers) =
     (if io_kind e = Interrupted then try_wait_retry answers else Inl (from_io e))"

definition exit_info_of :: "('u, 'd) libs \<Rightarrow> u64 \<Rightarrow> exit_status \<Rightarrow> exit_reason \<Rightarrow> exit_info" where
  "exit_info_of lb now status reason =
     \<lparr>ex_code = es_code status, ex_signal = (if lb_windows lb then None else es_signal status),
      ex_reason = reason, ex_finished_at_ms = now\<rparr>"

section \<open>The logs\<close>

text \<open>A chunk with the clock readings of its handling and the outcome of writing its record.\<close>

record arrival =
  ar_chunk :: log_chunk
  ar_now :: "nat \<Rightarrow> u64"
  ar_finished_at :: u64
  ar_recorded_at :: u64
  ar_outcome :: write_outcome

definition record_chunk :: "('u, 'd) libs \<Rightarrow> arrival \<Rightarrow> 'd sup \<Rightarrow> 'd sup \<times> (app_error + bool)" where
  "record_chunk lb a su =
     (let (tracker, readiness, changed) =
            observe_log (ar_now a) (ar_finished_at a) (ch_stream (ar_chunk a))
              (capturable_bytes (su_logs su) (ar_chunk a)) (su_tracker su) (rs_readiness (su_state su));
          su = on_state (\<lambda>st. st\<lparr>rs_readiness := readiness\<rparr>) (su\<lparr>su_tracker := tracker\<rparr>);
          (logs, r) = record_log (lb_log lb) (lb_digest lb) (ar_outcome a) (ar_recorded_at a)
            (ar_chunk a) (su_logs su)
      in (su\<lparr>su_logs := logs\<rparr>, bindE r (\<lambda>_. Inr changed)))"

definition log_drain_batch_chunks :: nat where
  "log_drain_batch_chunks = 64"

record drain_outcome =
  dr_readiness_changed :: bool
  dr_saturated :: bool

fun drain_batch ::
  "('u, 'd) libs \<Rightarrow> nat \<Rightarrow> arrival list \<Rightarrow> bool \<Rightarrow> 'd sup \<Rightarrow> 'd sup \<times> (app_error + drain_outcome)" where
  "drain_batch lb 0 arrivals changed su =
     (su, Inr \<lparr>dr_readiness_changed = changed, dr_saturated = True\<rparr>)"
| "drain_batch lb (Suc n) [] changed su =
     (su, Inr \<lparr>dr_readiness_changed = changed, dr_saturated = False\<rparr>)"
| "drain_batch lb (Suc n) (a # arrivals) changed su =
     thenW (record_chunk lb a su) (\<lambda>c su. drain_batch lb n arrivals (changed \<or> c) su)"

definition drain_available ::
  "('u, 'd) libs \<Rightarrow> arrival list \<Rightarrow> 'd sup \<Rightarrow> 'd sup \<times> (app_error + drain_outcome)" where
  "drain_available lb arrivals su = drain_batch lb log_drain_batch_chunks arrivals False su"

text \<open>
  One turn of \<open>drain_until_closed\<close> reads the clock and receives; its last turn, when no time is
  left, does not wait. Instants are in nanoseconds.
\<close>

definition log_drain_limit :: nat where
  "log_drain_limit = 2 * 1000000000"

datatype receipt = Chunk arrival | Empty | Disconnected

fun drain_until_closed ::
  "('u, 'd) libs \<Rightarrow> instant \<Rightarrow> (instant \<times> receipt) list \<Rightarrow> 'd sup \<Rightarrow>
   'd sup \<times> (app_error + unit progress)" where
  "drain_until_closed lb deadline [] su = (su, Inr Waiting)"
| "drain_until_closed lb deadline ((now, receipt) # turns) su =
     (if deadline - now = 0
      then (su, case receipt of
          Disconnected \<Rightarrow> Inr (Returned ())
        | _ \<Rightarrow> Inl (operational ''log_drain_timeout''
            ''log capture did not close within the bounded drain period''))
      else (case receipt of
          Chunk a \<Rightarrow> thenW (record_chunk lb a su) (\<lambda>_ su. drain_until_closed lb deadline turns su)
        | Empty \<Rightarrow> drain_until_closed lb deadline turns su
        | Disconnected \<Rightarrow> (su, Inr (Returned ()))))"

section \<open>One iteration of the loop\<close>

text \<open>The points of an iteration that read a clock.\<close>

datatype reading =
  At_readiness | At_stop | At_deadline | At_trigger | At_force | At_drain | At_release | At_end | At_exit |
  At_snapshot

record tick =
  tk_others :: "world \<Rightarrow> world"
  tk_meanwhile :: "world \<Rightarrow> world"
  tk_now :: "reading \<Rightarrow> u64"
  tk_instant :: "reading \<Rightarrow> instant"
  tk_arrivals :: "arrival list"
  tk_poll :: poll_clock
  tk_probe :: "readiness_condition \<Rightarrow> string option"
  tk_signal :: "io_error + unit"
  tk_force :: "io_error + unit"
  tk_wait :: "(io_error + exit_status option) list"
  tk_rest :: "io_error + unit"
  tk_turns :: "(instant \<times> receipt) list"
  tk_synced :: "app_error + unit"

definition stamp :: "tick \<Rightarrow> reading \<Rightarrow> 'd sup \<Rightarrow> 'd sup" where
  "stamp tk at = on_state (\<lambda>st. st\<lparr>rs_updated_at_ms := tk_now tk at\<rparr>)"

definition poll_readiness ::
  "('u, 'd) libs \<Rightarrow> path \<Rightarrow> tick \<Rightarrow> bool \<Rightarrow> 'd sup \<Rightarrow> 'd sup \<times> (app_error + unit)" where
  "poll_readiness lb dir tk drained su =
     (let (tracker, readiness, polled) =
            poll (tk_poll tk) (tk_probe tk) (su_tracker su) (rs_readiness (su_state su));
          su = on_state (\<lambda>st. st\<lparr>rs_readiness := readiness\<rparr>) (su\<lparr>su_tracker := tracker\<rparr>)
      in if drained \<or> polled
         then thenW (persist lb dir (stamp tk At_readiness su)) (\<lambda>_ su.
           (su\<lparr>su_last_write := tk_instant tk At_readiness\<rparr>, Inr ()))
         else (su, Inr ()))"

text \<open>\<open>meanwhile\<close> is what other processes do between the failed read and the look at the path.\<close>

definition read_stop_request ::
  "('u, 'd) libs \<Rightarrow> path \<Rightarrow> supervisor_spec \<Rightarrow> (world \<Rightarrow> world) \<Rightarrow> world \<Rightarrow>
   world \<times> (app_error + stop_request option)" where
  "read_stop_request lb dir spec meanwhile w =
     (case read_json (lb_stop lb) w (stop_path dir) of
        Inl e \<Rightarrow>
          let w = meanwhile w in
          (w, if err_kind e = ''io'' \<and> \<not> path_exists w (stop_path dir) then Inr None else Inl e)
      | Inr request \<Rightarrow>
          if sq_schema_version request \<noteq> ''procherd.stop-request.v1'' \<or>
             sq_run_id request \<noteq> sp_run_id spec \<or> sq_owner_token request \<noteq> sp_owner_token spec
          then (w, Inl (integrity ''stop request failed run identity or owner-token validation''))
          else thenW (remove_file (stop_path dir) w) (\<lambda>_ w. (w, Inr (Some request))))"

text \<open>The two ways to begin a stop: a request, or the end of the time the run may take.\<close>

definition begin_stop ::
  "('u, 'd) libs \<Rightarrow> path \<Rightarrow> tick \<Rightarrow> u64 \<Rightarrow> exit_reason \<Rightarrow> 'd sup \<Rightarrow> 'd sup \<times> (app_error + unit)" where
  "begin_stop lb dir tk grace_ms reason su =
     thenW (request_stop lb (tk_signal tk) (tk_instant tk At_stop) grace_ms reason su) (\<lambda>stopping su.
       persist lb dir (su\<lparr>su_stopping := Some stopping\<rparr>))"

definition stop_requested :: "tick \<Rightarrow> stop_request \<Rightarrow> run_state \<Rightarrow> run_state" where
  "stop_requested tk request st = st
     \<lparr>rs_status := Stopping, rs_updated_at_ms := tk_now tk At_stop,
      rs_cleanup := (rs_cleanup st)\<lparr>cl_requested_at_ms := Some (sq_requested_at_ms request),
        cl_grace_ms := Some (sq_grace_ms request)\<rparr>\<rparr>"

definition limit_reached :: "supervisor_spec \<Rightarrow> tick \<Rightarrow> run_state \<Rightarrow> run_state" where
  "limit_reached spec tk st = st
     \<lparr>rs_status := Stopping, rs_updated_at_ms := tk_now tk At_trigger,
      rs_limits := (rs_limits st)\<lparr>rl_runtime_limit_triggered_at_ms := Some (tk_now tk At_trigger)\<rparr>,
      rs_cleanup := (rs_cleanup st)\<lparr>cl_requested_at_ms := Some (tk_now tk At_trigger),
        cl_grace_ms := Some (sp_runtime_grace_ms spec)\<rparr>\<rparr>"

definition past_deadline :: "tick \<Rightarrow> run_state \<Rightarrow> bool" where
  "past_deadline tk st \<longleftrightarrow>
     (case rl_runtime_deadline_at_ms (rs_limits st) of
        None \<Rightarrow> False | Some deadline \<Rightarrow> deadline \<le> tk_now tk At_deadline)"

definition check_stop ::
  "('u, 'd) libs \<Rightarrow> path \<Rightarrow> supervisor_spec \<Rightarrow> tick \<Rightarrow> 'd sup \<Rightarrow> 'd sup \<times> (app_error + unit)" where
  "check_stop lb dir spec tk su =
     (case su_stopping su of
        None \<Rightarrow>
          thenW (in_world (read_stop_request lb dir spec (tk_meanwhile tk)) su) (\<lambda>request su.
            case request of
              Some request \<Rightarrow>
                begin_stop lb dir tk (sq_grace_ms request) StopRequested (on_state (stop_requested tk request) su)
            | None \<Rightarrow>
                if past_deadline tk (su_state su)
                then begin_stop lb dir tk (sp_runtime_grace_ms spec) RuntimeLimit
                  (on_state (limit_reached spec tk) su)
                else (su, Inr ()))
      | Some stopping \<Rightarrow>
          if \<not> sg_force_sent stopping \<and> sg_deadline stopping \<le> tk_instant tk At_force then
            thenW (start_kill_tolerant (tk_force tk) su) (\<lambda>killed su.
              persist lb dir (stamp tk At_force
                (on_cleanup (\<lambda>cl. cl\<lparr>cl_descendant_cleanup_triggered := cl_descendant_cleanup_triggered cl \<or> killed,
                     cl_force_used := True\<rparr>)
                  (su\<lparr>su_stopping := Some (stopping\<lparr>sg_force_sent := True\<rparr>)\<rparr>))))
          else (su, Inr ()))"

text \<open>The process has exited: the run is closed.\<close>

definition closed_run ::
  "('u, 'd) libs \<Rightarrow> tick \<Rightarrow> exit_status \<Rightarrow> stopping option \<Rightarrow> run_state \<Rightarrow> run_state" where
  "closed_run lb tk status stopping st = st
     \<lparr>rs_updated_at_ms := tk_now tk At_end,
      rs_cleanup := (rs_cleanup st)\<lparr>cl_completed_at_ms := Some (tk_now tk At_end)\<rparr>,
      rs_status := (if stopping = None then Exited else Stopped),
      rs_exit := Some (exit_info_of lb (tk_now tk At_exit) status
        (case stopping of None \<Rightarrow> ProcessExited | Some s \<Rightarrow> sg_reason s))\<rparr>"

definition finish_run ::
  "('u, 'd) libs \<Rightarrow> path \<Rightarrow> path \<Rightarrow> tick \<Rightarrow> exit_status \<Rightarrow> 'd sup \<Rightarrow> 'd sup \<times> (app_error + unit)" where
  "finish_run lb root dir tk status su =
     (let su = on_state (\<lambda>st. st\<lparr>rs_readiness := fst (process_exited (rs_readiness st))\<rparr>) su in
      thenW (su, log_finish (lb_digest lb) (tk_synced tk) (su_logs su)) (\<lambda>summary su.
      let su = on_state (\<lambda>st. st\<lparr>rs_logs := summary\<rparr>) su in
      thenW (in_world (release_leases (lb_ulid lb) (lb_registry lb) (tk_now tk At_release) root
          (su_alloc su) (su_state su)) su) (\<lambda>(st, alloc) su.
        persist lb dir (su\<lparr>su_alloc := alloc, su_state := closed_run lb tk status (su_stopping su) st\<rparr>))))"

datatype tick_end = Again | Finished | Stuck

definition check_exit ::
  "('u, 'd) libs \<Rightarrow> path \<Rightarrow> path \<Rightarrow> tick \<Rightarrow> 'd sup \<Rightarrow> 'd sup \<times> (app_error + tick_end)" where
  "check_exit lb root dir tk su =
     (case try_wait_retry (tk_wait tk) of
        Inl e \<Rightarrow> (su, Inl e)
      | Inr Waiting \<Rightarrow> (su, Inr Stuck)
      | Inr (Returned (Some status)) \<Rightarrow>
          thenW (start_kill_tolerant (tk_rest tk) su) (\<lambda>killed su.
            let su = (if killed then on_cleanup (\<lambda>cl. cl\<lparr>cl_descendant_cleanup_triggered := True,
                        cl_force_used := cl_force_used cl \<or> su_stopping su \<noteq> None\<rparr>) su else su) in
            thenW (drain_until_closed lb (tk_instant tk At_drain + log_drain_limit) (tk_turns tk)
                (su\<lparr>su_armed := False\<rparr>)) (\<lambda>drained su.
              case drained of
                Waiting \<Rightarrow> (su, Inr Stuck)
              | Returned _ \<Rightarrow> thenW (finish_run lb root dir tk status su) (\<lambda>_ su. (su, Inr Finished))))
      | Inr (Returned None) \<Rightarrow>
          if 250000000 \<le> tk_instant tk At_snapshot - su_last_write su
          then thenW (persist lb dir (stamp tk At_snapshot
                 (on_state (\<lambda>st. st\<lparr>rs_logs := log_snapshot (su_logs su)\<rparr>) su))) (\<lambda>_ su.
               (su\<lparr>su_last_write := tk_instant tk At_snapshot\<rparr>, Inr Again))
          else (su, Inr Again))"

definition supervise_tick ::
  "('u, 'd) libs \<Rightarrow> path \<Rightarrow> path \<Rightarrow> supervisor_spec \<Rightarrow> tick \<Rightarrow> 'd sup \<Rightarrow> 'd sup \<times> (app_error + tick_end)" where
  "supervise_tick lb root dir spec tk su =
     thenW (drain_available lb (tk_arrivals tk) (su\<lparr>su_world := tk_others tk (su_world su)\<rparr>)) (\<lambda>drain su.
     thenW (poll_readiness lb dir tk (dr_readiness_changed drain) su) (\<lambda>_ su.
     thenW (check_stop lb dir spec tk su) (\<lambda>_ su.
     check_exit lb root dir tk su)))"

fun supervise_loop ::
  "('u, 'd) libs \<Rightarrow> path \<Rightarrow> path \<Rightarrow> supervisor_spec \<Rightarrow> tick list \<Rightarrow> 'd sup \<Rightarrow>
   'd sup \<times> (app_error + unit progress)" where
  "supervise_loop lb root dir spec [] su = (su, Inr Waiting)"
| "supervise_loop lb root dir spec (tk # tks) su =
     thenW (supervise_tick lb root dir spec tk su) (\<lambda>tick_end su.
       case tick_end of
         Again \<Rightarrow> supervise_loop lb root dir spec tks su
       | Finished \<Rightarrow> (su, Inr (Returned ()))
       | Stuck \<Rightarrow> (su, Inr Waiting))"

section \<open>Before the loop\<close>

text \<open>What the system answers before the loop.\<close>

record boot =
  bt_supervisor_pid :: u32
  bt_starting_at_ms :: u64
  bt_acquired_at_ms :: u64
  bt_bind :: "nat \<Rightarrow> io_error + u16"
  bt_entry_at_ms :: "string \<Rightarrow> u64"
  bt_handoff_at_ms :: u64
  bt_spawn :: "io_error + u32"
  bt_failed_at_ms :: u64
  bt_failed_exit_at_ms :: u64
  bt_released_at_ms :: u64
  bt_spawned_at_ms :: u64
  bt_running_at_ms :: u64
  bt_logs_created :: "app_error + unit"
  bt_loop_at :: instant

definition load_documents :: "('u, 'd) libs \<Rightarrow> path \<Rightarrow> world \<Rightarrow> app_error + supervisor_spec \<times> run_state" where
  "load_documents lb dir w =
     bindE (read_json (lb_spec lb) w (dir @ [''spec.json''])) (\<lambda>spec.
       if sp_schema_version spec \<noteq> ''procherd.supervisor-spec.v1''
       then Inl (integrity (''unsupported supervisor spec '' @ sp_schema_version spec))
       else bindE (read_json (lb_state lb) w (state_path dir)) (\<lambda>st.
         if rs_schema_version st \<noteq> run_schema_version \<or>
            rs_run_id st \<noteq> sp_run_id spec \<or>
            cmd_program (rs_command st) \<noteq> cmd_program (sp_command spec) \<or>
            cmd_args (rs_command st) \<noteq> cmd_args (sp_command spec) \<or>
            rs_readiness st \<noteq> sp_readiness spec \<or>
            rl_max_runtime_ms (rs_limits st) \<noteq> sp_max_runtime_ms spec \<or>
            rl_runtime_grace_ms (rs_limits st) \<noteq> sp_runtime_grace_ms spec
         then Inl (integrity ''supervisor spec does not match run state'')
         else Inr (spec, st)))"

definition begin_supervision ::
  "('u, 'd) libs \<Rightarrow> boot \<Rightarrow> path \<Rightarrow> world \<Rightarrow>
   world \<times> (app_error + supervisor_spec \<times> run_state \<times> lease_allocation)" where
  "begin_supervision lb bt dir w =
     (case load_documents lb dir w of
        Inl e \<Rightarrow> (w, Inl e)
      | Inr (spec, st) \<Rightarrow>
          thenW (remove_file (dir @ [''spec.json'']) w) (\<lambda>_ w.
            let st = st\<lparr>rs_status := Starting, rs_updated_at_ms := bt_starting_at_ms bt,
                  rs_process := (rs_process st)\<lparr>pi_supervisor_pid := Some (bt_supervisor_pid bt)\<rparr>\<rparr>
            in thenW (persist_state lb dir st w) (\<lambda>_ w.
            if dir = [] then (w, Inl (integrity ''run directory has no state-root parent''))
            else
              let root = butlast dir in
              thenW (acquire_leases (lb_ulid lb) (lb_registry lb) (lb_windows lb) (lb_utf8 lb) (bt_bind bt)
                  (bt_entry_at_ms bt) (bt_acquired_at_ms bt) root dir st (sp_lease_requests spec) w)
                (\<lambda>(st, alloc) w.
                  case persist_state lb dir st w of
                    (w, Inl e) \<Rightarrow> (drop_allocation (lb_ulid lb) (lb_registry lb) root alloc w, Inl e)
                  | (w, Inr _) \<Rightarrow> (w, Inr (spec, st, alloc))))))"

definition spawn_failed :: "boot \<Rightarrow> io_error \<Rightarrow> run_state \<Rightarrow> run_state" where
  "spawn_failed bt e st = st
     \<lparr>rs_status := Failed, rs_updated_at_ms := bt_failed_at_ms bt,
      rs_exit := Some \<lparr>ex_code = None, ex_signal = None, ex_reason = SpawnFailed,
        ex_finished_at_ms = bt_failed_exit_at_ms bt\<rparr>,
      rs_failure := Some \<lparr>fi_kind = ''process_spawn'', fi_message = io_text e\<rparr>\<rparr>"

definition spawned :: "boot \<Rightarrow> supervisor_spec \<Rightarrow> u32 \<Rightarrow> run_state \<Rightarrow> run_state" where
  "spawned bt spec pid st =
     (let st = record_spawn (bt_spawned_at_ms bt) st in st
       \<lparr>rs_limits := (rs_limits st)\<lparr>rl_runtime_deadline_at_ms :=
           map_option (\<lambda>runtime. sat_add (bt_spawned_at_ms bt) runtime) (sp_max_runtime_ms spec)\<rparr>,
        rs_status := Running, rs_updated_at_ms := bt_running_at_ms bt,
        rs_process := (rs_process st)\<lparr>pi_process_pid := Some pid\<rparr>\<rparr>)"

text \<open>
  When the owned child is dropped while it is armed it is killed, and then the allocation is
  dropped. \<open>leave\<close> gives what is left of the memory of the supervisor: the world and the signals.
\<close>

definition leave ::
  "('u, 'd) libs \<Rightarrow> path \<Rightarrow> bool \<Rightarrow> lease_allocation \<Rightarrow> world \<Rightarrow> child_signal list \<Rightarrow> world \<times> child_signal list"
  where
  "leave lb root armed alloc w sent =
     (drop_allocation (lb_ulid lb) (lb_registry lb) root alloc w, if armed then sent @ [Kill] else sent)"

definition spawn_process ::
  "('u, 'd) libs \<Rightarrow> boot \<Rightarrow> path \<Rightarrow> path \<Rightarrow> supervisor_spec \<Rightarrow> run_state \<Rightarrow> lease_allocation \<Rightarrow> world \<Rightarrow>
   (world \<times> child_signal list) \<times> (app_error + 'd sup)" where
  "spawn_process lb bt root dir spec st alloc w =
     (let (alloc, st) = handoff (bt_handoff_at_ms bt) alloc st in
      case bt_spawn bt of
        Inl error \<Rightarrow>
          (case release_leases (lb_ulid lb) (lb_registry lb) (bt_released_at_ms bt) root alloc
              (spawn_failed bt error st) w of
             (w, Inl e) \<Rightarrow> (leave lb root False alloc w [], Inl e)
           | (w, Inr (st, alloc)) \<Rightarrow>
               (case persist_state lb dir st w of
                  (w, Inl e) \<Rightarrow> (leave lb root False alloc w [], Inl e)
                | (w, Inr _) \<Rightarrow> (leave lb root False alloc w [], Inl (operational ''process_spawn''
                    (''cannot start '' @ cmd_program (sp_command spec) @ '': '' @ io_text error)))))
      | Inr pid \<Rightarrow>
          let st = spawned bt spec pid st in
          (case persist_state lb dir st w of
             (w, Inl e) \<Rightarrow> (leave lb root True alloc w [], Inl e)
           | (w, Inr _) \<Rightarrow>
               (case log_writer_create (lb_digest lb) (bt_logs_created bt) (sp_max_log_bytes spec) of
                  Inl e \<Rightarrow> (leave lb root True alloc w [], Inl e)
                | Inr logs \<Rightarrow>
                    ((w, []), Inr \<lparr>su_world = w, su_sent = [], su_armed = True, su_state = st, su_alloc = alloc,
                      su_logs = logs, su_tracker = tracker_new, su_stopping = None,
                      su_last_write = bt_loop_at bt\<rparr>))))"

definition supervise_locked ::
  "('u, 'd) libs \<Rightarrow> boot \<Rightarrow> tick list \<Rightarrow> path \<Rightarrow> world \<Rightarrow>
   (world \<times> child_signal list) \<times> (app_error + unit progress)" where
  "supervise_locked lb bt ticks dir w =
     (case begin_supervision lb bt dir w of
        (w, Inl e) \<Rightarrow> ((w, []), Inl e)
      | (w, Inr (spec, st, alloc)) \<Rightarrow>
          let root = butlast dir in
          thenW (spawn_process lb bt root dir spec st alloc w) (\<lambda>su _.
            case supervise_loop lb root dir spec ticks su of
              (su, Inr Waiting) \<Rightarrow> ((su_world su, su_sent su), Inr Waiting)
            | (su, r) \<Rightarrow> (leave lb root (su_armed su) (su_alloc su) (su_world su) (su_sent su), r)))"

section \<open>The whole supervisor\<close>

definition close_port :: "u64 \<Rightarrow> port_lease \<Rightarrow> port_lease" where
  "close_port at l =
     (if pl_acquired_at_ms l \<noteq> None \<and> pl_released_at_ms l = None then l\<lparr>pl_released_at_ms := Some at\<rparr> else l)"

definition close_temp :: "u64 \<Rightarrow> temp_directory_lease \<Rightarrow> temp_directory_lease" where
  "close_temp at l =
     (if td_acquired_at_ms l \<noteq> None \<and> td_released_at_ms l = None then l\<lparr>td_released_at_ms := Some at\<rparr> else l)"

definition supervisor_failed :: "u64 \<Rightarrow> u64 \<Rightarrow> app_error \<Rightarrow> run_state \<Rightarrow> run_state" where
  "supervisor_failed at exit_at e st = st
     \<lparr>rs_status := Failed, rs_updated_at_ms := at,
      rs_exit := Some \<lparr>ex_code = None, ex_signal = None, ex_reason = SupervisorFailed,
        ex_finished_at_ms = exit_at\<rparr>,
      rs_failure := Some \<lparr>fi_kind = err_kind e, fi_message = err_message e\<rparr>,
      rs_cleanup := (rs_cleanup st)\<lparr>cl_completed_at_ms := Some at\<rparr>,
      rs_leases := \<lparr>ls_ports = map (close_port at) (ls_ports (rs_leases st)),
        ls_temp_directories = map (close_temp at) (ls_temp_directories (rs_leases st))\<rparr>\<rparr>"

definition mark_supervisor_failed ::
  "('u, 'd) libs \<Rightarrow> u64 \<Rightarrow> u64 \<Rightarrow> path \<Rightarrow> app_error \<Rightarrow> world \<Rightarrow> world" where
  "mark_supervisor_failed lb at exit_at dir e w =
     (case read_json (lb_state lb) w (state_path dir) of
        Inl _ \<Rightarrow> w
      | Inr st \<Rightarrow>
          if is_terminal (rs_status st) then w
          else fst (persist_state lb dir (supervisor_failed at exit_at e st) w))"

text \<open>The lock is waited for, and held until the supervisor ends.\<close>

definition open_supervisor_lock :: "path \<Rightarrow> world \<Rightarrow> app_error + path" where
  "open_supervisor_lock dir w =
     (let path = dir @ [''supervisor.lock''] in
      bindE (ensure_regular_file w path) (\<lambda>_.
      bindE (map_err from_io (open_file w path)) (\<lambda>_.
      bindE (map_err from_io (attempt w Lock path)) (\<lambda>_. Inr path))))"

definition lock_node :: "path \<Rightarrow> world \<Rightarrow> world" where
  "lock_node p w = w\<lparr>w_locked := p # w_locked w\<rparr>"

definition unlock_node :: "path \<Rightarrow> world \<Rightarrow> world" where
  "unlock_node p w = w\<lparr>w_locked := remove1 p (w_locked w)\<rparr>"

definition supervise ::
  "('u, 'd) libs \<Rightarrow> boot \<Rightarrow> tick list \<Rightarrow> u64 \<Rightarrow> u64 \<Rightarrow> path \<Rightarrow> world \<Rightarrow>
   (world \<times> child_signal list) \<times> (app_error + unit progress)" where
  "supervise lb bt ticks failed_at failed_exit_at dir w =
     (case open_supervisor_lock dir w of
        Inl e \<Rightarrow> ((w, []), Inl e)
      | Inr lock \<Rightarrow>
          (case supervise_locked lb bt ticks dir (lock_node lock w) of
             ((w, sent), Inl e) \<Rightarrow>
               ((unlock_node lock (mark_supervisor_failed lb failed_at failed_exit_at dir e w), sent), Inl e)
           | ((w, sent), Inr Waiting) \<Rightarrow> ((w, sent), Inr Waiting)
           | ((w, sent), Inr (Returned _)) \<Rightarrow> ((unlock_node lock w, sent), Inr (Returned ()))))"

end
