(* ===== verification/Views.thy ===== *)
theory Views
  imports Supervisor
begin

text \<open>
  How the command line observes runs, \<^verbatim>\<open>src/cli.rs\<close>: \<open>load_view\<close> with the pairing of state and
  lock, the listing, and the collection of old runs. A command is interleaved with other processes:
  the record \<open>meanwhile\<close> holds what they do to the world before each look of an observation. Results
  are the documents that the command renders.
\<close>

section \<open>Observing a run\<close>

record meanwhile =
  mw_first :: "world \<Rightarrow> world"
  mw_lock :: "world \<Rightarrow> world"
  mw_again :: "world \<Rightarrow> world"

definition still :: meanwhile where
  "still = \<lparr>mw_first = (\<lambda>w. w), mw_lock = (\<lambda>w. w), mw_again = (\<lambda>w. w)\<rparr>"

lemma still_simps [simp]: "mw_first still w = w" "mw_lock still w = w" "mw_again still w = w"
  by (simp_all add: still_def)

definition state_of :: "('u, 'd) libs \<Rightarrow> path \<Rightarrow> world \<Rightarrow> string \<Rightarrow> app_error + run_state" where
  "state_of lb root w run_id = read_state (lb_ulid lb) (lb_state lb) root w run_id"

definition supported :: "run_state \<Rightarrow> app_error + run_state" where
  "supported st =
     (if rs_schema_version st \<noteq> run_schema_version
      then Inl (integrity (''unsupported run schema '' @ rs_schema_version st))
      else Inr st)"

definition observe_state_and_activity ::
  "('u, 'd) libs \<Rightarrow> path \<Rightarrow> string \<Rightarrow> meanwhile \<Rightarrow> world \<Rightarrow> world \<times> (app_error + run_state \<times> bool)" where
  "observe_state_and_activity lb root run_id mw w =
     (let w = mw_first mw w in
      thenW (w, bindE (state_of lb root w run_id) supported) (\<lambda>st w.
      let w = mw_lock mw w in
      thenW (w, supervisor_active (lb_ulid lb) root w run_id) (\<lambda>active w.
        if \<not> active \<and> is_live (rs_status st)
        then
          let w = mw_again mw w in
          thenW (w, bindE (state_of lb root w run_id) supported) (\<lambda>st w. (w, Inr (st, active)))
        else (w, Inr (st, active)))))"

definition load_view ::
  "('u, 'd) libs \<Rightarrow> path \<Rightarrow> string \<Rightarrow> meanwhile \<Rightarrow> world \<Rightarrow> world \<times> (app_error + run_view)" where
  "load_view lb root run_id mw w =
     thenW (observe_state_and_activity lb root run_id mw w) (\<lambda>(st, active) w. (w, Inr (run_view_new st active)))"

section \<open>Commands that only look\<close>

record status_result =
  sr_schema_version :: string
  sr_run :: run_view

definition status_command ::
  "('u, 'd) libs \<Rightarrow> path \<Rightarrow> string \<Rightarrow> meanwhile \<Rightarrow> world \<Rightarrow> world \<times> (app_error + status_result)" where
  "status_command lb root run_id mw w =
     thenW (load_view lb root run_id mw w) (\<lambda>view w.
       (w, Inr \<lparr>sr_schema_version = ''procherd.status.v1'', sr_run = view\<rparr>))"

record leases_result =
  le_schema_version :: string
  le_run_id :: string
  le_supervisor_active :: bool
  le_leases :: lease_state

definition leases_command ::
  "('u, 'd) libs \<Rightarrow> path \<Rightarrow> string \<Rightarrow> meanwhile \<Rightarrow> world \<Rightarrow> world \<times> (app_error + leases_result)" where
  "leases_command lb root run_id mw w =
     thenW (load_view lb root run_id mw w) (\<lambda>view w.
       (w, Inr \<lparr>le_schema_version = ''procherd.leases.v1'', le_run_id = run_id,
          le_supervisor_active = rv_supervisor_active view, le_leases = rs_leases (rv_state view)\<rparr>))"

fun load_views ::
  "('u, 'd) libs \<Rightarrow> path \<Rightarrow> (string \<Rightarrow> meanwhile) \<Rightarrow> string list \<Rightarrow> world \<Rightarrow>
   world \<times> (app_error + run_view list)" where
  "load_views lb root mws [] w = (w, Inr [])"
| "load_views lb root mws (run_id # ids) w =
     thenW (load_view lb root run_id (mws run_id) w) (\<lambda>view w.
     thenW (load_views lb root mws ids w) (\<lambda>views w. (w, Inr (view # views))))"

record list_result =
  lt_schema_version :: string
  lt_runs :: "run_view list"

definition list_command ::
  "('u, 'd) libs \<Rightarrow> path \<Rightarrow> (string \<Rightarrow> meanwhile) \<Rightarrow> world \<Rightarrow> world \<times> (app_error + list_result)" where
  "list_command lb root mws w =
     thenW (w, list_run_ids (lb_ulid lb) root w) (\<lambda>ids w.
     thenW (load_views lb root mws ids w) (\<lambda>views w.
       (w, Inr \<lparr>lt_schema_version = ''procherd.list.v1'', lt_runs = views\<rparr>)))"

section \<open>Collecting old runs\<close>

definition gc_verdict :: "run_view \<Rightarrow> u64 \<Rightarrow> u64 \<Rightarrow> bool \<times> string" where
  "gc_verdict view age_ms older_than_ms =
     (if rv_supervisor_active view then (False, ''supervisor_active'')
      else if \<not> is_terminal (rs_status (rv_state view)) then (False, ''non_terminal_or_orphaned'')
      else if age_ms < older_than_ms then (False, ''younger_than_threshold'')
      else (True, ''terminal_and_inactive''))"

definition gc_entry_for :: "string \<Rightarrow> u64 \<Rightarrow> u64 \<Rightarrow> run_view \<Rightarrow> gc_entry" where
  "gc_entry_for run_id observed_at_ms older_than_ms view =
     (let age_ms = sat_sub observed_at_ms (rs_updated_at_ms (rv_state view));
          (eligible, reason) = gc_verdict view age_ms older_than_ms in
      \<lparr>gc_run_id = run_id, gc_status = rs_status (rv_state view), gc_age_ms = age_ms, gc_eligible = eligible,
       gc_reason = reason, gc_deleted = False\<rparr>)"

text \<open>\<open>removing\<close> is what the others do between the look at a run and its removal.\<close>

fun gc_runs ::
  "('u, 'd) libs \<Rightarrow> path \<Rightarrow> u64 \<Rightarrow> u64 \<Rightarrow> bool \<Rightarrow> (string \<Rightarrow> meanwhile) \<Rightarrow> (string \<Rightarrow> world \<Rightarrow> world) \<Rightarrow>
   string list \<Rightarrow> world \<Rightarrow> world \<times> (app_error + gc_entry list)" where
  "gc_runs lb root observed_at_ms older_than_ms execute mws removing [] w = (w, Inr [])"
| "gc_runs lb root observed_at_ms older_than_ms execute mws removing (run_id # ids) w =
     thenW (load_view lb root run_id (mws run_id) w) (\<lambda>view w.
     let entry = gc_entry_for run_id observed_at_ms older_than_ms view in
     thenW (if execute \<and> gc_eligible entry
            then thenW (remove_terminal_run (lb_ulid lb) (lb_state lb) root run_id (removing run_id w))
              (\<lambda>_ w. (w, Inr (entry\<lparr>gc_deleted := True\<rparr>)))
            else (w, Inr entry)) (\<lambda>entry w.
     thenW (gc_runs lb root observed_at_ms older_than_ms execute mws removing ids w) (\<lambda>entries w.
       (w, Inr (entry # entries)))))"

record gc_result =
  gr_schema_version :: string
  gr_execute :: bool
  gr_older_than_ms :: u64
  gr_entries :: "gc_entry list"

definition gc_command ::
  "('u, 'd) libs \<Rightarrow> path \<Rightarrow> u64 \<Rightarrow> u64 \<Rightarrow> bool \<Rightarrow> (string \<Rightarrow> meanwhile) \<Rightarrow> (string \<Rightarrow> world \<Rightarrow> world) \<Rightarrow>
   world \<Rightarrow> world \<times> (app_error + gc_result)" where
  "gc_command lb root observed_at_ms older_than_ms execute mws removing w =
     thenW (w, list_run_ids (lb_ulid lb) root w) (\<lambda>ids w.
     thenW (gc_runs lb root observed_at_ms older_than_ms execute mws removing ids w) (\<lambda>entries w.
       (w, Inr \<lparr>gr_schema_version = ''procherd.gc.v1'', gr_execute = execute,
          gr_older_than_ms = older_than_ms, gr_entries = entries\<rparr>)))"

section \<open>What a view says\<close>

lemma bind_supported: "bindE (state_of lb root w run_id) supported = state_of lb root w run_id"
proof (cases "state_of lb root w run_id")
  case (Inr st)
  then have "rs_schema_version st = run_schema_version"
    by (auto simp: state_of_def read_state_def validate_persisted_run_state_def res_simps split: if_splits)
  then show ?thesis by (simp add: Inr supported_def)
qed simp

text \<open>The worlds that the three looks find.\<close>

lemma load_view_Inr:
  "load_view lb root run_id mw w = (w', Inr view) \<longleftrightarrow>
   (let u = mw_first mw w; v = mw_lock mw u in
    \<exists>st active. state_of lb root u run_id = Inr st \<and> supervisor_active (lb_ulid lb) root v run_id = Inr active \<and>
      (if active \<or> is_terminal (rs_status st) then w' = v \<and> view = run_view_new st active
       else w' = mw_again mw v \<and> (\<exists>st'. state_of lb root w' run_id = Inr st' \<and> view = run_view_new st' False)))"
proof (cases "state_of lb root (mw_first mw w) run_id")
  case (Inr st)
  note first = Inr
  show ?thesis
  proof (cases "supervisor_active (lb_ulid lb) root (mw_lock mw (mw_first mw w)) run_id")
    case (Inr active)
    show ?thesis
      unfolding load_view_def observe_state_and_activity_def bind_supported Let_def
      using first Inr
      by (cases "state_of lb root (mw_again mw (mw_lock mw (mw_first mw w))) run_id")
        (auto simp: is_live_not_terminal)
  qed (simp add: load_view_def observe_state_and_activity_def bind_supported Let_def first)
qed (simp add: load_view_def observe_state_and_activity_def bind_supported Let_def)

lemma load_view_world:
  "fst (load_view lb root run_id mw w) \<in>
     {mw_first mw w, mw_lock mw (mw_first mw w), mw_again mw (mw_lock mw (mw_first mw w))}"
  unfolding load_view_def observe_state_and_activity_def
  by (auto simp: thenW_def Let_def split: sum.splits)

lemma load_view_still: "fst (load_view lb root run_id still w) = w"
  using load_view_world [of lb root run_id still w] by simp

text \<open>
  A state that is terminal by the time the lock was seen free, as a supervisor leaves it, gives a
  consistent view, whatever the first read saw before.
\<close>

lemma ended_run_consistent:
  assumes "load_view lb root run_id mw w = (w', Inr view)"
    and "supervisor_active (lb_ulid lb) root (mw_lock mw (mw_first mw w)) run_id = Inr False \<Longrightarrow>
      \<forall>st. state_of lb root (mw_again mw (mw_lock mw (mw_first mw w))) run_id = Inr st \<longrightarrow> is_terminal (rs_status st)"
  shows "rv_observed_status view = Consistent \<and>
    (rv_supervisor_active view \<or> is_terminal (rs_status (rv_state view)))"
proof -
  obtain st active where look:
    "supervisor_active (lb_ulid lb) root (mw_lock mw (mw_first mw w)) run_id = Inr active"
    "if active \<or> is_terminal (rs_status st) then view = run_view_new st active
     else \<exists>st'. state_of lb root (mw_again mw (mw_lock mw (mw_first mw w))) run_id = Inr st' \<and>
       view = run_view_new st' False"
    using assms(1) unfolding load_view_Inr Let_def by (metis (full_types))
  then have "rv_observed_status view \<noteq> Orphaned \<and>
      (rv_supervisor_active view \<or> is_terminal (rs_status (rv_state view)))"
    using assms(2) by (cases active; cases "is_terminal (rs_status st)") auto
  then show ?thesis by (cases "rv_observed_status view") simp_all
qed

end
