(* ===== verification/Collection.thy ===== *)
theory Collection
  imports Views
begin

text \<open>
  What the listing and the collection of runs guarantee, over \<open>Views\<close>: a run that stays live is never
  touched, the report says what was done, and one run whose state cannot be read makes both commands
  fail. The other processes are any functions on the world that leave alone what the property is about.
\<close>

section \<open>What an observation depends on\<close>

text \<open>Two worlds with the same directory of a run, the same locks and the same faults.\<close>

definition same_run :: "path \<Rightarrow> world \<Rightarrow> world \<Rightarrow> bool" where
  "same_run dir w w' \<longleftrightarrow> (\<forall>q. prefix dir q \<longrightarrow> node_at w' q = node_at w q) \<and>
     w_faults w' = w_faults w \<and> w_locked w' = w_locked w"

lemma same_run_refl [simp]: "same_run dir w w"
  by (simp add: same_run_def)

lemma read_json_same:
  assumes "node_at w' p = node_at w p" and "w_faults w' = w_faults w"
  shows "read_json J w' p = read_json J w p"
proof -
  have fault: "attempt w' op p = attempt w op p" for op using assms(2) by (simp add: attempt_def)
  show ?thesis
    unfolding read_json_def ensure_regular_file_def symlink_metadata_def open_file_def assms(1) fault ..
qed

lemma run_dir_same:
  assumes "same_run (root @ [run_id]) w w'"
  shows "run_dir L root w' run_id = run_dir L root w run_id"
proof (cases "canonical_run_id L run_id")
  case (Inr r)
  then have "r = run_id" by (simp add: canonical_run_id_Inr)
  then show ?thesis using assms Inr
    by (simp add: run_dir_def symlink_metadata_def attempt_def same_run_def)
qed (simp add: run_dir_def)

lemma supervisor_active_same:
  assumes "same_run (root @ [run_id]) w w'"
  shows "supervisor_active L root w' run_id = supervisor_active L root w run_id"
proof (cases "run_dir L root w run_id")
  case (Inr d)
  then have d: "d = root @ [run_id]" by (simp add: run_dir_Inr)
  have node: "node_at w' (d @ [''supervisor.lock'']) = node_at w (d @ [''supervisor.lock''])"
    using assms unfolding d by (simp add: same_run_def)
  have ok: "attempt w' op p = attempt w op p" for op p using assms by (simp add: attempt_def same_run_def)
  have locks: "w_locked w' = w_locked w" using assms by (simp add: same_run_def)
  show ?thesis
    unfolding supervisor_active_def run_dir_same [OF assms] Inr bindE_simps Let_def ensure_regular_file_def
      symlink_metadata_def open_file_def try_lock_def node ok locks ..
qed (simp add: supervisor_active_def run_dir_same [OF assms])

lemma state_of_same:
  assumes "same_run (root @ [run_id]) w w'"
  shows "state_of lb root w' run_id = state_of lb root w run_id"
proof -
  note dir = run_dir_same [OF assms]
  show ?thesis
  proof (cases "run_dir (lb_ulid lb) root w run_id")
    case (Inr d)
    then have d: "d = root @ [run_id]" by (simp add: run_dir_Inr)
    have "read_json (lb_state lb) w' (d @ [''state.json'']) = read_json (lb_state lb) w (d @ [''state.json''])"
      using assms unfolding d by (intro read_json_same) (simp_all add: same_run_def)
    then show ?thesis by (simp add: state_of_def read_state_def dir Inr)
  qed (simp add: state_of_def read_state_def dir)
qed

lemma remove_dir_all_frame [simp]:
  "w_locked (fst (remove_dir_all p w)) = w_locked w" "w_faults (fst (remove_dir_all p w)) = w_faults w"
  by (simp_all add: remove_dir_all_def split: sum.splits)

lemma same_run_removed:
  assumes "run_id \<noteq> other"
  shows "same_run (root @ [run_id]) w (fst (remove_terminal_run L J root other w))"
proof (cases rule: remove_run_cases [of L J root other w])
  case (removed st)
  have "\<not> prefix (root @ [other]) q" if "prefix (root @ [run_id]) q" for q
    using that assms by (auto simp: prefix_def)
  then show ?thesis
    using remove_dir_all_outside [of "root @ [other]" w] by (simp add: removed same_run_def agree_outside_def)
qed simp

section \<open>Live runs are spared\<close>

text \<open>A run is live while a process holds its lock, or its state is not readable as a terminal one.\<close>

definition live_run :: "('u, 'd) libs \<Rightarrow> path \<Rightarrow> string \<Rightarrow> world \<Rightarrow> bool" where
  "live_run lb root run_id w \<longleftrightarrow>
     root @ [run_id, ''supervisor.lock''] \<in> set (w_locked w) \<or>
     \<not> (\<exists>st. state_of lb root w run_id = Inr st \<and> is_terminal (rs_status st))"

text \<open>Others may do anything that keeps the run live and leaves the path \<open>q\<close> alone.\<close>

definition bystander :: "('u, 'd) libs \<Rightarrow> path \<Rightarrow> string \<Rightarrow> path \<Rightarrow> (world \<Rightarrow> world) \<Rightarrow> bool" where
  "bystander lb root run_id q f \<longleftrightarrow>
     (\<forall>w. live_run lb root run_id w \<longrightarrow> live_run lb root run_id (f w) \<and> node_at (f w) q = node_at w q)"

definition throughout :: "((world \<Rightarrow> world) \<Rightarrow> bool) \<Rightarrow> meanwhile \<Rightarrow> bool" where
  "throughout P mw \<longleftrightarrow> P (mw_first mw) \<and> P (mw_lock mw) \<and> P (mw_again mw)"

definition spared :: "('u, 'd) libs \<Rightarrow> path \<Rightarrow> string \<Rightarrow> path \<Rightarrow> world \<Rightarrow> world \<Rightarrow> bool" where
  "spared lb root run_id q w w' \<longleftrightarrow> live_run lb root run_id w' \<and> node_at w' q = node_at w q"

lemma spared_trans:
  "spared lb root run_id q w v \<Longrightarrow> spared lb root run_id q v u \<Longrightarrow> spared lb root run_id q w u"
  by (simp add: spared_def)

lemma spared_by: "bystander lb root run_id q f \<Longrightarrow> live_run lb root run_id w \<Longrightarrow> spared lb root run_id q w (f w)"
  by (simp add: spared_def bystander_def)

lemma spared_removal:
  assumes "live_run lb root run_id w" and "prefix (root @ [run_id]) q"
  shows "spared lb root run_id q w (fst (remove_terminal_run (lb_ulid lb) (lb_state lb) root other w))"
proof (cases "other = run_id")
  case True
  have "fst (remove_terminal_run (lb_ulid lb) (lb_state lb) root run_id w) = w"
    by (rule remove_run_cases [of "lb_ulid lb" "lb_state lb" root run_id w])
      (use assms(1) in \<open>auto simp: live_run_def state_of_def\<close>)
  then show ?thesis using True assms(1) by (simp add: spared_def)
next
  case False
  then have same: "same_run (root @ [run_id]) w (fst (remove_terminal_run (lb_ulid lb) (lb_state lb) root other w))"
    using same_run_removed by metis
  have "live_run lb root run_id (fst (remove_terminal_run (lb_ulid lb) (lb_state lb) root other w))"
    using assms(1) same unfolding live_run_def state_of_same [OF same] by (simp add: same_run_def)
  then show ?thesis using same assms(2) by (simp add: spared_def same_run_def)
qed

lemma spared_load:
  assumes "throughout (bystander lb root run_id q) mw" and "live_run lb root run_id w"
  shows "spared lb root run_id q w (fst (load_view lb root other mw w))"
proof -
  let ?u = "mw_first mw w" and ?v = "mw_lock mw (mw_first mw w)"
  have u: "spared lb root run_id q w ?u" using assms by (simp add: spared_by throughout_def)
  then have v: "spared lb root run_id q w ?v"
    using assms(1) by (simp add: throughout_def spared_def bystander_def)
  then have "spared lb root run_id q w (mw_again mw ?v)"
    using assms(1) by (simp add: throughout_def spared_def bystander_def)
  with u v show ?thesis using load_view_world [of lb root other mw w] by auto
qed

lemma spared_thenW:
  assumes "spared lb root run_id q w (fst m)" and "\<And>x v. live_run lb root run_id v \<Longrightarrow> spared lb root run_id q v (fst (f x v))"
  shows "spared lb root run_id q w (fst (thenW m f))"
proof -
  obtain v r where m: "m = (v, r)" by (cases m)
  have "live_run lb root run_id v" using assms(1) by (simp add: m spared_def)
  then show ?thesis using assms(1) spared_trans [OF _ assms(2)] by (cases r) (simp_all add: m)
qed

lemma spared_refl: "live_run lb root run_id w \<Longrightarrow> spared lb root run_id q w w"
  by (simp add: spared_def)

lemma spared_gc_runs:
  assumes "prefix (root @ [run_id]) q" and "\<And>i. throughout (bystander lb root run_id q) (mws i)"
    and "\<And>i. bystander lb root run_id q (removing i)" and "live_run lb root run_id w"
  shows "spared lb root run_id q w (fst (gc_runs lb root now older execute mws removing ids w))"
  using assms(4)
proof (induction ids arbitrary: w)
  case (Cons i ids)
  have removal: "spared lb root run_id q v
      (fst (thenW (remove_terminal_run (lb_ulid lb) (lb_state lb) root i (removing i v)) (\<lambda>_ w. (w, r))))"
    if "live_run lb root run_id v" for v and r :: "app_error + gc_entry"
  proof (rule spared_thenW)
    have v: "spared lb root run_id q v (removing i v)" by (rule spared_by [OF assms(3) that])
    then have "live_run lb root run_id (removing i v)" by (simp add: spared_def)
    from spared_trans [OF v spared_removal [OF this assms(1)]]
    show "spared lb root run_id q v
        (fst (remove_terminal_run (lb_ulid lb) (lb_state lb) root i (removing i v)))" .
  qed (simp add: spared_refl)
  show ?case
    unfolding gc_runs.simps Let_def
    by (intro spared_thenW spared_load assms Cons)
      (auto intro!: spared_thenW Cons.IH spared_refl removal)
qed (simp add: spared_refl)

text \<open>
  C7: the collection of old runs never touches a live run. As long as a run stays live (its supervisor
  holds the lock, or its state is not terminal), nothing in its directory is changed by the command,
  whatever the other processes do between its looks and its removals.
\<close>

theorem gc_spares_live_run:
  assumes "live_run lb root run_id w" and "prefix (root @ [run_id]) q"
    and "\<And>i. throughout (bystander lb root run_id q) (mws i)"
    and "\<And>i. bystander lb root run_id q (removing i)"
  shows "node_at (fst (gc_command lb root now older execute mws removing w)) q = node_at w q"
proof -
  have "spared lb root run_id q w (fst (gc_command lb root now older execute mws removing w))"
    unfolding gc_command_def
    by (intro spared_thenW spared_gc_runs assms) (simp_all add: spared_refl assms(1))
  then show ?thesis by (simp add: spared_def)
qed

theorem gc_spares_live_run_witness:
  "\<forall>lb :: (128 word, bytes) libs.
     node_at (fst (gc_command lb [''srv''] 10 5 True (\<lambda>_. still) (\<lambda>_ w. w)
       (empty_world [[''srv'', ''run_1'', ''supervisor.lock'']]))) [''srv'', ''run_1''] = None"
proof
  fix lb :: "(128 word, bytes) libs"
  let ?w = "empty_world [[''srv'', ''run_1'', ''supervisor.lock'']]"
  have "live_run lb [''srv''] ''run_1'' ?w" by (simp add: live_run_def empty_world_def)
  from gc_spares_live_run [OF this, of "[''srv'', ''run_1'']" "\<lambda>_. still" "\<lambda>_ w. w" 10 5 True]
  show "node_at (fst (gc_command lb [''srv''] 10 5 True (\<lambda>_. still) (\<lambda>_ w. w) ?w)) [''srv'', ''run_1''] = None"
    by (simp add: throughout_def bystander_def still_def) (simp add: empty_world_def node_at_def)
qed

section \<open>The report of a collection\<close>

text \<open>
  An entry of the report is what the run was when the collection began: its status, its age, whether it
  was eligible, and whether it was deleted.
\<close>

definition honest_entry ::
  "('u, 'd) libs \<Rightarrow> path \<Rightarrow> world \<Rightarrow> u64 \<Rightarrow> u64 \<Rightarrow> bool \<Rightarrow> gc_entry \<Rightarrow> bool" where
  "honest_entry lb root w now older_than_ms execute e \<longleftrightarrow>
     (\<exists>st active. state_of lb root w (gc_run_id e) = Inr st \<and>
        supervisor_active (lb_ulid lb) root w (gc_run_id e) = Inr active \<and>
        gc_status e = rs_status st \<and> gc_age_ms e = sat_sub now (rs_updated_at_ms st) \<and>
        (gc_eligible e \<longleftrightarrow> \<not> active \<and> is_terminal (rs_status st) \<and> older_than_ms \<le> gc_age_ms e) \<and>
        gc_deleted e = (execute \<and> gc_eligible e))"

lemma load_view_still_Inr:
  "load_view lb root i still w = (u, Inr view) \<Longrightarrow>
   \<exists>st active. state_of lb root w i = Inr st \<and> supervisor_active (lb_ulid lb) root w i = Inr active \<and>
     view = run_view_new st active"
  unfolding load_view_Inr Let_def still_simps by (auto split: if_splits)

lemma gc_entry_honest:
  assumes "load_view lb root i still w = (u, Inr view)"
  shows "honest_entry lb root w now older execute (gc_entry_for i now older view \<lparr>gc_deleted :=
     execute \<and> gc_eligible (gc_entry_for i now older view)\<rparr>)"
proof -
  obtain st active where "state_of lb root w i = Inr st" "supervisor_active (lb_ulid lb) root w i = Inr active"
    "view = run_view_new st active"
    using load_view_still_Inr [OF assms] by blast
  then show ?thesis unfolding honest_entry_def
    by (intro exI [of _ st] exI [of _ active]) (simp add: gc_entry_for_def gc_verdict_def Let_def, meson leD leI)
qed

lemma honest_same:
  "same_run (root @ [gc_run_id e]) w v \<Longrightarrow>
   honest_entry lb root v now older execute e = honest_entry lb root w now older execute e"
  by (simp add: honest_entry_def state_of_same supervisor_active_same)

lemma gc_entry_id: "gc_run_id (gc_entry_for i now older view) = i"
  by (simp add: gc_entry_for_def Let_def split: prod.splits)

lemma gc_entry_kept: "\<not> (execute \<and> gc_eligible e) \<Longrightarrow> gc_deleted e = False \<Longrightarrow>
    e = e\<lparr>gc_deleted := execute \<and> gc_eligible e\<rparr>"
  by (cases e) auto

lemma gc_runs_Inr:
  "gc_runs lb root now older execute mws removing (i # ids) w = (w', Inr es) \<longleftrightarrow>
   (\<exists>u view v es'. load_view lb root i (mws i) w = (u, Inr view) \<and>
      (let e = gc_entry_for i now older view; deletes = execute \<and> gc_eligible e in
       (if deletes then remove_terminal_run (lb_ulid lb) (lb_state lb) root i (removing i u) = (v, Inr ()) else v = u) \<and>
       gc_runs lb root now older execute mws removing ids v = (w', Inr es') \<and>
       es = e\<lparr>gc_deleted := deletes\<rparr> # es'))"
proof -
  have no: "gc_deleted (gc_entry_for i now older view) = False" for view
    by (simp add: gc_entry_for_def Let_def split: prod.splits)
  show ?thesis
    unfolding gc_runs.simps thenW_Inr Let_def
    by (intro iffI; elim exE conjE; (split if_splits)?; force simp: thenW_Inr no dest!: gc_entry_kept [OF _ no]
        split: if_splits)
qed

text \<open>Without other processes, only what is below a run that is reported deleted is gone.\<close>

definition below_deleted :: "path \<Rightarrow> gc_entry list \<Rightarrow> path \<Rightarrow> bool" where
  "below_deleted root es q \<longleftrightarrow> (\<exists>e\<in>set es. gc_deleted e \<and> prefix (root @ [gc_run_id e]) q)"

definition only_deleted :: "path \<Rightarrow> gc_entry list \<Rightarrow> world \<Rightarrow> world \<Rightarrow> bool" where
  "only_deleted root es w w' \<longleftrightarrow> (\<forall>q. node_at w' q = (if below_deleted root es q then None else node_at w q))"

lemma removed_run:
  assumes "remove_terminal_run L J root run_id w = (w', Inr ())"
  shows "w' = remove_below (root @ [run_id]) w"
proof -
  obtain dir where "run_dir L root w run_id = Inr dir" "remove_dir_all dir w = (w', Inr ())"
    using assms by (auto simp: remove_terminal_run_def res_simps split: sum.splits if_splits)
  then show ?thesis by (auto simp: run_dir_Inr remove_dir_all_def split: sum.splits)
qed

lemma load_view_still_world: "load_view lb root i still w = (u, r) \<Longrightarrow> u = w"
  using load_view_still [of lb root i w] by simp

lemma gc_runs_report:
  "gc_runs lb root now older execute (\<lambda>_. still) (\<lambda>_ w. w) ids w = (w', Inr es) \<Longrightarrow> distinct ids \<Longrightarrow>
   map gc_run_id es = ids \<and> list_all (honest_entry lb root w now older execute) es \<and> only_deleted root es w w' \<and>
   (\<not> execute \<longrightarrow> w' = w)"
proof (induction ids arbitrary: w es)
  case Nil
  then show ?case by (simp add: only_deleted_def below_deleted_def)
next
  case (Cons i ids)
  obtain u view v es' where load: "load_view lb root i still w = (u, Inr view)"
    and step: "let e = gc_entry_for i now older view; deletes = execute \<and> gc_eligible e in
       (if deletes then remove_terminal_run (lb_ulid lb) (lb_state lb) root i u = (v, Inr ()) else v = u) \<and>
       gc_runs lb root now older execute (\<lambda>_. still) (\<lambda>_ w. w) ids v = (w', Inr es') \<and>
       es = e\<lparr>gc_deleted := deletes\<rparr> # es'"
    using Cons.prems(1) unfolding gc_runs_Inr by blast
  have u: "u = w" by (rule load_view_still_world [OF load])
  let ?e = "gc_entry_for i now older view" and ?d = "execute \<and> gc_eligible (gc_entry_for i now older view)"
  have es: "es = ?e\<lparr>gc_deleted := ?d\<rparr> # es'"
    and rest: "gc_runs lb root now older execute (\<lambda>_. still) (\<lambda>_ w. w) ids v = (w', Inr es')"
    and removal: "if ?d then remove_terminal_run (lb_ulid lb) (lb_state lb) root i w = (v, Inr ()) else v = w"
    using step unfolding Let_def u by blast+
  have IH: "map gc_run_id es' = ids" "list_all (honest_entry lb root v now older execute) es'"
    "only_deleted root es' v w'" "\<not> execute \<longrightarrow> w' = v"
    using Cons.IH [OF rest] Cons.prems(2) by simp_all
  have other: "same_run (root @ [j]) w v" if "j \<in> set ids" for j
    using removal that Cons.prems(2) same_run_removed [of j i root w "lb_ulid lb" "lb_state lb"]
    by (auto split: if_splits)
  have "honest_entry lb root w now older execute e" if "e \<in> set es'" for e
    using IH(1,2) that honest_same [OF other] by (fastforce simp: list_all_iff)
  then have honest: "list_all (honest_entry lb root w now older execute) es"
    unfolding es using gc_entry_honest [OF load] by (simp add: list_all_iff)
  have "node_at v q = (if ?d \<and> prefix (root @ [i]) q then None else node_at w q)" for q
    using removal removed_run [of "lb_ulid lb" "lb_state lb" root i w v] by (auto split: if_splits)
  then have "only_deleted root es w w'"
    using IH(3) by (auto simp: only_deleted_def below_deleted_def es gc_entry_id)
  then show ?case using honest IH(1,4) removal by (auto simp: es gc_entry_id split: if_splits)
qed

text \<open>
  C37: the report of the collection is what happened, while no other process changes the store. It has one entry for each listed run, in the order
  of the listing, with the status and the age the run had; a run is called eligible exactly when no
  supervisor was active and it was terminal and old enough, and deleted exactly when deletion was asked for
  too. Of a run reported deleted nothing is left, everything else on disk is as before, and without
  \<open>--execute\<close> nothing changes at all.
\<close>

theorem gc_report_honest:
  assumes "gc_command lb root now older execute (\<lambda>_. still) (\<lambda>_ w. w) w = (w', Inr res)"
  shows "list_run_ids (lb_ulid lb) root w = Inr (map gc_run_id (gr_entries res)) \<and>
    list_all (honest_entry lb root w now older execute) (gr_entries res) \<and>
    only_deleted root (gr_entries res) w w' \<and> (\<not> execute \<longrightarrow> w' = w)"
proof -
  obtain ids es where ids: "list_run_ids (lb_ulid lb) root w = Inr ids"
    and runs: "gc_runs lb root now older execute (\<lambda>_. still) (\<lambda>_ w. w) ids w = (w', Inr es)"
    and es: "gr_entries res = es"
    using assms by (auto simp: gc_command_def thenW_Inr)
  have "sorted_wrt (\<lambda>x y. y < x) ids" using listing_exact [OF ids] by blast
  then have "distinct ids" by (induction ids) auto
  then show ?thesis using gc_runs_report [OF runs] ids by (simp add: es)
qed

text \<open>A store with one terminal run, on the codecs of a concrete document.\<close>

definition ended_run :: run_state where
  "ended_run = example_run\<lparr>rs_status := Exited, rs_updated_at_ms := 7\<rparr>"

definition ended_libs :: "('u, 'd) libs \<Rightarrow> (128 word, 'd) libs" where
  "ended_libs lb =
     \<lparr>lb_ulid = crockford, lb_state = example_codec ended_run, lb_spec = lb_spec lb, lb_stop = lb_stop lb,
      lb_registry = lb_registry lb, lb_log = lb_log lb, lb_digest = lb_digest lb, lb_windows = lb_windows lb,
      lb_utf8 = lb_utf8 lb\<rparr>"

definition ended_world :: "supervisor_spec json_codec \<Rightarrow> supervisor_spec \<Rightarrow> world" where
  "ended_world JS spec = run_files (example_codec ended_run) JS [''srv'', rs_run_id ended_run] ended_run spec
     (replicate 64 (CHR ''a'')) (empty_world [])"

lemma ended_run_id: "rs_run_id ended_run = rs_run_id example_run"
  by (simp add: ended_run_def)

lemma ended_run_observed:
  "state_of (ended_libs lb) [''srv''] (ended_world JS spec) (rs_run_id example_run) = Inr ended_run"
  "supervisor_active crockford [''srv''] (ended_world JS spec) (rs_run_id example_run) = Inr False"
proof -
  have valid: "validate_persisted_run_state crockford ended_run = Inr ()"
    using example_run_valid(2) by (auto simp: validate_persisted_run_state_def ended_run_def res_simps split: if_splits)
  have fresh: "fresh_run (empty_world []) [''srv''] (rs_run_id ended_run)"
    and id: "canonical_run_id crockford (rs_run_id ended_run) = Inr (rs_run_id ended_run)"
    using example_run_valid(1) example_run_valid(3) [of "[]"] by (simp_all add: ended_run_id)
  have token: "length (replicate 64 (CHR ''a'')) = 64" "list_all is_ascii_hexdigit (replicate 64 (CHR ''a''))"
    by (simp_all add: list_all_iff is_ascii_hexdigit_def char_code_def)
  have world: "ended_world JS spec = run_files (example_codec ended_run) JS ([''srv''] @ [rs_run_id ended_run])
      ended_run spec (replicate 64 (CHR ''a'')) (empty_world [])"
    by (simp add: ended_world_def)
  note r = run_files_readable [OF fresh id valid example_codec_documented token world]
  show "state_of (ended_libs lb) [''srv''] (ended_world JS spec) (rs_run_id example_run) = Inr ended_run"
    using r(1) by (simp add: ended_run_id state_of_def ended_libs_def)
  show "supervisor_active crockford [''srv''] (ended_world JS spec) (rs_run_id example_run) = Inr False"
    using r(3) by (simp add: ended_run_id) (simp add: empty_world_def)
qed

lemma ended_run_listed: "list_run_ids crockford [''srv''] (ended_world JS spec) = Inr [rs_run_id example_run]"
proof -
  have "entry_names (ended_world JS spec) [''srv''] = [rs_run_id example_run]"
    by (simp add: entry_names_def ended_world_def run_files_def put_node_def empty_world_def ended_run_id)
  moreover have "validate_run_id crockford (rs_run_id example_run) = Inr ()"
    using example_run_valid(1) by (simp add: validate_run_id_Inr)
  moreover have "symlink_metadata (ended_world JS spec) [''srv'', rs_run_id example_run] = Inr Directory"
    by (simp add: symlink_metadata_def ended_world_def run_files_def ended_run_id attempt_def empty_world_def)
  moreover have "attempt (ended_world JS spec) Read_dir [''srv''] = Inr ()"
    by (simp add: ended_world_def run_files_def attempt_def empty_world_def)
  ultimately show ?thesis by (simp add: list_run_ids_def)
qed

lemma ended_run_viewed:
  "load_view (ended_libs lb) [''srv''] (rs_run_id example_run) still (ended_world JS spec) =
     (ended_world JS spec, Inr (run_view_new ended_run False))"
  unfolding load_view_Inr using ended_run_observed(1) [of lb JS spec] ended_run_observed(2) [of JS spec]
  by (auto simp: ended_libs_def ended_run_def intro: exI [of _ False])

lemma ended_run_removed:
  "remove_terminal_run (lb_ulid (ended_libs lb)) (lb_state (ended_libs lb)) [''srv''] (rs_run_id example_run)
     (ended_world JS spec) = (remove_below [''srv'', rs_run_id example_run] (ended_world JS spec), Inr ())"
proof -
  let ?id = "rs_run_id example_run" and ?w = "ended_world JS spec"
  have ok: "attempt ?w op p = Inr ()" for op p
    by (simp add: ended_world_def run_files_def attempt_def empty_world_def)
  have "symlink_metadata ?w [''srv'', ?id] = Inr Directory"
    by (simp add: symlink_metadata_def ended_world_def run_files_def ended_run_id attempt_def empty_world_def)
  then have "run_dir crockford [''srv''] ?w ?id = Inr [''srv'', ?id]"
    by (simp add: run_dir_def example_run_valid(1))
  then show ?thesis
    using ended_run_observed(1) [of lb JS spec] ended_run_observed(2) [of JS spec] ok
    by (simp add: remove_terminal_run_def state_of_def ended_libs_def ended_run_def remove_dir_all_def)
qed

theorem gc_report_honest_witness:
  "\<forall>lb :: (128 word, bytes) libs. \<forall>JS spec. \<exists>w' res.
     gc_command (ended_libs lb) [''srv''] 10 2 True (\<lambda>_. still) (\<lambda>_ w. w) (ended_world JS spec) = (w', Inr res) \<and>
     map gc_run_id (gr_entries res) = [rs_run_id example_run] \<and> list_all gc_deleted (gr_entries res) \<and>
     node_at w' [''srv'', rs_run_id example_run, ''state.json''] = None"
proof (intro allI)
  fix lb :: "(128 word, bytes) libs" and JS spec
  let ?lb = "ended_libs lb" and ?w = "ended_world JS spec" and ?id = "rs_run_id example_run"
  let ?w' = "remove_below [''srv'', ?id] ?w"
  let ?e = "gc_entry_for ?id 10 2 (run_view_new ended_run False)"
  have ulid: "lb_ulid ?lb = crockford" by (simp add: ended_libs_def)
  have eligible: "gc_eligible ?e"
    by (simp add: gc_entry_for_def gc_verdict_def ended_run_def sat_sub_def)
  then obtain res where res: "gc_command ?lb [''srv''] 10 2 True (\<lambda>_. still) (\<lambda>_ w. w) ?w = (?w', Inr res)"
    "gr_entries res = [?e\<lparr>gc_deleted := True\<rparr>]"
    using ended_run_viewed [of lb JS spec] ended_run_removed [of lb JS spec]
    by (simp add: gc_command_def ulid ended_run_listed Let_def)
  have "only_deleted [''srv''] (gr_entries res) ?w ?w' \<and> map gc_run_id (gr_entries res) = [?id]"
    using gc_report_honest [OF res(1)] by (auto simp: ulid ended_run_listed)
  then have "node_at ?w' [''srv'', ?id, ''state.json''] = None" "map gc_run_id (gr_entries res) = [?id]"
    by (auto simp: only_deleted_def below_deleted_def res(2))
  then show "\<exists>w' res.
     gc_command ?lb [''srv''] 10 2 True (\<lambda>_. still) (\<lambda>_ w. w) ?w = (w', Inr res) \<and>
     map gc_run_id (gr_entries res) = [?id] \<and> list_all gc_deleted (gr_entries res) \<and>
     node_at w' [''srv'', ?id, ''state.json''] = None"
    using res by (intro exI [of _ ?w'] exI [of _ res]) simp
qed

section \<open>One unreadable run\<close>

lemma load_view_unreadable:
  "state_of lb root w i = Inl e \<Longrightarrow> load_view lb root i still w = (w, Inl e)"
  by (simp add: load_view_def observe_state_and_activity_def bind_supported Let_def)

lemma load_views_blocked:
  "i \<in> set ids \<Longrightarrow> state_of lb root w i = Inl e \<Longrightarrow>
   \<exists>e'. snd (load_views lb root (\<lambda>_. still) ids w) = Inl e'"
proof (induction ids)
  case (Cons j ids)
  show ?case
  proof (cases "snd (load_view lb root j still w)")
    case (Inr view)
    then have l: "load_view lb root j still w = (w, Inr view)"
      using load_view_still [of lb root j w] by (metis prod.collapse)
    then have "j \<noteq> i" using load_view_unreadable [OF Cons.prems(2)] by auto
    then obtain e' where "snd (load_views lb root (\<lambda>_. still) ids w) = Inl e'" using Cons by auto
    then show ?thesis using l by (cases "load_views lb root (\<lambda>_. still) ids w") simp
  next
    case (Inl e')
    then show ?thesis by (cases "load_view lb root j still w") simp
  qed
qed simp

lemma gc_runs_blocked:
  "i \<in> set ids \<Longrightarrow> state_of lb root w i = Inl e \<Longrightarrow>
   \<exists>e'. snd (gc_runs lb root now older execute (\<lambda>_. still) (\<lambda>_ w. w) ids w) = Inl e'"
proof (induction ids arbitrary: w)
  case (Cons j ids)
  show ?case
  proof (cases "gc_runs lb root now older execute (\<lambda>_. still) (\<lambda>_ w. w) (j # ids) w")
    case (Pair w' r)
    show ?thesis
    proof (cases r)
      case (Inr es)
      obtain u view v es' where load: "load_view lb root j still w = (u, Inr view)"
        and step: "let e = gc_entry_for j now older view; deletes = execute \<and> gc_eligible e in
          (if deletes then remove_terminal_run (lb_ulid lb) (lb_state lb) root j u = (v, Inr ()) else v = u) \<and>
          gc_runs lb root now older execute (\<lambda>_. still) (\<lambda>_ w. w) ids v = (w', Inr es') \<and>
          es = e\<lparr>gc_deleted := deletes\<rparr> # es'"
        using Pair unfolding Inr gc_runs_Inr by blast
      have removal: "remove_terminal_run (lb_ulid lb) (lb_state lb) root j u = (v, Inr ()) \<or> v = u"
        and rest: "gc_runs lb root now older execute (\<lambda>_. still) (\<lambda>_ w. w) ids v = (w', Inr es')"
        using step by (simp_all add: Let_def split: if_splits)
      have u: "u = w" by (rule load_view_still_world [OF load])
      then have "j \<noteq> i" using load load_view_unreadable [OF Cons.prems(2)] by auto
      have "same_run (root @ [i]) w v"
        using removal same_run_removed [of i j root w "lb_ulid lb" "lb_state lb"] \<open>j \<noteq> i\<close> u by auto
      then have "state_of lb root v i = Inl e" using Cons.prems(2) state_of_same by metis
      then have "\<exists>e'. snd (gc_runs lb root now older execute (\<lambda>_. still) (\<lambda>_ w. w) ids v) = Inl e'"
        using Cons.prems(1) \<open>j \<noteq> i\<close> by (intro Cons.IH) auto
      then show ?thesis using rest by simp
    qed (use Pair in simp)
  qed
qed simp

text \<open>
  C36: one run whose state cannot be read makes \<open>list\<close> and \<open>gc\<close> fail as a whole, even a dry run of
  \<open>gc\<close>. A run directory that was created but has no state yet, as \<open>create_run\<close> leaves it when it is
  interrupted or while it is under way, is such a run.
\<close>

theorem unreadable_run_blocks:
  assumes "list_run_ids (lb_ulid lb) root w = Inr ids" and "run_id \<in> set ids"
    and "node_at w (root @ [run_id, ''state.json'']) = None"
  shows "(\<exists>e. snd (list_command lb root (\<lambda>_. still) w) = Inl e) \<and>
    (\<exists>e. snd (gc_command lb root now older execute (\<lambda>_. still) (\<lambda>_ w. w) w) = Inl e)"
proof -
  have "\<exists>e. state_of lb root w run_id = Inl e"
  proof (cases "state_of lb root w run_id")
    case (Inr st)
    then obtain dir where "run_dir (lb_ulid lb) root w run_id = Inr dir"
      "read_json (lb_state lb) w (dir @ [''state.json'']) = Inr st"
      by (auto simp: state_of_def read_state_def res_simps split: if_splits)
    then have False using assms(3) by (auto simp: run_dir_Inr dest!: read_json_Inr)
    then show ?thesis ..
  qed simp
  then obtain e where e: "state_of lb root w run_id = Inl e" ..
  obtain e1 where "snd (load_views lb root (\<lambda>_. still) ids w) = Inl e1"
    using load_views_blocked [OF assms(2) e] by blast
  moreover obtain e2 where "snd (gc_runs lb root now older execute (\<lambda>_. still) (\<lambda>_ w. w) ids w) = Inl e2"
    using gc_runs_blocked [OF assms(2) e] by blast
  ultimately show ?thesis
    by (cases "load_views lb root (\<lambda>_. still) ids w";
        cases "gc_runs lb root now older execute (\<lambda>_. still) (\<lambda>_ w. w) ids w")
      (simp add: list_command_def gc_command_def assms(1))
qed

theorem unreadable_run_blocks_witness:
  "\<forall>lb :: (128 word, bytes) libs.
     \<exists>e. snd (list_command (ended_libs lb) [''srv''] (\<lambda>_. still)
       (put_node [''srv'', rs_run_id example_run] Directory (empty_world []))) = Inl e"
proof
  fix lb :: "(128 word, bytes) libs"
  let ?id = "rs_run_id example_run" and ?lb = "ended_libs lb"
  let ?w = "put_node [''srv'', ?id] Directory (empty_world [])"
  have "entry_names ?w [''srv''] = [?id]"
    by (simp add: entry_names_def put_node_def empty_world_def)
  moreover have "symlink_metadata ?w [''srv'', ?id] = Inr Directory"
    by (simp add: symlink_metadata_def attempt_def empty_world_def)
  moreover have "validate_run_id crockford ?id = Inr ()"
    using example_run_valid(1) by (simp add: validate_run_id_Inr)
  ultimately have ids: "list_run_ids (lb_ulid ?lb) [''srv''] ?w = Inr [?id]"
    by (simp add: list_run_ids_def ended_libs_def attempt_def empty_world_def)
  have "node_at ?w ([''srv''] @ [?id, ''state.json'']) = None"
    by simp (simp add: empty_world_def node_at_def)
  from unreadable_run_blocks [OF ids _ this]
  show "\<exists>e. snd (list_command ?lb [''srv''] (\<lambda>_. still) ?w) = Inl e" by simp
qed

end
