(* ===== verification/Waiting.thy ===== *)
theory Waiting
  imports Collection
begin

text \<open>
  The commands of \<^verbatim>\<open>src/cli.rs\<close> that poll a run until something holds: \<open>wait\<close> and \<open>stop\<close>. A turn of a
  loop observes the run, then reads the clock; the list of the turns is what the system answers, and
  \<open>Waiting\<close> is the result when it ends while the code still loops. Instants are in nanoseconds. The
  lemmas say what a result of \<open>stop\<close> means, that the loops end at their deadline, and that the request that
  \<open>stop\<close> writes is the one its supervisor takes; what a result of \<open>wait\<close> means is in \<open>Exit_Codes\<close>.
\<close>

section \<open>The loop of wait\<close>

record turn =
  tn_look :: meanwhile
  tn_now :: instant

record wait_result =
  wr_schema_version :: string
  wr_condition :: wait_condition
  wr_run :: run_view

fun wait_condition_name :: "wait_condition \<Rightarrow> string" where
  "wait_condition_name WaitRunning = ''running''"
| "wait_condition_name WaitReady = ''ready''"
| "wait_condition_name WaitExit = ''exit''"

text \<open>What \<open>{:?}\<close> prints for a readiness status.\<close>

fun debug_readiness :: "readiness_status \<Rightarrow> string" where
  "debug_readiness RdNotConfigured = ''NotConfigured''"
| "debug_readiness RdPending = ''Pending''"
| "debug_readiness RdReady = ''Ready''"
| "debug_readiness RdTimedOut = ''TimedOut''"
| "debug_readiness RdFailed = ''Failed''"

definition ready_satisfied :: "string \<Rightarrow> run_view \<Rightarrow> app_error + bool" where
  "ready_satisfied run_id view =
     (let readiness = rs_readiness (rv_state view) in
      case rd_status readiness of
        RdReady \<Rightarrow> Inr True
      | RdNotConfigured \<Rightarrow> Inl (usage (''run '' @ run_id @ '' has no readiness conditions''))
      | RdPending \<Rightarrow>
          if is_terminal (rs_status (rv_state view))
          then Inl (operational ''readiness_failed'' (''run '' @ run_id @ '' exited before it became ready''))
          else Inr False
      | ended \<Rightarrow> Inl (operational ''readiness_failed''
          (''run '' @ run_id @ '' readiness ended as '' @ debug_readiness ended @ '': ''
             @ (case rd_failure_reason readiness of Some reason \<Rightarrow> reason | None \<Rightarrow> ''unknown''))))"

definition wait_satisfied :: "wait_condition \<Rightarrow> string \<Rightarrow> run_view \<Rightarrow> app_error + bool" where
  "wait_satisfied condition run_id view =
     (case condition of
        WaitRunning \<Rightarrow> Inr (pi_process_pid (rs_process (rv_state view)) \<noteq> None)
      | WaitReady \<Rightarrow> ready_satisfied run_id view
      | WaitExit \<Rightarrow> Inr (is_terminal (rs_status (rv_state view)) \<and> \<not> rv_supervisor_active view))"

definition wait_check :: "wait_condition \<Rightarrow> string \<Rightarrow> run_view \<Rightarrow> app_error + bool" where
  "wait_check condition run_id view =
     (if rv_observed_status view = Orphaned
      then Inl (operational ''orphaned'' (''run '' @ run_id @ '' has live durable state but no active supervisor''))
      else wait_satisfied condition run_id view)"

fun wait_loop ::
  "('u, 'd) libs \<Rightarrow> path \<Rightarrow> string \<Rightarrow> wait_condition \<Rightarrow> u64 \<Rightarrow> instant \<Rightarrow> turn list \<Rightarrow> world \<Rightarrow>
   world \<times> (app_error + wait_result progress)" where
  "wait_loop lb root run_id condition timeout_ms deadline [] w = (w, Inr Waiting)"
| "wait_loop lb root run_id condition timeout_ms deadline (tn # turns) w =
     thenW (load_view lb root run_id (tn_look tn) w) (\<lambda>view w.
     thenW (w, wait_check condition run_id view) (\<lambda>satisfied w.
       if satisfied
       then (w, Inr (Returned \<lparr>wr_schema_version = ''procherd.wait.v1'', wr_condition = condition, wr_run = view\<rparr>))
       else if deadline \<le> tn_now tn
       then (w, Inl (timeout (''run '' @ run_id @ '' did not reach '' @ wait_condition_name condition
              @ '' within '' @ show_word timeout_ms @ '' ms'')))
       else wait_loop lb root run_id condition timeout_ms deadline turns w))"

definition wait_deadline :: "instant \<Rightarrow> u64 \<Rightarrow> instant" where
  "wait_deadline started timeout_ms = started + unat timeout_ms * 1000000"

definition wait_command ::
  "('u, 'd) libs \<Rightarrow> path \<Rightarrow> string \<Rightarrow> wait_condition \<Rightarrow> u64 \<Rightarrow> instant \<Rightarrow> turn list \<Rightarrow> world \<Rightarrow>
   world \<times> (app_error + wait_result progress)" where
  "wait_command lb root run_id condition timeout_ms started turns w =
     (if timeout_ms = 0 \<or> timeout_ms > 24 * 60 * 60 * 1000
      then (w, Inl (usage ''wait timeout must be greater than zero and at most 24h''))
      else wait_loop lb root run_id condition timeout_ms (wait_deadline started timeout_ms) turns w)"

section \<open>Stopping a run\<close>

record stop_result =
  so_schema_version :: string
  so_already_terminal :: bool
  so_run :: run_view

definition stop_answer :: "bool \<Rightarrow> run_view \<Rightarrow> stop_result" where
  "stop_answer already view =
     \<lparr>so_schema_version = ''procherd.stop.v1'', so_already_terminal = already, so_run = view\<rparr>"

text \<open>The wait for the supervisor of a terminal run to let go of its lock.\<close>

fun await_release ::
  "('u, 'd) libs \<Rightarrow> path \<Rightarrow> string \<Rightarrow> instant \<Rightarrow> run_view \<Rightarrow> turn list \<Rightarrow> world \<Rightarrow>
   world \<times> (app_error + stop_result progress)" where
  "await_release lb root run_id deadline view [] w =
     (w, if rv_supervisor_active view then Inr Waiting else Inr (Returned (stop_answer True view)))"
| "await_release lb root run_id deadline view (tn # turns) w =
     (if \<not> rv_supervisor_active view then (w, Inr (Returned (stop_answer True view)))
      else if deadline \<le> tn_now tn
      then (w, Inl (timeout (''run '' @ run_id @ '' reached terminal state but its supervisor remained active'')))
      else thenW (load_view lb root run_id (tn_look tn) w) (\<lambda>view w.
        await_release lb root run_id deadline view turns w))"

text \<open>The wait for the run to end after the request.\<close>

fun await_stop ::
  "('u, 'd) libs \<Rightarrow> path \<Rightarrow> string \<Rightarrow> instant \<Rightarrow> turn list \<Rightarrow> world \<Rightarrow>
   world \<times> (app_error + stop_result progress)" where
  "await_stop lb root run_id deadline [] w = (w, Inr Waiting)"
| "await_stop lb root run_id deadline (tn # turns) w =
     thenW (load_view lb root run_id (tn_look tn) w) (\<lambda>view w.
       if is_terminal (rs_status (rv_state view)) \<and> \<not> rv_supervisor_active view
       then (w, Inr (Returned (stop_answer False view)))
       else if \<not> rv_supervisor_active view
       then (w, Inl (operational ''orphaned''
         (''run '' @ run_id @ '' supervisor exited before persisting terminal state'')))
       else if deadline \<le> tn_now tn
       then (w, Inl (timeout (''run '' @ run_id @ '' did not stop within the grace period'')))
       else await_stop lb root run_id deadline turns w)"

text \<open>
  What the system answers to one stop: the first look and the clock after it, what the others do before
  the token is read and before the request is written, the time of the request, and the turns.
\<close>

record stop_answers =
  st_look :: meanwhile
  st_started :: instant
  st_token :: "world \<Rightarrow> world"
  st_write :: "world \<Rightarrow> world"
  st_requested_at_ms :: u64
  st_written :: instant
  st_turns :: "turn list"

definition stop_request_for :: "string \<Rightarrow> string \<Rightarrow> u64 \<Rightarrow> u64 \<Rightarrow> stop_request" where
  "stop_request_for run_id owner_token requested_at_ms grace_ms =
     \<lparr>sq_schema_version = ''procherd.stop-request.v1'', sq_run_id = run_id, sq_owner_token = owner_token,
      sq_requested_at_ms = requested_at_ms, sq_grace_ms = grace_ms\<rparr>"

definition stop_command ::
  "('u, 'd) libs \<Rightarrow> path \<Rightarrow> string \<Rightarrow> u64 \<Rightarrow> stop_answers \<Rightarrow> world \<Rightarrow>
   world \<times> (app_error + stop_result progress)" where
  "stop_command lb root run_id grace_ms a w =
     (if grace_ms > 5 * 60 * 1000 then (w, Inl (usage ''stop grace must be at most 5m''))
      else
        thenW (load_view lb root run_id (st_look a) w) (\<lambda>view w.
          if is_terminal (rs_status (rv_state view))
          then await_release lb root run_id (st_started a + 5 * 1000000000) view (st_turns a) w
          else if \<not> rv_supervisor_active view
          then (w, Inl (operational ''orphaned''
            (''run '' @ run_id @ '' cannot be stopped because its supervisor is not active'')))
          else
            let w = st_token a w in
            thenW (w, read_owner_token (lb_ulid lb) root w run_id) (\<lambda>owner_token w.
            thenW (write_stop_request (lb_ulid lb) (lb_stop lb) root
                (stop_request_for run_id owner_token (st_requested_at_ms a) grace_ms) (st_write a w)) (\<lambda>_ w.
            await_stop lb root run_id (st_written a + unat grace_ms * 1000000 + 5 * 1000000000) (st_turns a) w))))"

section \<open>What the loops have observed\<close>

text \<open>A view was really observed by the look of some turn.\<close>

definition seen_in :: "('u, 'd) libs \<Rightarrow> path \<Rightarrow> string \<Rightarrow> turn list \<Rightarrow> world \<Rightarrow> run_view \<Rightarrow> bool" where
  "seen_in lb root run_id turns w' view \<longleftrightarrow>
     (\<exists>tn\<in>set turns. \<exists>w. load_view lb root run_id (tn_look tn) w = (w', Inr view))"

lemma seen_in_Cons: "seen_in lb root run_id turns w' view \<Longrightarrow> seen_in lb root run_id (tn # turns) w' view"
  by (auto simp: seen_in_def)

definition condition_holds :: "wait_condition \<Rightarrow> run_view \<Rightarrow> bool" where
  "condition_holds condition view \<longleftrightarrow>
     (case condition of
        WaitRunning \<Rightarrow> pi_process_pid (rs_process (rv_state view)) \<noteq> None
      | WaitReady \<Rightarrow> rd_status (rs_readiness (rv_state view)) = RdReady
      | WaitExit \<Rightarrow> is_terminal (rs_status (rv_state view)) \<and> \<not> rv_supervisor_active view)"

lemma wait_check_True:
  "wait_check condition run_id view = Inr True \<longleftrightarrow>
     rv_observed_status view = Consistent \<and> condition_holds condition view"
  by (cases condition; cases "rv_observed_status view")
    (auto simp: wait_check_def wait_satisfied_def condition_holds_def ready_satisfied_def Let_def
      split: readiness_status.splits)

lemma wait_check_error: "wait_check condition run_id view = Inl e \<Longrightarrow> err_code e \<noteq> 3"
  by (cases condition)
    (auto simp: wait_check_def wait_satisfied_def ready_satisfied_def Let_def
      split: if_splits readiness_status.splits)

lemma wait_loop_Returned:
  "wait_loop lb root run_id condition timeout_ms deadline turns w = (w', Inr (Returned res)) \<Longrightarrow>
   wr_condition res = condition \<and> condition_holds condition (wr_run res) \<and>
   rv_observed_status (wr_run res) = Consistent \<and> seen_in lb root run_id turns w' (wr_run res)"
proof (induction turns arbitrary: w)
  case (Cons tn turns)
  then obtain u view ok where look: "load_view lb root run_id (tn_look tn) w = (u, Inr view)"
    and check: "wait_check condition run_id view = Inr ok"
    by (auto simp: thenW_Inr)
  show ?case
  proof (cases ok)
    case True
    then show ?thesis using Cons.prems look check by (auto simp: wait_check_True seen_in_def)
  next
    case False
    then have "wait_loop lb root run_id condition timeout_ms deadline turns u = (w', Inr (Returned res))"
      using Cons.prems look check by (simp split: if_splits)
    from Cons.IH [OF this] show ?thesis using seen_in_Cons by metis
  qed
qed simp

lemma wait_loop_ends:
  "\<exists>tn\<in>set turns. deadline \<le> tn_now tn \<Longrightarrow>
   snd (wait_loop lb root run_id condition timeout_ms deadline turns w) \<noteq> Inr Waiting"
proof (induction turns arbitrary: w)
  case (Cons tn turns)
  show ?case
  proof (cases "load_view lb root run_id (tn_look tn) w")
    case (Pair u r)
    show ?thesis
    proof (cases r)
      case (Inr view)
      then show ?thesis using Pair Cons by (cases "wait_check condition run_id view") auto
    qed (simp add: Pair)
  qed
qed simp

section \<open>What stop does\<close>

lemma await_release_Returned:
  "await_release lb root run_id deadline view turns w = (w', Inr (Returned res)) \<Longrightarrow>
   so_already_terminal res \<and> \<not> rv_supervisor_active (so_run res) \<and>
   ((w' = w \<and> so_run res = view) \<or> seen_in lb root run_id turns w' (so_run res))"
proof (induction turns arbitrary: view w)
  case (Cons tn turns)
  show ?case
  proof (cases "rv_supervisor_active view")
    case True
    then obtain u v where look: "load_view lb root run_id (tn_look tn) w = (u, Inr v)"
      and rest: "await_release lb root run_id deadline v turns u = (w', Inr (Returned res))"
      using Cons.prems by (auto simp: thenW_Inr split: if_splits)
    from Cons.IH [OF rest] look show ?thesis by (auto simp: seen_in_def)
  qed (use Cons.prems in \<open>auto simp: stop_answer_def\<close>)
qed (auto simp: stop_answer_def split: if_splits)

lemma await_release_ends:
  "\<exists>tn\<in>set turns. deadline \<le> tn_now tn \<Longrightarrow>
   snd (await_release lb root run_id deadline view turns w) \<noteq> Inr Waiting"
proof (induction turns arbitrary: view w)
  case (Cons tn turns)
  show ?case
  proof (cases "rv_supervisor_active view \<and> tn_now tn < deadline")
    case True
    then have later: "\<exists>tn\<in>set turns. deadline \<le> tn_now tn" using Cons.prems by auto
    show ?thesis
    proof (cases "load_view lb root run_id (tn_look tn) w")
      case (Pair u r)
      then show ?thesis using True Cons.IH [OF later] by (cases r) auto
    qed
  qed auto
qed simp

lemma await_stop_Returned:
  "await_stop lb root run_id deadline turns w = (w', Inr (Returned res)) \<Longrightarrow>
   \<not> so_already_terminal res \<and> condition_holds WaitExit (so_run res) \<and> seen_in lb root run_id turns w' (so_run res)"
proof (induction turns arbitrary: w)
  case (Cons tn turns)
  then obtain u view where look: "load_view lb root run_id (tn_look tn) w = (u, Inr view)"
    by (auto simp: thenW_Inr)
  show ?case
  proof (cases "is_terminal (rs_status (rv_state view)) \<and> \<not> rv_supervisor_active view")
    case True
    then show ?thesis using Cons.prems look
      by (auto simp: stop_answer_def condition_holds_def seen_in_def)
  next
    case False
    then have "await_stop lb root run_id deadline turns u = (w', Inr (Returned res))"
      using Cons.prems look by (auto split: if_splits)
    from Cons.IH [OF this] show ?thesis using seen_in_Cons by metis
  qed
qed simp

lemma await_stop_ends:
  "\<exists>tn\<in>set turns. deadline \<le> tn_now tn \<Longrightarrow>
   snd (await_stop lb root run_id deadline turns w) \<noteq> Inr Waiting"
proof (induction turns arbitrary: w)
  case (Cons tn turns)
  show ?case
  proof (cases "load_view lb root run_id (tn_look tn) w")
    case (Pair u r)
    then show ?thesis using Cons by (cases r) auto
  qed
qed simp

text \<open>The stages of a stop.\<close>

lemma stop_command_cases:
  obtains (refused) e where "stop_command lb root run_id grace_ms a w = (w, Inl e)"
  | (unseen) u e where "load_view lb root run_id (st_look a) w = (u, Inl e)"
      "stop_command lb root run_id grace_ms a w = (u, Inl e)"
  | (ended) u view where "load_view lb root run_id (st_look a) w = (u, Inr view)"
      "is_terminal (rs_status (rv_state view))"
      "stop_command lb root run_id grace_ms a w =
         await_release lb root run_id (st_started a + 5 * 1000000000) view (st_turns a) u"
  | (failed) e where "snd (stop_command lb root run_id grace_ms a w) = Inl e"
  | (requested) u view token v where "load_view lb root run_id (st_look a) w = (u, Inr view)"
      "\<not> is_terminal (rs_status (rv_state view))" "rv_supervisor_active view"
      "read_owner_token (lb_ulid lb) root (st_token a u) run_id = Inr token"
      "write_stop_request (lb_ulid lb) (lb_stop lb) root
         (stop_request_for run_id token (st_requested_at_ms a) grace_ms) (st_write a (st_token a u)) = (v, Inr ())"
      "stop_command lb root run_id grace_ms a w = await_stop lb root run_id
         (st_written a + unat grace_ms * 1000000 + 5 * 1000000000) (st_turns a) v"
proof (cases "grace_ms > 5 * 60 * 1000")
  case False
  note ok = False
  obtain u r where look: "load_view lb root run_id (st_look a) w = (u, r)" by (metis prod.collapse)
  show thesis
  proof (cases r)
    case (Inl e)
    then show thesis using look ok unseen by (simp add: stop_command_def)
  next
    case (Inr view)
    note look = look [unfolded Inr]
    show thesis
    proof (cases "is_terminal (rs_status (rv_state view))")
      case True
      then show thesis using look ok by (intro ended) (simp_all add: stop_command_def)
    next
      case False
      note live = False
      show thesis
      proof (cases "rv_supervisor_active view")
        case True
        show thesis
        proof (cases "read_owner_token (lb_ulid lb) root (st_token a u) run_id")
          case (Inr token)
          let ?sent = "write_stop_request (lb_ulid lb) (lb_stop lb) root
            (stop_request_for run_id token (st_requested_at_ms a) grace_ms) (st_write a (st_token a u))"
          obtain v x where "?sent = (v, x)" by (metis prod.collapse)
          then show thesis
            using look ok live True Inr
            by (cases x) (auto simp: stop_command_def Let_def intro: failed requested)
        qed (use look ok live True in \<open>auto simp: stop_command_def Let_def intro: failed\<close>)
      qed (use look ok live in \<open>auto simp: stop_command_def intro: failed\<close>)
    qed
  qed
qed (auto simp: stop_command_def intro: refused)

lemma await_release_still:
  "\<forall>tn\<in>set turns. tn_look tn = still \<Longrightarrow> fst (await_release lb root run_id d view turns v) = v"
proof (induction turns arbitrary: view v)
  case (Cons tn turns)
  have "fst (load_view lb root run_id (tn_look tn) v) = v"
    using Cons.prems load_view_still [of lb root run_id v] by simp
  then obtain r' where look: "load_view lb root run_id (tn_look tn) v = (v, r')" by (metis prod.collapse)
  show ?case using Cons.prems Cons.IH look by (cases r') simp_all
qed simp

text \<open>The run had ended when \<open>stop\<close> looked at it first; the answer is that view or a later one.\<close>

definition found_ended :: "('u, 'd) libs \<Rightarrow> path \<Rightarrow> string \<Rightarrow> stop_answers \<Rightarrow> world \<Rightarrow> world \<Rightarrow> run_view \<Rightarrow> bool" where
  "found_ended lb root run_id a w w' view \<longleftrightarrow>
     (\<exists>u first. load_view lb root run_id (st_look a) w = (u, Inr first) \<and> is_terminal (rs_status (rv_state first)) \<and>
        ((w' = u \<and> view = first) \<or> seen_in lb root run_id (st_turns a) w' view))"

text \<open>The run was live when \<open>stop\<close> looked at it first, and its supervisor was sent a request.\<close>

definition was_requested :: "('u, 'd) libs \<Rightarrow> path \<Rightarrow> string \<Rightarrow> u64 \<Rightarrow> stop_answers \<Rightarrow> world \<Rightarrow> bool" where
  "was_requested lb root run_id grace_ms a w \<longleftrightarrow>
     (\<exists>u first token v. load_view lb root run_id (st_look a) w = (u, Inr first) \<and>
        \<not> is_terminal (rs_status (rv_state first)) \<and> rv_supervisor_active first \<and>
        read_owner_token (lb_ulid lb) root (st_token a u) run_id = Inr token \<and>
        write_stop_request (lb_ulid lb) (lb_stop lb) root
          (stop_request_for run_id token (st_requested_at_ms a) grace_ms) (st_write a (st_token a u)) = (v, Inr ()))"

definition no_one_else :: "stop_answers \<Rightarrow> bool" where
  "no_one_else a \<longleftrightarrow> st_look a = still \<and> (\<forall>tn\<in>set (st_turns a). tn_look tn = still)"

lemma ended_answer:
  assumes "load_view lb root run_id (st_look a) w = (u, Inr first)" and "is_terminal (rs_status (rv_state first))"
    and "await_release lb root run_id deadline first (st_turns a) u = (w', Inr (Returned res))"
  shows "so_already_terminal res \<and> \<not> rv_supervisor_active (so_run res) \<and>
    found_ended lb root run_id a w w' (so_run res) \<and>
    (no_one_else a \<longrightarrow> w' = w \<and> is_terminal (rs_status (rv_state (so_run res))))"
proof -
  note answer = await_release_Returned [OF assms(3)]
  have "w' = w \<and> so_run res = first" if quiet: "no_one_else a"
  proof -
    have u: "u = w" using assms(1) quiet load_view_still_world [of lb root run_id w u "Inr first"]
      by (simp add: no_one_else_def)
    have "fst (await_release lb root run_id deadline first (st_turns a) u) = u"
      using quiet by (intro await_release_still) (simp add: no_one_else_def)
    then have w': "w' = w" using assms(3) u by simp
    have "so_run res = first" if seen: "seen_in lb root run_id (st_turns a) w' (so_run res)"
    proof -
      obtain tn v where "tn \<in> set (st_turns a)" "load_view lb root run_id (tn_look tn) v = (w', Inr (so_run res))"
        using seen unfolding seen_in_def by blast
      then have v: "load_view lb root run_id still v = (w', Inr (so_run res))"
        using quiet by (simp add: no_one_else_def)
      then have "v = w" using load_view_still_world [OF v] w' by simp
      then show ?thesis using v assms(1) quiet by (simp add: no_one_else_def)
    qed
    then show ?thesis using answer w' by blast
  qed
  then show ?thesis using answer assms(1,2) unfolding found_ended_def by blast
qed

text \<open>
  C17: what \<open>stop\<close> answers is so. It calls a run already terminal only when it found it so at its first
  look; unless other processes change the store meanwhile, nothing on disk is changed then, and the view of
  the answer is terminal, so that repeated calls are safe. Otherwise the run was live, its
  supervisor was sent a request with the owner token, and the view of the answer is terminal. In both
  cases the supervisor has let go of the run in that view. Once the clock has passed both of its deadlines
  the command has returned or failed.
\<close>

theorem stop_answer_holds:
  assumes "stop_command lb root run_id grace_ms a w = (w', r)"
  shows "(\<forall>res. r = Inr (Returned res) \<longrightarrow> \<not> rv_supervisor_active (so_run res) \<and>
      (if so_already_terminal res
       then found_ended lb root run_id a w w' (so_run res) \<and>
         (no_one_else a \<longrightarrow> w' = w \<and> is_terminal (rs_status (rv_state (so_run res))))
       else was_requested lb root run_id grace_ms a w \<and> is_terminal (rs_status (rv_state (so_run res))) \<and>
         seen_in lb root run_id (st_turns a) w' (so_run res))) \<and>
    ((\<exists>tn\<in>set (st_turns a). st_started a + 5 * 1000000000 \<le> tn_now tn \<and>
        st_written a + unat grace_ms * 1000000 + 5 * 1000000000 \<le> tn_now tn) \<longrightarrow> r \<noteq> Inr Waiting)"
proof (cases rule: stop_command_cases [of lb root run_id grace_ms a w])
  case (ended u view)
  have run: "await_release lb root run_id (st_started a + 5 * 1000000000) view (st_turns a) u = (w', r)"
    using ended(3) assms by simp
  note answer = ended_answer [OF ended(1,2), of "st_started a + 5 * 1000000000" w']
  have "r \<noteq> Inr Waiting" if "\<exists>tn\<in>set (st_turns a). st_started a + 5 * 1000000000 \<le> tn_now tn"
    using await_release_ends [OF that, of lb root run_id view u] run by simp
  then show ?thesis using answer run by auto
next
  case (requested u view token v)
  let ?deadline = "st_written a + unat grace_ms * 1000000 + 5 * 1000000000"
  have run: "await_stop lb root run_id ?deadline (st_turns a) v = (w', r)"
    using requested(6) assms by simp
  have "was_requested lb root run_id grace_ms a w" using requested(1-5) unfolding was_requested_def by blast
  moreover have "\<not> so_already_terminal res \<and> condition_holds WaitExit (so_run res) \<and>
      seen_in lb root run_id (st_turns a) w' (so_run res)" if "r = Inr (Returned res)" for res
    using await_stop_Returned run that by metis
  moreover have "r \<noteq> Inr Waiting" if "\<exists>tn\<in>set (st_turns a). ?deadline \<le> tn_now tn"
    using await_stop_ends [OF that, of lb root run_id v] run by simp
  ultimately show ?thesis by (auto simp: condition_holds_def)
next
  case (refused e)
  then have "r = Inl e" using assms by simp
  then show ?thesis by simp
next
  case (unseen u e)
  then have "r = Inl e" using assms by simp
  then show ?thesis by simp
next
  case (failed e)
  then have "r = Inl e" using assms by simp
  then show ?thesis by simp
qed

section \<open>The request reaches the supervisor\<close>

lemma atomic_write_json_healthy:
  assumes "healthy w p" and "parent_dir w p = Inr ()" and "node_at w p \<noteq> Some Directory"
  shows "atomic_write_json J p x w = (put_node p (Regular (js_write J x @ [10])) w, Inr ())"
  using assms by (simp add: atomic_write_json_def healthy_attempt)

text \<open>A request that was written is taken by the supervisor of the run, which removes it.\<close>

lemma written_request_taken:
  assumes "healthy w (stop_path dir)" and "node_at w (stop_path dir) = Some (Regular (js_write (lb_stop lb) request @ [10]))"
    and "json_documented (lb_stop lb) request" and "sq_schema_version request = ''procherd.stop-request.v1''"
    and "sq_run_id request = sp_run_id spec" and "sq_owner_token request = sp_owner_token spec"
  shows "read_stop_request lb dir spec meanwhile w = (remove_node (stop_path dir) w, Inr (Some request))"
  using read_json_healthy [OF assms(1,2,3)] assms
  by (simp add: read_stop_request_def remove_file_def healthy_attempt)

text \<open>
  C10: the request of \<open>stop\<close> reaches the supervisor. For a run whose supervisor is active, whose owner token
  is the one its supervisor was given and whose directory accepts a file, \<open>stop\<close> writes a request with its
  grace period, and the next time the supervisor looks it accepts exactly this request and removes it.
\<close>

theorem stop_request_reaches_supervisor:
  assumes "grace_ms \<le> 5 * 60 * 1000" and "load_view lb root run_id (st_look a) w = (u, Inr view)"
    and "\<not> is_terminal (rs_status (rv_state view))" and "rv_supervisor_active view"
    and "read_owner_token (lb_ulid lb) root (st_token a u) run_id = Inr (sp_owner_token spec)"
    and "sp_run_id spec = run_id" and "st_turns a = []"
    and "run_dir (lb_ulid lb) root (st_write a (st_token a u)) run_id = Inr (root @ [run_id])"
    and "healthy (st_write a (st_token a u)) (stop_path (root @ [run_id]))"
    and "node_at (st_write a (st_token a u)) (stop_path (root @ [run_id])) \<noteq> Some Directory"
    and "json_documented (lb_stop lb) (stop_request_for run_id (sp_owner_token spec) (st_requested_at_ms a) grace_ms)"
    and "stop_command lb root run_id grace_ms a w = (w', r)"
  shows "r = Inr Waiting \<and>
    read_stop_request lb (root @ [run_id]) spec meanwhile w' =
      (remove_node (stop_path (root @ [run_id])) w',
       Inr (Some (stop_request_for run_id (sp_owner_token spec) (st_requested_at_ms a) grace_ms)))"
proof -
  let ?v = "st_write a (st_token a u)" and ?p = "stop_path (root @ [run_id])"
  let ?request = "stop_request_for run_id (sp_owner_token spec) (st_requested_at_ms a) grace_ms"
  let ?w = "put_node ?p (Regular (js_write (lb_stop lb) ?request @ [10])) ?v"
  have "node_at ?v (root @ [run_id]) = Some Directory" using assms(8) by (simp add: run_dir_Inr)
  then have "parent_dir ?v ?p = Inr ()" by (simp add: parent_dir_def stop_path_def butlast_append)
  then have "atomic_write_json (lb_stop lb) ?p ?request ?v = (?w, Inr ())"
    by (rule atomic_write_json_healthy [OF assms(9) _ assms(10)])
  then have "write_stop_request (lb_ulid lb) (lb_stop lb) root ?request ?v = (?w, Inr ())"
    using assms(8) by (simp add: write_stop_request_def stop_request_for_def stop_path_def)
  then have w': "w' = ?w" "r = Inr Waiting"
    using assms(2-5,7,12) not_less [THEN iffD2, OF assms(1)] by (simp_all add: stop_command_def)
  have "read_stop_request lb (root @ [run_id]) spec meanwhile ?w = (remove_node ?p ?w, Inr (Some ?request))"
    by (rule written_request_taken) (use assms in \<open>simp_all add: stop_request_for_def\<close>)
  then show ?thesis by (simp add: w')
qed

section \<open>Examples\<close>

definition stop_at_once :: stop_answers where
  "stop_at_once = \<lparr>st_look = still, st_started = 0, st_token = (\<lambda>w. w), st_write = (\<lambda>w. w), st_requested_at_ms = 3,
     st_written = 0, st_turns = []\<rparr>"

theorem stop_answer_holds_witness:
  "\<forall>lb :: (128 word, bytes) libs. \<forall>JS spec. \<exists>res.
     stop_command (ended_libs lb) [''srv''] (rs_run_id example_run) 1000 stop_at_once (ended_world JS spec) =
       (ended_world JS spec, Inr (Returned res)) \<and> \<not> rv_supervisor_active (so_run res)"
proof (intro allI)
  fix lb :: "(128 word, bytes) libs" and JS spec
  let ?lb = "ended_libs lb" and ?w = "ended_world JS spec" and ?id = "rs_run_id example_run"
  let ?stop = "stop_command ?lb [''srv''] ?id 1000 stop_at_once ?w"
  have "load_view ?lb [''srv''] ?id still ?w = (?w, Inr (run_view_new ended_run False))"
    by (rule ended_run_viewed)
  then obtain res where res: "?stop = (?w, Inr (Returned res))"
    by (simp add: stop_command_def stop_at_once_def ended_run_def)
  then show "\<exists>res. ?stop = (?w, Inr (Returned res)) \<and> \<not> rv_supervisor_active (so_run res)"
    using stop_answer_holds [OF res] by auto
qed

text \<open>A run whose supervisor holds the lock, and the codecs of its documents.\<close>

definition live_libs :: "('u, 'd) libs \<Rightarrow> stop_request \<Rightarrow> (128 word, 'd) libs" where
  "live_libs lb request =
     (ended_libs lb)\<lparr>lb_state := example_codec example_run, lb_stop := example_codec request\<rparr>"

definition live_world :: "supervisor_spec json_codec \<Rightarrow> supervisor_spec \<Rightarrow> world" where
  "live_world JS spec = run_files (example_codec example_run) JS ([''srv''] @ [rs_run_id example_run]) example_run
     spec (replicate 64 (CHR ''a'')) (empty_world [[''srv'', rs_run_id example_run, ''supervisor.lock'']])"

theorem stop_request_reaches_supervisor_witness:
  "\<forall>lb :: (128 word, bytes) libs. \<forall>JS spec. \<exists>w' w'' request.
     sq_grace_ms request = 1000 \<and>
     stop_command (live_libs lb request) [''srv''] (rs_run_id example_run) 1000 stop_at_once (live_world JS spec) =
       (w', Inr Waiting) \<and>
     read_stop_request (live_libs lb request) [''srv'', rs_run_id example_run]
       (spec\<lparr>sp_run_id := rs_run_id example_run, sp_owner_token := replicate 64 (CHR ''a'')\<rparr>) (\<lambda>w. w) w' =
       (w'', Inr (Some request))"
proof (intro allI)
  fix lb :: "(128 word, bytes) libs" and JS spec
  let ?id = "rs_run_id example_run" and ?w = "live_world JS spec"
  let ?spec = "spec\<lparr>sp_run_id := ?id, sp_owner_token := replicate 64 (CHR ''a'')\<rparr>"
  let ?request = "stop_request_for ?id (replicate 64 (CHR ''a'')) 3 1000"
  let ?lb = "live_libs lb ?request"
  let ?locks = "[[''srv'', ?id, ''supervisor.lock'']]"
  have live: "\<not> is_terminal (rs_status example_run)" by (simp add: example_run_def example_state_def)
  have lb: "lb_ulid ?lb = crockford" "lb_state ?lb = example_codec example_run" "lb_stop ?lb = example_codec ?request"
    by (simp_all add: live_libs_def ended_libs_def)
  have token: "length (replicate 64 (CHR ''a'')) = 64" "list_all is_ascii_hexdigit (replicate 64 (CHR ''a''))"
    by (simp_all add: list_all_iff is_ascii_hexdigit_def char_code_def)
  note fresh = example_run_valid(3) [of ?locks]
  note r = run_files_readable [OF fresh example_run_valid(1,2) example_codec_documented token live_world_def [of JS spec]]
  note n = run_files_nodes [OF fresh live_world_def [of JS spec]]
  have view: "load_view ?lb [''srv''] ?id (st_look stop_at_once) ?w = (?w, Inr (run_view_new example_run True))"
    unfolding load_view_Inr using r(1,3)
    by (auto simp: stop_at_once_def state_of_def lb empty_world_def intro: exI [of _ True])
  have dir: "run_dir (lb_ulid ?lb) [''srv''] ?w ?id = Inr ([''srv''] @ [?id])"
    using n(1) n(6) [of "[]"] example_run_valid(1) by (simp add: run_dir_Inr lb healthy_attempt)
  have absent: "node_at ?w (stop_path ([''srv''] @ [?id])) = None"
    using fresh by (simp add: live_world_def run_files_def stop_path_def fresh_run_def prefix_def)
  obtain w' r' where stop: "stop_command ?lb [''srv''] ?id 1000 stop_at_once ?w = (w', r')"
    by (metis prod.collapse)
  have "r' = Inr Waiting \<and> read_stop_request ?lb ([''srv''] @ [?id]) ?spec (\<lambda>w. w) w' =
      (remove_node (stop_path ([''srv''] @ [?id])) w', Inr (Some (stop_request_for ?id (sp_owner_token ?spec)
        (st_requested_at_ms stop_at_once) 1000)))"
    by (rule stop_request_reaches_supervisor [OF _ view _ _ _ _ _ _ _ _ _ stop])
      (use r(2) dir absent n(6) [of "[''stop.request.json'']"] in
        \<open>simp_all add: stop_at_once_def lb example_codec_documented stop_path_def live\<close>)
  then show "\<exists>w' w'' request. sq_grace_ms request = 1000 \<and>
     stop_command (live_libs lb request) [''srv''] ?id 1000 stop_at_once ?w = (w', Inr Waiting) \<and>
     read_stop_request (live_libs lb request) [''srv'', ?id] ?spec (\<lambda>w. w) w' = (w'', Inr (Some request))"
    using stop by (intro exI [of _ w'] exI [of _ "remove_node (stop_path ([''srv''] @ [?id])) w'"] exI [of _ ?request])
      (simp add: stop_request_for_def stop_at_once_def)
qed

end
