(* ===== verification/Supervision.thy ===== *)
theory Supervision
  imports Supervisor
begin

text \<open>
  What the supervisor keeps while it runs: the stages of an iteration change only the parts of its
  memory they name, the signals sent follow the state of the stop, the status in memory goes up
  the order of the lifecycle, and the run document on disk is always a whole document of it.
\<close>

lemma thenW_cases:
  assumes "thenW m f = (s', r)"
  obtains (err) e where "m = (s', Inl e)" "r = Inl e" | (ok) s x where "m = (s, Inr x)" "f x s = (s', r)"
  using assms by (cases m; cases "snd m") auto

section \<open>Draining\<close>

text \<open>Draining changes the readiness, its tracker and the logs, and nothing else.\<close>

definition drained :: "'d sup \<Rightarrow> 'd sup \<Rightarrow> bool" where
  "drained su su' \<longleftrightarrow>
     (\<exists>rd tr lg. su' = su\<lparr>su_tracker := tr, su_state := (su_state su)\<lparr>rs_readiness := rd\<rparr>, su_logs := lg\<rparr>)"

lemma drained_refl: "drained su su"
proof -
  have "su = su\<lparr>su_tracker := su_tracker su,
      su_state := (su_state su)\<lparr>rs_readiness := rs_readiness (su_state su)\<rparr>, su_logs := su_logs su\<rparr>" by simp
  then show ?thesis unfolding drained_def by blast
qed

lemma drained_trans: "drained su su1 \<Longrightarrow> drained su1 su2 \<Longrightarrow> drained su su2"
  unfolding drained_def by (elim exE) (hypsubst, intro exI, simp)

lemma drained_frame:
  assumes "drained su su'"
  shows "su_world su' = su_world su" "su_sent su' = su_sent su" "su_armed su' = su_armed su"
    "su_alloc su' = su_alloc su" "su_stopping su' = su_stopping su"
    "rs_status (su_state su') = rs_status (su_state su)" "rs_limits (su_state su') = rs_limits (su_state su)"
    "rs_leases (su_state su') = rs_leases (su_state su)" "rs_run_id (su_state su') = rs_run_id (su_state su)"
  using assms unfolding drained_def by (elim exE, simp)+

text \<open>A chunk is shown to the readiness tracker as far as it will be captured, and then recorded.\<close>

abbreviation chunk_observed :: "arrival \<Rightarrow> 'd sup \<Rightarrow> readiness_tracker \<times> readiness_state \<times> bool" where
  "chunk_observed a su \<equiv> observe_log (ar_now a) (ar_finished_at a) (ch_stream (ar_chunk a))
     (capturable_bytes (su_logs su) (ar_chunk a)) (su_tracker su) (rs_readiness (su_state su))"

abbreviation chunk_recorded :: "('u, 'd) libs \<Rightarrow> arrival \<Rightarrow> 'd sup \<Rightarrow> 'd log_writer \<times> (app_error + unit)" where
  "chunk_recorded lb a su \<equiv>
     record_log (lb_log lb) (lb_digest lb) (ar_outcome a) (ar_recorded_at a) (ar_chunk a) (su_logs su)"

lemma record_chunk_eq:
  "record_chunk lb a su =
     (su\<lparr>su_tracker := fst (chunk_observed a su),
         su_state := (su_state su)\<lparr>rs_readiness := fst (snd (chunk_observed a su))\<rparr>,
         su_logs := fst (chunk_recorded lb a su)\<rparr>,
      bindE (snd (chunk_recorded lb a su)) (\<lambda>_. Inr (snd (snd (chunk_observed a su)))))"
  by (simp add: record_chunk_def on_state_def Let_def split: prod.splits)

lemma record_chunk_drained: "record_chunk lb a su = (su', r) \<Longrightarrow> drained su su'"
  by (auto simp: record_chunk_eq drained_def)

lemma drain_batch_drained: "drain_batch lb n arrivals changed su = (su', r) \<Longrightarrow> drained su su'"
proof (induction lb n arrivals changed su rule: drain_batch.induct)
  case (3 lb n a arrivals changed su)
  from "3.prems" [unfolded drain_batch.simps] show ?case
  proof (cases rule: thenW_cases)
    case (ok s x)
    then show ?thesis using 3(1) [OF ok(2)] record_chunk_drained drained_trans by blast
  qed (rule record_chunk_drained)
qed (auto intro: drained_refl)

lemma drain_until_closed_drained: "drain_until_closed lb deadline turns su = (su', r) \<Longrightarrow> drained su su'"
proof (induction lb deadline turns su rule: drain_until_closed.induct)
  case (2 lb deadline now receipt turns su)
  show ?case
  proof (cases "deadline - now = 0")
    case False
    show ?thesis
    proof (cases receipt)
      case (Chunk a)
      then have "thenW (record_chunk lb a su) (\<lambda>_ su. drain_until_closed lb deadline turns su) = (su', r)"
        using "2.prems" False by simp
      then show ?thesis
      proof (cases rule: thenW_cases)
        case (ok s x)
        then show ?thesis using 2(1) [OF False Chunk ok(2)] record_chunk_drained drained_trans by blast
      qed (rule record_chunk_drained)
    next
      case Empty
      then show ?thesis using 2(2) [OF False Empty] "2.prems" False by simp
    next
      case Disconnected
      then show ?thesis using "2.prems" False by (simp add: drained_refl)
    qed
  qed (use "2.prems" in \<open>simp add: drained_refl\<close>)
qed (simp add: drained_refl)

text \<open>
  C26: draining at the end of a run is bounded. Whatever chunks keep arriving, once one turn finds
  no time left the function has returned, and it returns an error only for a log that could not be
  written or for a channel that was still open at the end of the period.
\<close>

theorem drain_bounded:
  assumes "\<exists>(now, receipt)\<in>set turns. deadline \<le> now \<or> receipt = Disconnected"
    and "\<forall>(now, receipt)\<in>set turns. \<forall>a. receipt = Chunk a \<longrightarrow> ar_outcome a = Written"
  shows "\<exists>su'. drain_until_closed lb deadline turns su = (su', Inr (Returned ())) \<or>
    (drain_until_closed lb deadline turns su = (su', Inl (operational ''log_drain_timeout''
        ''log capture did not close within the bounded drain period'')) \<and>
     (\<exists>(now, receipt)\<in>set turns. deadline \<le> now \<and> receipt \<noteq> Disconnected))"
  using assms
proof (induction lb deadline turns su rule: drain_until_closed.induct)
  case (2 lb deadline now receipt turns su)
  show ?case
  proof (cases "deadline \<le> now")
    case True
    then show ?thesis by (cases receipt) auto
  next
    case False
    then have rest: "deadline - now \<noteq> 0" by simp
    have outcomes: "\<forall>(now, receipt)\<in>set turns. \<forall>a. receipt = Chunk a \<longrightarrow> ar_outcome a = Written"
      using "2.prems"(2) by auto
    show ?thesis
    proof (cases receipt)
      case (Chunk a)
      then have "ar_outcome a = Written" using "2.prems"(2) by auto
      then obtain s c where "record_chunk lb a su = (s, Inr c)"
        by (simp add: record_chunk_eq record_log_done Let_def)
      moreover have "\<exists>(now, receipt)\<in>set turns. deadline \<le> now \<or> receipt = Disconnected"
        using "2.prems"(1) False Chunk by auto
      ultimately show ?thesis using 2(1) [OF rest Chunk _ outcomes, of s] rest Chunk by auto
    next
      case Empty
      moreover have "\<exists>(now, receipt)\<in>set turns. deadline \<le> now \<or> receipt = Disconnected"
        using "2.prems"(1) False Empty by auto
      ultimately show ?thesis using 2(2) [OF rest Empty _ outcomes] rest by auto
    next
      case Disconnected
      then show ?thesis using False by auto
    qed
  qed
qed simp

section \<open>The stop and the signals\<close>

lemma persist_cases:
  assumes "persist lb dir su = (su', r)"
  obtains (stored) "r = Inr ()" "su' = su\<lparr>su_world :=
      put_node (state_path dir) (Regular (js_write (lb_state lb) (su_state su) @ [10])) (su_world su)\<rparr>"
  | (failed) e where "r = Inl e" "su' = su"
proof -
  obtain w r' where w: "atomic_write_json (lb_state lb) (state_path dir) (su_state su) (su_world su) = (w, r')"
    by (metis surj_pair)
  then have su': "su' = su\<lparr>su_world := w\<rparr>" "r = r'"
    using assms by (auto simp: persist_def in_world_def persist_state_def)
  show thesis
  proof (cases r')
    case (Inl e)
    then show thesis using failed su' atomic_write_json_frame(4) [OF w] by simp
  next
    case (Inr u)
    then show thesis using stored su' atomic_write_json_frame(5) [OF w] by simp
  qed
qed

text \<open>The signals that belong to the state of a stop, and the agreement of the status with it.\<close>

definition sent_for :: "bool \<Rightarrow> stopping option \<Rightarrow> child_signal list" where
  "sent_for win stopping =
     (case stopping of
        None \<Rightarrow> []
      | Some s \<Rightarrow> if win then [Kill] else Terminate # (if sg_force_sent s then [Kill] else []))"

definition running_ok :: "('u, 'd) libs \<Rightarrow> 'd sup \<Rightarrow> bool" where
  "running_ok lb su \<longleftrightarrow>
     su_armed su \<and> su_sent su = sent_for (lb_windows lb) (su_stopping su) \<and>
     rs_status (su_state su) = (if su_stopping su = None then Running else Stopping) \<and>
     (lb_windows lb \<longrightarrow> (\<forall>s. su_stopping su = Some s \<longrightarrow> sg_force_sent s)) \<and>
     (\<forall>s. su_stopping su = Some s \<longrightarrow> sg_reason s \<in> {StopRequested, RuntimeLimit})"

text \<open>At most one request to terminate, first, and then at most \<open>n\<close> kills.\<close>

definition orderly :: "nat \<Rightarrow> child_signal list \<Rightarrow> bool" where
  "orderly n sent \<longleftrightarrow>
     (\<exists>k\<le>n. sent = replicate k Kill \<or> sent = Terminate # replicate k Kill)"

lemma orderly_snoc: "orderly n sent \<Longrightarrow> orderly (Suc n) (sent @ [Kill])"
  unfolding orderly_def
  by (metis Suc_le_mono append_Cons replicate_Suc replicate_append_same)

lemma orderly_mono: "orderly m sent \<Longrightarrow> m \<le> n \<Longrightarrow> orderly n sent"
  unfolding orderly_def using le_trans by blast

lemma orderly_running: "running_ok lb su \<Longrightarrow> orderly 1 (su_sent su)"
  unfolding running_ok_def sent_for_def orderly_def
  by (auto split: option.splits intro: exI [of _ 0] exI [of _ "Suc 0"])

text \<open>How a stage that ends normally, or with an error, leaves what the next stage relies on.\<close>

definition steady :: "'d sup \<Rightarrow> 'd sup \<Rightarrow> bool" where
  "steady su su' \<longleftrightarrow> su_armed su' = su_armed su \<and> su_sent su' = su_sent su \<and> su_stopping su' = su_stopping su \<and>
     su_alloc su' = su_alloc su \<and> su_logs su' = su_logs su \<and> su_tracker su' = su_tracker su \<and>
     rs_status (su_state su') = rs_status (su_state su) \<and>
     rs_readiness (su_state su') = rs_readiness (su_state su)"

lemma steady_running: "steady su su' \<Longrightarrow> running_ok lb su \<Longrightarrow> running_ok lb su'"
  by (simp add: steady_def running_ok_def)

lemma drained_running: "drained su su' \<Longrightarrow> running_ok lb su \<Longrightarrow> running_ok lb su'"
  by (simp add: drained_frame running_ok_def)

lemma persist_steady: "persist lb dir su = (su', r) \<Longrightarrow> steady su su'"
  by (erule persist_cases) (simp_all add: steady_def)

lemma poll_readiness_running:
  assumes "poll_readiness lb dir tk d su = (su', r)" and "running_ok lb su"
  shows "running_ok lb su'"
proof -
  obtain tr rd p where poll: "poll (tk_poll tk) (tk_probe tk) (su_tracker su) (rs_readiness (su_state su)) = (tr, rd, p)"
    by (metis prod_cases3)
  let ?su = "on_state (\<lambda>st. st\<lparr>rs_readiness := rd\<rparr>) (su\<lparr>su_tracker := tr\<rparr>)"
  have ok: "running_ok lb ?su" "running_ok lb (stamp tk At_readiness ?su)"
    using assms(2) by (simp_all add: running_ok_def on_state_def stamp_def)
  show ?thesis
  proof (cases "d \<or> p")
    case True
    then have "thenW (persist lb dir (stamp tk At_readiness ?su)) (\<lambda>_ su.
        (su\<lparr>su_last_write := tk_instant tk At_readiness\<rparr>, Inr ())) = (su', r)"
      using assms(1) by (simp add: poll_readiness_def poll Let_def)
    then show ?thesis
    proof (cases rule: thenW_cases)
      case (err e)
      then show ?thesis using ok(2) persist_steady steady_running by blast
    next
      case (ok s x)
      then have "running_ok lb s" using \<open>running_ok lb (stamp tk At_readiness ?su)\<close> persist_steady steady_running by blast
      then show ?thesis using ok(2) by (auto simp: running_ok_def)
    qed
  next
    case False
    then show ?thesis using assms(1) ok(1) by (auto simp: poll_readiness_def poll Let_def)
  qed
qed

lemma poll_readiness_stopping:
  assumes "poll_readiness lb dir tk d su = (su', r)"
  shows "su_stopping su' = su_stopping su"
  using assms persist_steady
  by (fastforce simp: poll_readiness_def Let_def on_state_def stamp_def steady_def split: prod.splits if_splits
      elim: thenW_cases)

lemma start_kill_tolerant_frame:
  "start_kill_tolerant outcome su = (su', r) \<Longrightarrow> su' = send_signal Kill su"
  by (simp add: start_kill_tolerant_def)

lemma in_world_steady: "in_world f su = (su', r) \<Longrightarrow> \<exists>w. su' = su\<lparr>su_world := w\<rparr>"
  by (auto simp: in_world_def Let_def split: prod.splits)

lemma begin_stop_control:
  assumes "begin_stop lb dir tk grace reason su = (su', r)"
    and "su_stopping su = None" and "su_sent su = []" and "su_armed su"
    and "rs_status (su_state su) = Stopping" and "reason \<in> {StopRequested, RuntimeLimit}"
  shows "su_armed su' \<and> orderly 1 (su_sent su') \<and> (r = Inr () \<longrightarrow> running_ok lb su' \<and> su_stopping su' \<noteq> None)"
proof -
  obtain s1 r1 where rq: "request_stop lb (tk_signal tk) (tk_instant tk At_stop) grace reason su = (s1, r1)"
    by (metis surj_pair)
  have s1: "su_armed s1 \<and> orderly 1 (su_sent s1) \<and> (\<forall>s. r1 = Inr s \<longrightarrow>
      running_ok lb (s1\<lparr>su_stopping := Some s\<rparr>))"
    using rq assms(2-6)
    by (auto simp: request_stop_def start_kill_tolerant_def send_signal_def on_cleanup_def on_state_def
        running_ok_def sent_for_def orderly_def Let_def split: if_splits sum.splits
        intro: exI [of _ 0] exI [of _ "Suc 0"])
  from assms(1) have "thenW (s1, r1) (\<lambda>stopping su. persist lb dir (su\<lparr>su_stopping := Some stopping\<rparr>)) = (su', r)"
    by (simp add: begin_stop_def rq)
  then show ?thesis
  proof (cases rule: thenW_cases)
    case (err e)
    then show ?thesis using s1 by auto
  next
    case (ok s x)
    then have run: "running_ok lb (s1\<lparr>su_stopping := Some x\<rparr>)"
      and kept: "steady (s1\<lparr>su_stopping := Some x\<rparr>) su'"
      using s1 persist_steady by auto
    have "running_ok lb su'" by (rule steady_running [OF kept run])
    then show ?thesis using orderly_running [of lb su'] kept by (auto simp: running_ok_def steady_def)
  qed
qed

lemma check_stop_control:
  assumes "check_stop lb dir spec tk su = (su', r)" and "running_ok lb su"
  shows "su_armed su' \<and> orderly 1 (su_sent su') \<and>
    (r = Inr () \<longrightarrow> running_ok lb su' \<and> (su_stopping su \<noteq> None \<longrightarrow> su_stopping su' \<noteq> None))"
proof (cases "su_stopping su")
  case None
  let ?next = "\<lambda>request su. case request of
      Some request \<Rightarrow>
        begin_stop lb dir tk (sq_grace_ms request) StopRequested (on_state (stop_requested tk request) su)
    | None \<Rightarrow>
        if past_deadline tk (su_state su)
        then begin_stop lb dir tk (sp_runtime_grace_ms spec) RuntimeLimit (on_state (limit_reached spec tk) su)
        else (su, Inr ())"
  have start: "su_sent su = []" "su_armed su"
    using assms(2) None by (simp_all add: running_ok_def sent_for_def)
  from assms(1) None have "thenW (in_world (read_stop_request lb dir spec (tk_meanwhile tk)) su) ?next = (su', r)"
    by (simp add: check_stop_def)
  then show ?thesis
  proof (cases rule: thenW_cases)
    case (err e)
    then show ?thesis using in_world_steady start orderly_running [OF assms(2)] by fastforce
  next
    case (ok s request)
    obtain w where s: "s = su\<lparr>su_world := w\<rparr>" using in_world_steady [OF ok(1)] by blast
    show ?thesis
    proof (cases "request = None \<and> \<not> past_deadline tk (su_state s)")
      case True
      then have "su' = s" "r = Inr ()" using ok(2) by simp_all
      then show ?thesis using assms(2) orderly_running [OF assms(2)] None start by (simp add: s running_ok_def)
    next
      case False
      then obtain grace reason f where stop: "begin_stop lb dir tk grace reason (on_state f s) = (su', r)"
        and f: "rs_status (f (su_state s)) = Stopping" and reason: "reason \<in> {StopRequested, RuntimeLimit}"
        using ok(2) by (cases request) (force simp: stop_requested_def limit_reached_def split: if_splits)+
      from begin_stop_control [OF stop] show ?thesis using f reason None start by (simp add: s on_state_def)
    qed
  qed
next
  case (Some stopping)
  show ?thesis
  proof (cases "\<not> sg_force_sent stopping \<and> sg_deadline stopping \<le> tk_instant tk At_force")
    case True
    let ?after = "\<lambda>killed su. stamp tk At_force
      (on_cleanup (\<lambda>cl. cl\<lparr>cl_descendant_cleanup_triggered := cl_descendant_cleanup_triggered cl \<or> killed,
          cl_force_used := True\<rparr>)
        (su\<lparr>su_stopping := Some (stopping\<lparr>sg_force_sent := True\<rparr>)\<rparr>))"
    have unix: "\<not> lb_windows lb" using assms(2) Some True by (auto simp: running_ok_def)
    then have sent: "su_armed su" "su_sent su = [Terminate]"
      using assms(2) Some True by (auto simp: running_ok_def sent_for_def)
    from assms(1) Some True have
      "thenW (start_kill_tolerant (tk_force tk) su) (\<lambda>killed su. persist lb dir (?after killed su)) = (su', r)"
      by (simp add: check_stop_def)
    then show ?thesis
    proof (cases rule: thenW_cases)
      case (err e)
      then have "su' = send_signal Kill su" by (metis start_kill_tolerant_frame)
      then show ?thesis using sent err by (auto simp: send_signal_def orderly_def intro: exI [of _ "Suc 0"])
    next
      case (ok s killed)
      have s: "s = send_signal Kill su" using start_kill_tolerant_frame [OF ok(1)] .
      have "running_ok lb (?after killed s)"
        using assms(2) Some sent unix
        by (simp add: s send_signal_def running_ok_def sent_for_def stamp_def on_cleanup_def on_state_def)
      moreover have "steady (?after killed s) su'" by (rule persist_steady [OF ok(2)])
      ultimately have "running_ok lb su'" "su_stopping su' = su_stopping (?after killed s)"
        using steady_running by (auto simp: steady_def)
      then show ?thesis using orderly_running [of lb su']
        by (auto simp: running_ok_def stamp_def on_cleanup_def on_state_def)
    qed
  next
    case False
    then have "su' = su" "r = Inr ()" using assms(1) Some by (auto simp: check_stop_def)
    then show ?thesis using assms(2) orderly_running [OF assms(2)] by (simp add: running_ok_def)
  qed
qed

text \<open>A tick that does not end in \<open>Again\<close> leaves a child that is armed, or that has been killed.\<close>

definition closing :: "'d sup \<Rightarrow> bool" where
  "closing su \<longleftrightarrow> (su_armed su \<and> orderly 2 (su_sent su)) \<or>
     (orderly 2 (su_sent su) \<and> su_sent su \<noteq> [] \<and> List.last (su_sent su) = Kill)"

lemma killed_closing:
  assumes "orderly 1 sent" and "su_sent su = sent @ [Kill]"
  shows "closing su"
  using orderly_snoc [OF assms(1)] assms(2) by (simp add: closing_def numeral_2_eq_2)

lemma running_closing:
  assumes "running_ok lb su"
  shows "closing su"
proof -
  have "orderly 2 (su_sent su)" by (rule orderly_mono [OF orderly_running [OF assms]]) simp
  then show ?thesis using assms by (simp add: closing_def running_ok_def)
qed

lemma finish_run_cases:
  assumes "finish_run lb root dir tk status su = (su', r)"
  obtains (failed) e where "r = Inl e" "su_armed su' = su_armed su" "su_sent su' = su_sent su"
      "su_stopping su' = su_stopping su"
  | (closed) summary w st alloc where "r = Inr ()"
      "log_finish (lb_digest lb) (tk_synced tk) (su_logs su) = Inr summary"
      "release_leases (lb_ulid lb) (lb_registry lb) (tk_now tk At_release) root (su_alloc su)
        ((su_state su)\<lparr>rs_readiness := fst (process_exited (rs_readiness (su_state su))), rs_logs := summary\<rparr>)
        (su_world su) = (w, Inr (st, alloc))"
      "su' = su\<lparr>su_alloc := alloc, su_state := closed_run lb tk status (su_stopping su) st, su_world :=
        put_node (state_path dir) (Regular (js_write (lb_state lb)
          (closed_run lb tk status (su_stopping su) st) @ [10])) w\<rparr>"
proof -
  let ?su = "on_state (\<lambda>st. st\<lparr>rs_readiness := fst (process_exited (rs_readiness st))\<rparr>) su"
  let ?sum = "\<lambda>summary. on_state (\<lambda>st. st\<lparr>rs_logs := summary\<rparr>) ?su"
  let ?rel = "\<lambda>summary. in_world (release_leases (lb_ulid lb) (lb_registry lb) (tk_now tk At_release) root
    (su_alloc (?sum summary)) (su_state (?sum summary))) (?sum summary)"
  let ?last = "\<lambda>(st, alloc) su.
    persist lb dir (su\<lparr>su_alloc := alloc, su_state := closed_run lb tk status (su_stopping su) st\<rparr>)"
  show thesis
  proof (cases "log_finish (lb_digest lb) (tk_synced tk) (su_logs su)")
    case (Inl e)
    then have "r = Inl e" "su' = ?su" using assms by (auto simp: finish_run_def Let_def on_state_def)
    then show thesis by (intro failed) (simp_all add: on_state_def)
  next
    case (Inr summary)
    then have "thenW (?rel summary) ?last = (su', r)"
      using assms by (simp add: finish_run_def Let_def on_state_def)
    then show thesis
    proof (cases rule: thenW_cases)
      case (err e)
      then show thesis using in_world_steady [OF err(1)] by (intro failed) (auto simp: on_state_def)
    next
      case (ok s x)
      obtain st alloc where x: "x = (st, alloc)" by (cases x)
      obtain w where w: "release_leases (lb_ulid lb) (lb_registry lb) (tk_now tk At_release) root (su_alloc su)
          ((su_state su)\<lparr>rs_readiness := fst (process_exited (rs_readiness (su_state su))), rs_logs := summary\<rparr>)
          (su_world su) = (w, Inr (st, alloc))" and s: "s = (?sum summary)\<lparr>su_world := w\<rparr>"
        using ok(1) by (auto simp: x in_world_def on_state_def Let_def split: prod.splits)
      from ok(2) [unfolded x prod.case] show thesis
      proof (cases rule: persist_cases)
        case stored
        then show thesis by (intro closed [OF _ Inr w]) (simp_all add: s on_state_def)
      next
        case (failed e)
        then show thesis by (intro that(1) [of e]) (simp_all add: s on_state_def)
      qed
    qed
  qed
qed

lemma check_exit_cases:
  assumes "check_exit lb root dir tk su = (su', r)" and "running_ok lb su"
  obtains (again) "r = Inr Again" "steady su su'"
  | (ended) "r \<noteq> Inr Again" "r \<noteq> Inr Finished" "closing su'"
  | (finished) su1 status where "r = Inr Finished" "closing su'" "su_stopping su1 = su_stopping su"
      "su_alloc su1 = su_alloc su" "finish_run lb root dir tk status su1 = (su', Inr ())"
proof (cases "try_wait_retry (tk_wait tk)")
  case (Inl e)
  then have "su' = su" "r = Inl e" using assms(1) by (simp_all add: check_exit_def)
  then show thesis using running_closing [OF assms(2)] by (intro ended) simp_all
next
  case (Inr answer)
  consider (wait) "answer = Waiting" | (alive) "answer = Returned None" | (exited) status where "answer = Returned (Some status)"
    by (metis option.exhaust progress.exhaust)
  then show thesis
  proof cases
    case wait
    then have "su' = su" "r = Inr Stuck" using assms(1) Inr by (simp_all add: check_exit_def)
    then show thesis using running_closing [OF assms(2)] by (intro ended) simp_all
  next
    case alive
    let ?su = "stamp tk At_snapshot (on_state (\<lambda>st. st\<lparr>rs_logs := log_snapshot (su_logs su)\<rparr>) su)"
    show thesis
    proof (cases "250000000 \<le> tk_instant tk At_snapshot - su_last_write su")
      case False
      then have "su' = su" "r = Inr Again" using assms(1) Inr alive by (simp_all add: check_exit_def)
      then show thesis by (intro again) (simp_all add: steady_def)
    next
      case True
      have same: "steady su ?su" by (simp add: steady_def stamp_def on_state_def)
      from assms(1) Inr alive True have "thenW (persist lb dir ?su) (\<lambda>_ su.
          (su\<lparr>su_last_write := tk_instant tk At_snapshot\<rparr>, Inr Again)) = (su', r)"
        by (simp add: check_exit_def)
      then show thesis
      proof (cases rule: thenW_cases)
        case (err e)
        have "running_ok lb su'" using steady_running [OF persist_steady [OF err(1)] steady_running [OF same assms(2)]] .
        then show thesis using err(2) running_closing by (intro ended) auto
      next
        case (ok s x)
        then show thesis using persist_steady [OF ok(1)] same by (intro again) (auto simp: steady_def)
      qed
    qed
  next
    case exited
    let ?marked = "\<lambda>killed su. if killed then on_cleanup (\<lambda>cl. cl\<lparr>cl_descendant_cleanup_triggered := True,
      cl_force_used := cl_force_used cl \<or> su_stopping su \<noteq> None\<rparr>) su else su"
    let ?drain = "\<lambda>killed su. drain_until_closed lb (tk_instant tk At_drain + log_drain_limit) (tk_turns tk)
      ((?marked killed su)\<lparr>su_armed := False\<rparr>)"
    let ?finish = "\<lambda>drained su. case drained of Waiting \<Rightarrow> (su, Inr Stuck)
      | Returned _ \<Rightarrow> thenW (finish_run lb root dir tk status su) (\<lambda>_ su. (su, Inr Finished))"
    have sent: "orderly 1 (su_sent su)" by (rule orderly_running [OF assms(2)])
    from assms(1) Inr exited have "thenW (start_kill_tolerant (tk_rest tk) su)
        (\<lambda>killed su. thenW (?drain killed su) ?finish) = (su', r)"
      by (simp add: check_exit_def)
    then show thesis
    proof (cases rule: thenW_cases)
      case (err e)
      have "su' = send_signal Kill su" by (rule start_kill_tolerant_frame [OF err(1)])
      then show thesis using err(2) by (intro ended killed_closing [OF sent]) (simp_all add: send_signal_def)
    next
      case (ok s killed)
      have s: "s = send_signal Kill su" by (rule start_kill_tolerant_frame [OF ok(1)])
      have marked: "su_sent (?marked killed s) = su_sent su @ [Kill]" "su_stopping (?marked killed s) = su_stopping su"
        "su_alloc (?marked killed s) = su_alloc su"
        by (simp_all add: on_cleanup_def on_state_def s send_signal_def)
      from ok(2) show thesis
      proof (cases rule: thenW_cases)
        case (err e)
        then show thesis using drained_frame [OF drain_until_closed_drained [OF err(1)]] marked
          by (intro ended killed_closing [OF sent]) simp_all
      next
        case (ok s1 outcome)
        note s1 = drained_frame [OF drain_until_closed_drained [OF ok(1)]]
        show thesis
        proof (cases outcome)
          case Waiting
          then have "su' = s1" "r = Inr Stuck" using ok(2) by simp_all
          then show thesis using s1 marked by (intro ended killed_closing [OF sent]) simp_all
        next
          case (Returned u)
          then have "thenW (finish_run lb root dir tk status s1) (\<lambda>_ su. (su, Inr Finished)) = (su', r)"
            using ok(2) by simp
          then show thesis
          proof (cases rule: thenW_cases)
            case (err e)
            then have "su_sent su' = su_sent s1" by (cases rule: finish_run_cases [OF err(1)]) auto
            then show thesis using err(2) s1 marked by (intro ended killed_closing [OF sent]) simp_all
          next
            case (ok s2 x)
            then have "su_sent su' = su_sent s1" by (cases rule: finish_run_cases [OF ok(1)]) auto
            then show thesis using ok s1 marked by (intro finished [of s1 status] killed_closing [OF sent]) simp_all
          qed
        qed
      qed
    qed
  qed
qed

text \<open>A whole iteration.\<close>

lemma supervise_tick_cases:
  assumes "supervise_tick lb root dir spec tk su = (su', r)" and "running_ok lb su"
  obtains (again) "r = Inr Again" "running_ok lb su'" "rs_status (su_state su) \<le> rs_status (su_state su')"
  | (ended) "r \<noteq> Inr Again" "r \<noteq> Inr Finished" "closing su'"
  | (finished) su1 su2 status where "r = Inr Finished" "closing su'" "running_ok lb su2"
      "check_exit lb root dir tk su2 = (su', Inr Finished)" "su_stopping su1 = su_stopping su2"
      "finish_run lb root dir tk status su1 = (su', Inr ())"
proof -
  let ?start = "su\<lparr>su_world := tk_others tk (su_world su)\<rparr>"
  have start: "running_ok lb ?start" "su_stopping ?start = su_stopping su"
    using assms(2) by (simp_all add: running_ok_def)
  have armed: thesis if "running_ok lb su'" "r = Inl e" for e
    using that(2) running_closing [OF that(1)] by (intro ended) simp_all
  from assms(1) show thesis unfolding supervise_tick_def
  proof (cases rule: thenW_cases)
    case (err e)
    have "running_ok lb su'"
      by (rule drained_running [OF drain_batch_drained [OF err(1) [unfolded drain_available_def]] start(1)])
    then show thesis using err(2) by (rule armed)
  next
    case (ok s1 drain)
    then have d: "drained ?start s1" by (auto simp: drain_available_def intro: drain_batch_drained)
    then have s1: "running_ok lb s1" "su_stopping s1 = su_stopping su"
      using drained_running [OF d start(1)] drained_frame(5) [OF d] by auto
    from ok(2) show thesis
    proof (cases rule: thenW_cases)
      case (err e)
      then show thesis using poll_readiness_running [OF err(1) s1(1)] armed by blast
    next
      case (ok s2 x)
      have s2: "running_ok lb s2" by (rule poll_readiness_running [OF ok(1) s1(1)])
      have st2: "su_stopping s2 = su_stopping su" using poll_readiness_stopping [OF ok(1)] s1(2) by simp
      from ok(2) show thesis
      proof (cases rule: thenW_cases)
        case (err e)
        then show thesis using check_stop_control [OF err(1) s2] by (intro ended) (auto simp: closing_def intro: orderly_mono)
      next
        case (ok s3 y)
        have s3: "running_ok lb s3" "su_stopping su \<noteq> None \<longrightarrow> su_stopping s3 \<noteq> None"
          using check_stop_control [OF ok(1) s2] st2 by auto
        from ok(2) s3(1) show thesis
        proof (cases rule: check_exit_cases)
          case again
          then have "running_ok lb su'" "su_stopping su' = su_stopping s3"
            using steady_running s3(1) by (auto simp: steady_def)
          then show thesis using that(1) again(1) s3(2) assms(2) by (auto simp: running_ok_def less_eq_run_status_def)
        next
          case ended
          then show thesis by (rule that(2))
        next
          case (finished su1 status)
          show thesis by (rule that(3) [OF finished(1,2) s3(1) ok(2) [unfolded finished(1)] finished(3,5)])
        qed
      qed
    qed
  qed
qed

end
