(* ===== verification/Supervised_Runs.thy ===== *)
theory Supervised_Runs
  imports Supervision
begin

text \<open>
  Whole runs of the supervisor: the lifecycle as a graded system, the document a completed run
  leaves, and the signals the process has been sent when the supervisor ends.
\<close>

section \<open>The lifecycle\<close>

text \<open>The states of the loop; the flag tells that it has ended.\<close>

inductive sup_step ::
  "('u, 'd) libs \<Rightarrow> path \<Rightarrow> path \<Rightarrow> supervisor_spec \<Rightarrow> 'd sup \<times> bool \<Rightarrow> 'd sup \<times> bool \<Rightarrow> bool"
  for lb :: "('u, 'd) libs" and root :: path and dir :: path and spec :: supervisor_spec where
  goes_on: "supervise_tick lb root dir spec tk su = (su', Inr Again) \<Longrightarrow>
    sup_step lb root dir spec (su, False) (su', False)"
| ends: "supervise_tick lb root dir spec tk su = (su', Inr Finished) \<Longrightarrow>
    sup_step lb root dir spec (su, False) (su', True)"

inductive_cases sup_stepE: "sup_step lb root dir spec (su, ended) (su', ended')"

definition sup_start :: "'d sup \<times> bool \<Rightarrow> bool" where
  "sup_start s \<longleftrightarrow> \<not> snd s \<and> su_armed (fst s) \<and> su_sent (fst s) = [] \<and> su_stopping (fst s) = None \<and>
     rs_status (su_state (fst s)) = Running"

text \<open>What the document of a run says once its process has ended.\<close>

definition closed_ok :: "stopping option \<Rightarrow> run_state \<Rightarrow> bool" where
  "closed_ok stopping st \<longleftrightarrow>
     rs_status st = (if stopping = None then Exited else Stopped) \<and>
     map_option ex_reason (rs_exit st) = Some (case stopping of None \<Rightarrow> ProcessExited | Some s \<Rightarrow> sg_reason s) \<and>
     rd_status (rs_readiness st) \<noteq> RdPending \<and>
     list_all (\<lambda>l. pl_released_at_ms l \<noteq> None) (ls_ports (rs_leases st)) \<and>
     list_all (\<lambda>l. td_released_at_ms l \<noteq> None) (ls_temp_directories (rs_leases st)) \<and>
     sm_stdout_sha256 (rs_logs st) \<noteq> None \<and> sm_stderr_sha256 (rs_logs st) \<noteq> None \<and>
     cl_completed_at_ms (rs_cleanup st) = Some (rs_updated_at_ms st)"

lemma finish_run_closed:
  assumes "finish_run lb root dir tk status su = (su', Inr ())"
  shows "closed_ok (su_stopping su) (su_state su') \<and> su_stopping su' = su_stopping su \<and>
    node_at (su_world su') (state_path dir) = Some (Regular (js_write (lb_state lb) (su_state su') @ [10])) \<and>
    la_registry_released (su_alloc su')"
  using assms
proof (cases rule: finish_run_cases)
  case (closed summary w st alloc)
  let ?st = "(su_state su)\<lparr>rs_readiness := fst (process_exited (rs_readiness (su_state su))), rs_logs := summary\<rparr>"
  have st: "st = mark_released (tk_now tk At_release) ?st" and alloc: "la_registry_released alloc"
    using closed(3) by (auto simp: release_leases_def release_registry_def thenW_Inr split: if_splits)
  have "sm_stdout_sha256 summary \<noteq> None \<and> sm_stderr_sha256 summary \<noteq> None"
    using closed(2) by (auto simp: log_finish_def res_simps)
  moreover have "rd_status (fst (process_exited rd)) \<noteq> RdPending" for rd
    by (simp add: process_exited_def)
  ultimately have "closed_ok (su_stopping su) (closed_run lb tk status (su_stopping su) st)"
    by (simp add: closed_ok_def closed_run_def st mark_released_def exit_info_of_def list_all_iff)
  then show ?thesis using closed(4) alloc by simp
qed simp

definition sup_inv :: "('u, 'd) libs \<Rightarrow> path \<Rightarrow> 'd sup \<times> bool \<Rightarrow> bool" where
  "sup_inv lb dir s \<longleftrightarrow>
     (if snd s then closed_ok (su_stopping (fst s)) (su_state (fst s)) \<and>
        (\<forall>stopping. su_stopping (fst s) = Some stopping \<longrightarrow> sg_reason stopping \<in> {StopRequested, RuntimeLimit}) \<and>
        node_at (su_world (fst s)) (state_path dir) =
          Some (Regular (js_write (lb_state lb) (su_state (fst s)) @ [10])) \<and>
        la_registry_released (su_alloc (fst s))
      else running_ok lb (fst s))"

lemma check_exit_finished:
  assumes "check_exit lb root dir tk su = (su', Inr Finished)" and "running_ok lb su"
  shows "sup_inv lb dir (su', True) \<and> rs_status (su_state su) \<le> rs_status (su_state su') \<and> closing su'"
  using assms
proof (cases rule: check_exit_cases)
  case (finished su1 status)
  note closed = finish_run_closed [OF finished(5)]
  then have "rs_status (su_state su') = (if su_stopping su = None then Exited else Stopped)"
    by (simp add: closed_ok_def finished(3))
  moreover have "rs_status (su_state su) = (if su_stopping su = None then Running else Stopping)"
    using assms(2) by (simp add: running_ok_def)
  ultimately have "rs_status (su_state su) \<le> rs_status (su_state su')"
    by (simp add: less_eq_run_status_def)
  then show ?thesis using closed finished(2,3) assms(2) by (simp add: sup_inv_def running_ok_def)
qed simp_all

lemma tick_finished:
  assumes "supervise_tick lb root dir spec tk su = (su', Inr Finished)" and "running_ok lb su"
  shows "sup_inv lb dir (su', True) \<and> rs_status (su_state su) \<le> rs_status (su_state su') \<and> closing su'"
  using assms
proof (cases rule: supervise_tick_cases)
  case (finished su1 su2 status)
  have "rs_status (su_state su) \<in> {Running, Stopping}" using assms(2) by (simp add: running_ok_def)
  moreover have "rs_status (su_state su') \<in> {Exited, Stopped}"
    using check_exit_finished [OF finished(4,3)] by (simp add: sup_inv_def closed_ok_def)
  ultimately have "rs_status (su_state su) \<le> rs_status (su_state su')"
    by (auto simp: less_eq_run_status_def)
  then show ?thesis using check_exit_finished [OF finished(4,3)] by simp
qed simp_all

interpretation lifecycle: graded_system sup_start "sup_step lb root dir spec" "sup_inv lb dir"
    "\<lambda>s. rs_status (su_state (fst s))"
  for lb :: "('u, 'd) libs" and root dir spec
proof
  fix s t :: "'d sup \<times> bool"
  show "sup_inv lb dir s" if "sup_start s"
    using that by (simp add: sup_start_def sup_inv_def running_ok_def sent_for_def)
  assume inv: "sup_inv lb dir s" and step: "sup_step lb root dir spec s t"
  from step inv show "sup_inv lb dir t"
  proof cases
    case (goes_on tk su su')
    then show ?thesis using inv by (auto simp: sup_inv_def elim: supervise_tick_cases)
  next
    case (ends tk su su')
    then show ?thesis using inv tick_finished by (fastforce simp: sup_inv_def)
  qed
  from step inv show "rs_status (su_state (fst s)) \<le> rs_status (su_state (fst t))"
  proof cases
    case (goes_on tk su su')
    then show ?thesis using inv by (auto simp: sup_inv_def elim: supervise_tick_cases)
  next
    case (ends tk su su')
    then show ?thesis using inv tick_finished by (fastforce simp: sup_inv_def)
  qed
qed

text \<open>
  C16: a run only goes forward. In every order of chunks, polls, stop requests, time limits and
  exits the status moves up from running over stopping to an end, never back, and it is terminal
  exactly when the loop has ended.
\<close>

theorem status_advances:
  assumes "sup_start s" and "(sup_step lb root dir spec)\<^sup>*\<^sup>* s t" and "(sup_step lb root dir spec)\<^sup>*\<^sup>* t u"
  shows "rs_status (su_state (fst t)) \<le> rs_status (su_state (fst u)) \<and>
    (is_terminal (rs_status (su_state (fst u))) \<longleftrightarrow> snd u)"
proof -
  have t: "sup_inv lb dir t" by (rule lifecycle.reachable_inv [OF assms(1,2)])
  have "sup_inv lb dir u" by (rule lifecycle.steps_inv [OF assms(3) t])
  then have "is_terminal (rs_status (su_state (fst u))) \<longleftrightarrow> snd u"
    by (auto simp: sup_inv_def closed_ok_def running_ok_def split: if_splits)
  then show ?thesis using lifecycle.steps_grade [OF assms(3) t] by simp
qed

section \<open>The loop and what is left of it\<close>

lemma supervise_loop_end:
  "supervise_loop lb root dir spec tks su = (su', r) \<Longrightarrow> running_ok lb su \<Longrightarrow>
   closing su' \<and> (r = Inr (Returned ()) \<longrightarrow> sup_inv lb dir (su', True))"
proof (induction tks arbitrary: su)
  case Nil
  then show ?case by (auto intro: running_closing)
next
  case (Cons tk tks)
  let ?next = "\<lambda>tick_end su. case tick_end of
      Again \<Rightarrow> supervise_loop lb root dir spec tks su
    | Finished \<Rightarrow> (su, Inr (Returned ())) | Stuck \<Rightarrow> (su, Inr Waiting)"
  from Cons.prems(1) have "thenW (supervise_tick lb root dir spec tk su) ?next = (su', r)" by simp
  then show ?case
  proof (cases rule: thenW_cases)
    case (err e)
    from supervise_tick_cases [OF err(1) Cons.prems(2)] show ?thesis using err(2) by fastforce
  next
    case (ok s x)
    from ok(1) Cons.prems(2) show ?thesis
    proof (cases rule: supervise_tick_cases)
      case again
      then have "supervise_loop lb root dir spec tks s = (su', r)" using ok(2) by simp
      then show ?thesis using again(2) by (rule Cons.IH)
    next
      case ended
      then have "x = Stuck" by (cases x) simp_all
      then show ?thesis using ok(2) ended(3) by auto
    next
      case (finished su1 su2 status)
      then show ?thesis using ok(2) tick_finished [OF _ Cons.prems(2)] ok(1) by auto
    qed
  qed
qed

lemma spawn_process_start:
  assumes "spawn_process lb bt root dir spec st alloc w = (ws, Inr su)"
  shows "sup_start (su, False) \<and> (\<exists>pid. bt_spawn bt = Inr pid)"
  using assms
  by (auto simp: spawn_process_def sup_start_def spawned_def Let_def split: sum.splits prod.splits)

lemma spawn_process_signals:
  assumes "spawn_process lb bt root dir spec st alloc w = ((w', sent), Inl e)"
  shows "sent = (if \<exists>pid. bt_spawn bt = Inr pid then [Kill] else [])"
  using assms
  by (auto simp: spawn_process_def leave_def Let_def split: sum.splits prod.splits)

text \<open>The process was started: everything before the spawn succeeded, and the spawn did.\<close>

definition process_started :: "('u, 'd) libs \<Rightarrow> boot \<Rightarrow> path \<Rightarrow> world \<Rightarrow> bool" where
  "process_started lb bt dir w \<longleftrightarrow>
     (\<exists>lock prepared pid w'. open_supervisor_lock dir w = Inr lock \<and>
        begin_supervision lb bt dir (lock_node lock w) = (w', Inr prepared) \<and> bt_spawn bt = Inr pid)"

definition no_child_runs :: "('u, 'd) libs \<Rightarrow> boot \<Rightarrow> path \<Rightarrow> world \<Rightarrow> child_signal list \<Rightarrow> bool" where
  "no_child_runs lb bt dir w sent \<longleftrightarrow>
     orderly 3 sent \<and>
     (if process_started lb bt dir w then sent \<noteq> [] \<and> List.last sent = Kill else sent = [])"

lemma leave_closing:
  assumes "closing su"
  shows "orderly 3 (snd (leave lb root (su_armed su) alloc w (su_sent su))) \<and>
    snd (leave lb root (su_armed su) alloc w (su_sent su)) \<noteq> [] \<and>
    List.last (snd (leave lb root (su_armed su) alloc w (su_sent su))) = Kill"
  using assms orderly_snoc [of 2 "su_sent su"] orderly_mono [of 2 _ 3]
  by (auto simp: closing_def leave_def numeral_3_eq_3)

text \<open>The three ways the locked part ends.\<close>

lemma supervise_locked_cases:
  assumes "supervise_locked lb bt ticks dir w = ((w', sent), r)" and "r \<noteq> Inr Waiting"
  obtains (unprepared) e where "begin_supervision lb bt dir w = (w', Inl e)" "sent = []" "r = Inl e"
  | (unspawned) w1 spec st alloc e where "begin_supervision lb bt dir w = (w1, Inr (spec, st, alloc))"
      "spawn_process lb bt (butlast dir) dir spec st alloc w1 = ((w', sent), Inl e)" "r = Inl e"
  | (looped) w1 ws spec st alloc su su' where "begin_supervision lb bt dir w = (w1, Inr (spec, st, alloc))"
      "spawn_process lb bt (butlast dir) dir spec st alloc w1 = (ws, Inr su)"
      "supervise_loop lb (butlast dir) dir spec ticks su = (su', r)"
      "(w', sent) = leave lb (butlast dir) (su_armed su') (su_alloc su') (su_world su') (su_sent su')"
proof -
  obtain w1 r1 where b: "begin_supervision lb bt dir w = (w1, r1)" by (metis surj_pair)
  show thesis
  proof (cases r1)
    case (Inl e)
    then show thesis using assms b by (intro unprepared [of e]) (auto simp: supervise_locked_def)
  next
    case (Inr p)
    obtain spec st alloc where p: "p = (spec, st, alloc)" by (metis prod_cases3)
    obtain ws r2 where s: "spawn_process lb bt (butlast dir) dir spec st alloc w1 = (ws, r2)" by (metis surj_pair)
    show thesis
    proof (cases r2)
      case (Inl e)
      then show thesis using assms b s Inr
        by (intro unspawned [of w1 spec st alloc e]) (auto simp: supervise_locked_def p Let_def)
    next
      case (Inr su)
      obtain su' r3 where l: "supervise_loop lb (butlast dir) dir spec ticks su = (su', r3)" by (metis surj_pair)
      have "r3 \<noteq> Inr Waiting" and "r = r3"
        and "(w', sent) = leave lb (butlast dir) (su_armed su') (su_alloc su') (su_world su') (su_sent su')"
        using assms b s Inr l \<open>r1 = Inr p\<close>
        by (auto simp: supervise_locked_def p Let_def split: sum.splits progress.splits)
      then show thesis using b s l Inr \<open>r1 = Inr p\<close> p by (intro looped) auto
    qed
  qed
qed

lemma supervise_locked_signals:
  assumes "supervise_locked lb bt ticks dir w = ((w', sent), r)" and "r \<noteq> Inr Waiting"
  shows "orderly 3 sent \<and>
    (if (\<exists>w1 p. begin_supervision lb bt dir w = (w1, Inr p)) \<and> (\<exists>pid. bt_spawn bt = Inr pid)
     then sent \<noteq> [] \<and> List.last sent = Kill else sent = [])"
  using assms
proof (cases rule: supervise_locked_cases)
  case (unprepared e)
  then show ?thesis by (auto simp: orderly_def)
next
  case (unspawned w1 spec st alloc e)
  then show ?thesis using spawn_process_signals [OF unspawned(2)]
    by (auto simp: orderly_def intro: exI [of _ 0] exI [of _ "Suc 0"])
next
  case (looped w1 ws spec st alloc su su')
  have "running_ok lb su"
    using spawn_process_start [OF looped(2)] by (simp add: sup_start_def running_ok_def sent_for_def)
  then have "closing su'" using supervise_loop_end [OF looped(3)] by blast
  from leave_closing [OF this] show ?thesis
    using looped(1,4) spawn_process_start [OF looped(2)] by (metis snd_conv)
qed

text \<open>
  C4: the supervisor never leaves a process behind. However it ends, with success or with an error
  of the file system, the logs, the registry or the system calls, a process that was started has
  been sent a kill last; before that it was asked to terminate at most once and killed at most
  twice more, and when no process was started no signal is sent.
\<close>

theorem no_child_left:
  assumes "supervise lb bt ticks failed_at failed_exit_at dir w = ((w', sent), r)" and "r \<noteq> Inr Waiting"
  shows "no_child_runs lb bt dir w sent"
proof (cases "open_supervisor_lock dir w")
  case (Inl e)
  then have "sent = []" using assms(1) by (simp add: supervise_def)
  then show ?thesis using Inl by (auto simp: no_child_runs_def process_started_def orderly_def)
next
  case (Inr lock)
  obtain w1 r1 where l: "supervise_locked lb bt ticks dir (lock_node lock w) = ((w1, sent), r1)"
    and "r1 \<noteq> Inr Waiting"
    using assms Inr by (auto simp: supervise_def split: prod.splits sum.splits progress.splits)
  then show ?thesis using supervise_locked_signals [OF l] Inr
    by (auto simp: no_child_runs_def process_started_def split: if_splits)
qed

end
