(* ===== verification/Terminal_Runs.thy ===== *)
theory Terminal_Runs
  imports Supervised_Runs
begin

text \<open>
  What a supervisor leaves when it ends. The document of the run is undisturbed by everything but the
  supervisor's own writes, each of which replaces it as a whole, whatever fails. So it is a whole document
  at the end too, with a terminal status unless the failure itself could not be recorded.
\<close>

section \<open>What leaves the document alone\<close>

definition undisturbed :: "path \<Rightarrow> world \<Rightarrow> world \<Rightarrow> bool" where
  "undisturbed dir w w' \<longleftrightarrow> node_at w' (state_path dir) = node_at w (state_path dir)"

definition whole_document :: "('u, 'd) libs \<Rightarrow> path \<Rightarrow> world \<Rightarrow> bool" where
  "whole_document lb dir w \<longleftrightarrow> (\<exists>st. node_at w (state_path dir) = Some (Regular (js_write (lb_state lb) st @ [10])))"

lemma whole_undisturbed: "whole_document lb dir w \<Longrightarrow> undisturbed dir w w' \<Longrightarrow> whole_document lb dir w'"
  by (simp add: whole_document_def undisturbed_def)

lemma undisturbed_refl: "undisturbed dir w w"
  by (simp add: undisturbed_def)

lemma undisturbed_trans: "undisturbed dir w v \<Longrightarrow> undisturbed dir v u \<Longrightarrow> undisturbed dir w u"
  by (simp add: undisturbed_def)

text \<open>An operation that keeps a property of the state, whatever its result.\<close>

named_theorems keeps \<open>operations that keep a property of the world\<close>

lemma thenW_keeps:
  "P (fst m) \<Longrightarrow> (\<And>x s. P s \<Longrightarrow> P (fst (f x s))) \<Longrightarrow> P (fst (thenW m f))"
  by (cases m; cases "snd m") auto

lemma in_world_keeps:
  "P (su_world su) \<Longrightarrow> (\<And>w. P w \<Longrightarrow> P (fst (f w))) \<Longrightarrow> P (su_world (fst (in_world f su)))"
  by (simp add: in_world_def Let_def split: prod.splits) (metis fst_conv)

lemma state_path_ne: "state_path dir \<noteq> dir" "dir \<noteq> state_path dir"
  by (simp_all add: state_path_def)

lemma whole_persist [keeps]: "whole_document lb dir w \<Longrightarrow> whole_document lb dir (fst (persist_state lb dir st w))"
proof -
  assume w: "whole_document lb dir w"
  obtain w' r where p: "atomic_write_json (lb_state lb) (state_path dir) st w = (w', r)" by (metis surj_pair)
  show ?thesis
  proof (cases r)
    case (Inl e)
    then show ?thesis using w atomic_write_json_frame(4) [OF p] by (simp add: persist_state_def p)
  next
    case (Inr u)
    then have "w' = put_node (state_path dir) (Regular (js_write (lb_state lb) st @ [10])) w"
      using atomic_write_json_frame(5) [OF p] by simp
    then show ?thesis using w by (auto simp: persist_state_def p whole_document_def state_path_ne)
  qed
qed

lemma undisturbed_put: "q \<noteq> state_path dir \<Longrightarrow> undisturbed dir w (put_node q n w)"
  by (simp add: undisturbed_def)

lemma undisturbed_remove: "q \<noteq> state_path dir \<Longrightarrow> undisturbed dir w (fst (remove_file q w))"
  by (simp add: undisturbed_def remove_file_def split: sum.splits)

lemma undisturbed_mkdir:
  "q \<noteq> state_path dir \<Longrightarrow> undisturbed dir w (fst (create_new_private_dir q w))"
  by (auto simp: create_new_private_dir_def undisturbed_refl undisturbed_put split: sum.splits)

lemma undisturbed_ensure:
  "q \<noteq> state_path dir \<Longrightarrow> undisturbed dir w (fst (ensure_dir q w))"
  by (simp add: ensure_dir_def undisturbed_refl undisturbed_mkdir)

text \<open>The directories of the leases are below \<open>resources\<close>.\<close>

lemma below_resources: "prefix (dir @ [''resources'']) q \<Longrightarrow> q \<noteq> state_path dir"
  by (auto simp: state_path_def prefix_def)

lemma undisturbed_dirs:
  "prefix (dir @ [''resources'']) (base @ [c]) \<Longrightarrow> undisturbed dir w (fst (create_private_dirs base (c # cs) w))"
proof (induction cs arbitrary: base c w)
  case Nil
  then show ?case
    by (cases "ensure_dir (base @ [c]) w"; cases "snd (ensure_dir (base @ [c]) w)")
      (use undisturbed_ensure [of "base @ [c]" dir w] below_resources [OF Nil] in auto)
next
  case (Cons d cs)
  have first: "undisturbed dir w (fst (ensure_dir (base @ [c]) w))"
    using undisturbed_ensure below_resources [OF Cons.prems] by blast
  have "prefix (dir @ [''resources'']) ((base @ [c]) @ [d])" using Cons.prems by (rule prefix_prefix)
  then have rest: "undisturbed dir v (fst (create_private_dirs (base @ [c]) (d # cs) v))" for v
    by (rule Cons.IH)
  show ?case unfolding create_private_dirs.simps(2) [of base]
    by (rule thenW_keeps [where P = "undisturbed dir w"]) (rule first, rule undisturbed_trans [OF _ rest])
qed

lemma undisturbed_named:
  "prefix (dir @ [''resources'']) root \<Longrightarrow> undisturbed dir w (fst (create_named_dirs root paths names w))"
proof (induction names arbitrary: paths w)
  case (Cons name names)
  have "prefix (dir @ [''resources'']) (root @ [name])" using Cons.prems by (rule prefix_prefix)
  then have "undisturbed dir w (fst (create_new_private_dir (root @ [name]) w))"
    using undisturbed_mkdir below_resources by blast
  then show ?case unfolding create_named_dirs.simps
    by (rule thenW_keeps [where P = "undisturbed dir w"])
      (rule undisturbed_trans [OF _ Cons.IH [OF Cons.prems]])
qed (simp add: undisturbed_refl)

lemma undisturbed_temp: "undisturbed dir w (fst (create_temp_directories dir names w))"
proof (cases "names = []")
  case False
  have first: "undisturbed dir w (fst (create_private_dirs dir [''resources'', ''temp''] w))"
    by (rule undisturbed_dirs) simp
  have rest: "undisturbed dir v (fst (create_named_dirs (dir @ [''resources'', ''temp'']) [] names v))" for v
    by (rule undisturbed_named) (simp add: prefix_def)
  have "undisturbed dir w (fst (thenW (create_private_dirs dir [''resources'', ''temp''] w)
      (\<lambda>_ w. create_named_dirs (dir @ [''resources'', ''temp'']) [] names w)))"
    by (rule thenW_keeps [where P = "undisturbed dir w"]) (rule first, rule undisturbed_trans [OF _ rest])
  then show ?thesis using False by (simp add: create_temp_directories_def)
qed (simp add: create_temp_directories_def undisturbed_refl)

section \<open>The registry\<close>

text \<open>The name of a run directory is no file of the registry.\<close>

definition run_directory :: "path \<Rightarrow> bool" where
  "run_directory dir \<longleftrightarrow> dir \<noteq> [] \<and> prefix ''run_'' (List.last dir)"

lemma undisturbed_registry:
  assumes "run_directory dir" and "same_but_registry (butlast dir) w w'"
  shows "undisturbed dir w w'"
proof -
  have "length (state_path dir) = Suc (length dir)" "length (butlast dir @ [c]) = length dir" for c :: string
    using assms(1) by (auto simp: state_path_def run_directory_def)
  then have "state_path dir \<noteq> butlast dir @ [c]" for c by (metis n_not_Suc_n)
  then show ?thesis using assms(2)
    by (simp add: undisturbed_def same_but_registry_def registry_path_def)
qed

lemma update_registry_keeps:
  assumes "run_directory dir"
  shows "undisturbed dir w (fst (update_registry L J (butlast dir) update w))"
  by (rule undisturbed_registry [OF assms])
    (metis update_registry_cases prod.collapse)

lemma release_registry_keeps:
  assumes "run_directory dir"
  shows "undisturbed dir w (fst (release_registry L J (butlast dir) alloc w))"
proof (cases "la_registry_released alloc")
  case False
  have "undisturbed dir w (fst (release_run L J (butlast dir) (la_run_id alloc) w))"
    unfolding release_run_def by (rule update_registry_keeps [OF assms])
  then have "undisturbed dir w (fst (thenW (release_run L J (butlast dir) (la_run_id alloc) w)
      (\<lambda>_ w. (w, Inr (alloc\<lparr>la_registry_released := True\<rparr>)))))"
    by (rule thenW_keeps [where P = "undisturbed dir w"]) simp
  then show ?thesis using False by (simp add: release_registry_def)
qed (simp add: release_registry_def undisturbed_refl)

lemma whole_drop [keeps]:
  "run_directory dir \<Longrightarrow> whole_document lb dir w \<Longrightarrow> whole_document lb dir (drop_allocation L J (butlast dir) alloc w)"
  unfolding drop_allocation_def by (rule whole_undisturbed [OF _ release_registry_keeps])

lemma whole_release [keeps]:
  assumes "run_directory dir" and "whole_document lb dir w"
  shows "whole_document lb dir (fst (release_leases L J at (butlast dir) alloc st w))"
proof -
  have "whole_document lb dir (fst (release_registry L J (butlast dir) alloc w))"
    by (rule whole_undisturbed [OF assms(2) release_registry_keeps [OF assms(1)]])
  then show ?thesis unfolding release_leases_def by (rule thenW_keeps) simp
qed

lemma whole_acquire [keeps]:
  assumes "run_directory dir" and "whole_document lb dir w"
  shows "whole_document lb dir (fst (acquire_leases L J win utf8 bind now at (butlast dir) dir st requests w))"
proof -
  have temp: "whole_document lb dir (fst (create_temp_directories dir names w))" for names
    by (rule whole_undisturbed [OF assms(2) undisturbed_temp])
  have reserve: "whole_document lb dir (fst (reserve_ports L J bind now (butlast dir) r names v))" if "whole_document lb dir v" for r names v
  proof (cases "names = []")
    case False
    show ?thesis unfolding reserve_ports_def if_not_P [OF False]
      by (rule whole_undisturbed [OF that update_registry_keeps [OF assms(1)]])
  qed (simp add: reserve_ports_def that)
  have release: "whole_document lb dir v'" if "whole_document lb dir v" "release_registry L J (butlast dir) alloc v = (v', r)" for v v' r alloc
    using whole_undisturbed [OF that(1) release_registry_keeps [OF assms(1)]] that(2) by (metis fst_conv)
  note drop = whole_drop [OF assms(1)]
  show ?thesis unfolding acquire_leases_def
    by (auto simp: assms(2) Let_def split: sum.split prod.split
        intro!: thenW_keeps [where P = "whole_document lb dir"] temp reserve drop dest: release)
qed

section \<open>The supervisor\<close>

definition spares :: "path \<Rightarrow> (world \<Rightarrow> world) \<Rightarrow> bool" where
  "spares dir f \<longleftrightarrow> (\<forall>w. undisturbed dir w (f w))"

text \<open>Other processes leave the document of the run alone.\<close>

definition quiet_tick :: "path \<Rightarrow> tick \<Rightarrow> bool" where
  "quiet_tick dir tk \<longleftrightarrow> spares dir (tk_others tk) \<and> spares dir (tk_meanwhile tk)"

lemma whole_spared: "spares dir f \<Longrightarrow> whole_document lb dir w \<Longrightarrow> whole_document lb dir (f w)"
  by (auto simp: spares_def intro: whole_undisturbed)

lemma whole_remove [keeps]:
  "q \<noteq> state_path dir \<Longrightarrow> whole_document lb dir w \<Longrightarrow> whole_document lb dir (fst (remove_file q w))"
  by (rule whole_undisturbed [OF _ undisturbed_remove])

lemma whole_persist_sup [keeps]:
  "whole_document lb dir (su_world su) \<Longrightarrow> whole_document lb dir (su_world (fst (persist lb dir su)))"
  unfolding persist_def by (rule in_world_keeps [where P = "whole_document lb dir"]) (simp_all add: whole_persist)

lemma thenW_sup [keeps]:
  "whole_document lb dir (su_world (fst m)) \<Longrightarrow>
   (\<And>x s. whole_document lb dir (su_world s) \<Longrightarrow> whole_document lb dir (su_world (fst (f x s)))) \<Longrightarrow>
   whole_document lb dir (su_world (fst (thenW m f)))"
  by (rule thenW_keeps [where P = "\<lambda>s. whole_document lb dir (su_world s)"])

lemma stop_path_ne: "stop_path dir \<noteq> state_path dir"
  by (simp_all add: stop_path_def state_path_def)

lemma whole_read_stop [keeps]:
  assumes "spares dir meanwhile" and "whole_document lb dir w"
  shows "whole_document lb dir (fst (read_stop_request lb dir spec meanwhile w))"
proof (cases "read_json (lb_stop lb) w (stop_path dir)")
  case (Inl e)
  then show ?thesis using whole_spared [OF assms] by (simp add: read_stop_request_def Let_def)
next
  case (Inr request)
  have "whole_document lb dir (fst (thenW (remove_file (stop_path dir) w) (\<lambda>_ w. (w, Inr (Some request)))))"
    by (rule thenW_keeps [where P = "whole_document lb dir"]) (simp_all add: whole_remove stop_path_ne assms(2))
  then show ?thesis using Inr assms(2) by (simp add: read_stop_request_def)
qed

lemma world_frames [simp]:
  "su_world (on_state f su) = su_world su" "su_world (on_cleanup g su) = su_world su"
  "su_world (stamp tk at su) = su_world su" "su_world (send_signal s su) = su_world su"
  by (simp_all add: on_state_def on_cleanup_def stamp_def send_signal_def)

lemma kill_world [simp]: "su_world (fst (start_kill_tolerant outcome su)) = su_world su"
  by (simp add: start_kill_tolerant_def)

lemma request_stop_world [simp]: "su_world (fst (request_stop lb outcome now grace reason su)) = su_world su"
  by (simp add: request_stop_def start_kill_tolerant_def Let_def split: sum.split)

lemma drain_world [simp]:
  "su_world (fst (drain_available lb arrivals su)) = su_world su"
  "su_world (fst (drain_until_closed lb deadline turns su)) = su_world su"
  using drained_frame(1) drain_batch_drained drain_until_closed_drained
  by (metis drain_available_def prod.collapse, metis prod.collapse)

lemma whole_poll [keeps]:
  "whole_document lb dir (su_world su) \<Longrightarrow> whole_document lb dir (su_world (fst (poll_readiness lb dir tk d su)))"
  by (simp add: poll_readiness_def Let_def keeps split: prod.split)

lemma whole_begin_stop [keeps]:
  "whole_document lb dir (su_world su) \<Longrightarrow> whole_document lb dir (su_world (fst (begin_stop lb dir tk grace reason su)))"
  unfolding begin_stop_def by (rule thenW_sup) (simp_all add: keeps)

lemma whole_check_stop [keeps]:
  assumes "quiet_tick dir tk" and "whole_document lb dir (su_world su)"
  shows "whole_document lb dir (su_world (fst (check_stop lb dir spec tk su)))"
proof (cases "su_stopping su")
  case None
  have "whole_document lb dir (su_world (fst (in_world (read_stop_request lb dir spec (tk_meanwhile tk)) su)))"
    by (rule in_world_keeps [where P = "whole_document lb dir"], rule assms(2))
      (use assms(1) in \<open>simp add: quiet_tick_def whole_read_stop\<close>)
  then show ?thesis unfolding check_stop_def None option.case
    by (rule thenW_sup) (simp add: whole_begin_stop split: option.split)
next
  case (Some stopping)
  show ?thesis unfolding check_stop_def Some option.case
    by (simp add: assms(2)) (intro impI thenW_sup whole_persist_sup, simp_all add: assms(2))
qed

lemma whole_finish [keeps]:
  assumes "run_directory dir" and "whole_document lb dir (su_world su)"
  shows "whole_document lb dir (su_world (fst (finish_run lb (butlast dir) dir tk status su)))"
  unfolding finish_run_def Let_def
  by (rule thenW_sup, simp add: assms(2), rule thenW_sup, rule in_world_keeps [where P = "whole_document lb dir"])
    (simp_all add: assms(1) whole_release whole_persist_sup split: prod.split)

lemma whole_check_exit [keeps]:
  assumes "run_directory dir" and "whole_document lb dir (su_world su)"
  shows "whole_document lb dir (su_world (fst (check_exit lb (butlast dir) dir tk su)))"
proof -
  have finish: "whole_document lb dir (su_world (fst (case outcome of
      Waiting \<Rightarrow> (s, Inr Stuck)
    | Returned _ \<Rightarrow> thenW (finish_run lb (butlast dir) dir tk status s) (\<lambda>_ su. (su, Inr Finished)))))"
    if "whole_document lb dir (su_world s)" for s :: "'b sup" and outcome :: "unit progress" and status
  proof (cases outcome)
    case (Returned u)
    have "whole_document lb dir (su_world (fst (thenW (finish_run lb (butlast dir) dir tk status s) (\<lambda>_ su. (su, Inr Finished)))))"
      by (rule thenW_sup) (simp_all add: whole_finish assms(1) that)
    then show ?thesis by (simp add: Returned)
  qed (simp add: that)
  show ?thesis
  proof (cases "try_wait_retry (tk_wait tk)")
    case (Inl e)
    then show ?thesis by (simp add: check_exit_def assms(2))
  next
    case (Inr answer)
    show ?thesis
    proof (cases answer)
      case Waiting
      then show ?thesis by (simp add: check_exit_def Inr assms(2))
    next
      case (Returned exited)
      show ?thesis
      proof (cases exited)
        case None
        then show ?thesis
          by (auto simp: check_exit_def Inr Returned assms(2) intro!: thenW_sup whole_persist_sup)
      next
        case (Some status)
        show ?thesis unfolding check_exit_def Inr Returned Some sum.case progress.case option.case Let_def
          by (rule thenW_sup, simp add: assms(2), rule thenW_sup, simp, rule finish)
      qed
    qed
  qed
qed

lemma whole_tick [keeps]:
  assumes "run_directory dir" and "quiet_tick dir tk" and "whole_document lb dir (su_world su)"
  shows "whole_document lb dir (su_world (fst (supervise_tick lb (butlast dir) dir spec tk su)))"
proof -
  have "whole_document lb dir (tk_others tk (su_world su))"
    using assms(2,3) by (simp add: quiet_tick_def whole_spared)
  then show ?thesis unfolding supervise_tick_def
    by (intro thenW_sup whole_poll whole_check_stop [OF assms(2)] whole_check_exit [OF assms(1)]) simp
qed

lemma whole_loop [keeps]:
  assumes "run_directory dir" and "\<forall>tk\<in>set ticks. quiet_tick dir tk" and "whole_document lb dir (su_world su)"
  shows "whole_document lb dir (su_world (fst (supervise_loop lb (butlast dir) dir spec ticks su)))"
  using assms(2,3)
proof (induction ticks arbitrary: su)
  case (Cons tk ticks)
  show ?case unfolding supervise_loop.simps
    by (rule thenW_sup) (use Cons assms(1) whole_tick in \<open>auto split: tick_end.split\<close>)
qed simp

lemma whole_begin [keeps]:
  assumes "run_directory dir" and "whole_document lb dir w"
  shows "whole_document lb dir (fst (begin_supervision lb bt dir w))"
proof (cases "load_documents lb dir w")
  case (Inl e)
  then show ?thesis by (simp add: begin_supervision_def assms(2))
next
  case (Inr p)
  obtain spec st where p: "p = (spec, st)" by (cases p)
  have ne: "dir @ [''spec.json''] \<noteq> state_path dir" by (simp add: state_path_def)
  have last: "whole_document lb dir (fst (case persist_state lb dir st v of
        (w, Inl e) \<Rightarrow> (drop_allocation (lb_ulid lb) (lb_registry lb) (butlast dir) alloc w, Inl e)
      | (w, Inr _) \<Rightarrow> (w, Inr (spec, st, alloc))))" if "whole_document lb dir v" for st alloc v
  proof -
    obtain v' q where v': "persist_state lb dir st v = (v', q)" by (metis surj_pair)
    then have "whole_document lb dir v'" using whole_persist [OF that, of st] by simp
    then have "whole_document lb dir (drop_allocation (lb_ulid lb) (lb_registry lb) (butlast dir) alloc v')"
      by (rule whole_drop [OF assms(1)])
    then show ?thesis using \<open>whole_document lb dir v'\<close> by (simp add: v' split: sum.split)
  qed
  show ?thesis unfolding begin_supervision_def Inr p sum.case prod.case Let_def
    by (intro thenW_keeps [where P = "whole_document lb dir"] whole_remove [OF ne] whole_persist assms(2))
      (auto intro!: thenW_keeps [where P = "whole_document lb dir"] whole_acquire assms(1) last split: prod.split)
qed

lemma whole_leave:
  "run_directory dir \<Longrightarrow> whole_document lb dir w \<Longrightarrow> whole_document lb dir (fst (leave lb (butlast dir) armed alloc w sent))"
  by (simp add: leave_def whole_drop)

lemma whole_spawn:
  assumes "run_directory dir" and "whole_document lb dir w"
    and "spawn_process lb bt (butlast dir) dir spec st alloc w = ((w', sent), r)"
  shows "whole_document lb dir w' \<and> (\<forall>su. r = Inr su \<longrightarrow> su_world su = w')"
proof -
  have drop: "whole_document lb dir (drop_allocation L J (butlast dir) a v)" if "whole_document lb dir v" for L J a v
    by (rule whole_drop [OF assms(1) that])
  have persist: "whole_document lb dir v'" if "whole_document lb dir v" "persist_state lb dir s v = (v', q)" for v v' s q
    using whole_persist [OF that(1), of s] that(2) by simp
  have release: "whole_document lb dir v'" if "whole_document lb dir v"
    "release_leases (lb_ulid lb) (lb_registry lb) at (butlast dir) a s v = (v', q)" for v v' at a s q
    using whole_release [OF assms(1) that(1), of "lb_ulid lb" "lb_registry lb" at a s] that(2) by simp
  show ?thesis using assms(2,3)
    by (auto simp: spawn_process_def leave_def Let_def split: sum.splits prod.splits
        intro!: drop dest: persist release)
qed

lemma whole_locked:
  assumes "run_directory dir" and "\<forall>tk\<in>set ticks. quiet_tick dir tk" and "whole_document lb dir w"
    and "supervise_locked lb bt ticks dir w = ((w', sent), r)" and "r \<noteq> Inr Waiting"
  shows "whole_document lb dir w'"
  using assms(4,5)
proof (cases rule: supervise_locked_cases)
  case (unprepared e)
  then show ?thesis using whole_begin [OF assms(1,3), of bt] by simp
next
  case (unspawned w1 spec st alloc e)
  have "whole_document lb dir w1" using whole_begin [OF assms(1,3), of bt] unspawned(1) by simp
  then show ?thesis using whole_spawn [OF assms(1) _ unspawned(2)] by blast
next
  case (looped w1 ws spec st alloc su su')
  obtain v sent' where ws: "ws = (v, sent')" by (cases ws)
  have "whole_document lb dir w1" using whole_begin [OF assms(1,3), of bt] looped(1) by simp
  then have "whole_document lb dir (su_world su)"
    using whole_spawn [OF assms(1) _ looped(2) [unfolded ws]] by auto
  from whole_loop [OF assms(1,2) this, of spec] have "whole_document lb dir (su_world su')"
    by (simp add: looped(3))
  then show ?thesis using looped(4) whole_leave [OF assms(1)] by (metis fst_conv)
qed

section \<open>The end of every run\<close>

text \<open>What is asked of the codec: a document that was written is read, with its status.\<close>

definition status_readable :: "run_state json_codec \<Rightarrow> bool" where
  "status_readable J \<longleftrightarrow>
     (\<forall>st. \<exists>st'. js_read J (js_write J st @ [10]) = Inr st' \<and> rs_status st' = rs_status st)"

definition terminal_on_disk :: "('u, 'd) libs \<Rightarrow> path \<Rightarrow> world \<Rightarrow> bool" where
  "terminal_on_disk lb dir w \<longleftrightarrow>
     (\<exists>st. node_at w (state_path dir) = Some (Regular (js_write (lb_state lb) st @ [10])) \<and>
        is_terminal (rs_status st))"

text \<open>
  The failure cannot be recorded: reading the document, or writing the one of the failed run, fails. The
  reason is a fault of the system on the document, a directory of the run that is gone, or a document that is
  larger than anybody reads.
\<close>

definition record_fails :: "('u, 'd) libs \<Rightarrow> u64 \<Rightarrow> u64 \<Rightarrow> path \<Rightarrow> app_error \<Rightarrow> world \<Rightarrow> bool" where
  "record_fails lb at exit_at dir e w \<longleftrightarrow>
     (\<exists>e'. read_json (lb_state lb) w (state_path dir) = Inl e') \<or>
     (\<exists>st e'. read_json (lb_state lb) w (state_path dir) = Inr st \<and>
        snd (persist_state lb dir (supervisor_failed at exit_at e st) w) = Inl e')"

definition out_of_reach :: "path \<Rightarrow> world \<Rightarrow> bool" where
  "out_of_reach dir w \<longleftrightarrow> \<not> healthy w (state_path dir) \<or> resolved (node_at w dir) \<noteq> Some Directory \<or>
     (\<exists>bs. node_at w (state_path dir) = Some (Regular bs) \<and> document_limit < length bs)"

lemma whole_document_read:
  assumes "whole_document lb dir w" and "status_readable (lb_state lb)" and "\<not> out_of_reach dir w"
  shows "\<exists>st st'. node_at w (state_path dir) = Some (Regular (js_write (lb_state lb) st @ [10])) \<and>
    read_json (lb_state lb) w (state_path dir) = Inr st' \<and> rs_status st' = rs_status st"
proof -
  obtain st where doc: "node_at w (state_path dir) = Some (Regular (js_write (lb_state lb) st @ [10]))"
    using assms(1) by (auto simp: whole_document_def)
  have ok: "attempt w op (state_path dir) = Inr ()" for op
    using assms(3) by (simp add: out_of_reach_def healthy_attempt)
  have small: "\<not> document_limit < length (js_write (lb_state lb) st @ [10])"
    using assms(3) doc by (auto simp: out_of_reach_def)
  obtain st' where "js_read (lb_state lb) (js_write (lb_state lb) st @ [10]) = Inr st'" "rs_status st' = rs_status st"
    using assms(2) by (auto simp: status_readable_def)
  moreover from this(1) have "read_json (lb_state lb) w (state_path dir) = Inr st'"
    using small by (simp add: read_json_def ensure_regular [OF ok doc] open_file_def ok doc)
  ultimately show ?thesis using doc by blast
qed

lemma terminal_read:
  assumes "whole_document lb dir w" and "status_readable (lb_state lb)"
    and "read_json (lb_state lb) w (state_path dir) = Inr st'" and "is_terminal (rs_status st')"
  shows "terminal_on_disk lb dir w"
proof -
  obtain st where doc: "node_at w (state_path dir) = Some (Regular (js_write (lb_state lb) st @ [10]))"
    using assms(1) by (auto simp: whole_document_def)
  then have "js_read (lb_state lb) (js_write (lb_state lb) st @ [10]) = Inr st'"
    using read_json_Inr [OF assms(3)] by simp
  then have "rs_status st' = rs_status st" using assms(2) by (auto simp: status_readable_def dest: spec [of _ st])
  then show ?thesis using doc assms(4) by (auto simp: terminal_on_disk_def)
qed

text \<open>Recording the failure of a supervisor gives a terminal document, or changes nothing because it cannot.\<close>

lemma failure_recorded:
  assumes "whole_document lb dir w" and "status_readable (lb_state lb)"
  shows "terminal_on_disk lb dir (mark_supervisor_failed lb at exit_at dir e w) \<or>
    (mark_supervisor_failed lb at exit_at dir e w = w \<and> record_fails lb at exit_at dir e w \<and> out_of_reach dir w)"
proof (cases "read_json (lb_state lb) w (state_path dir)")
  case (Inl e')
  then have "out_of_reach dir w" using whole_document_read [OF assms] by auto
  then show ?thesis using Inl by (auto simp: mark_supervisor_failed_def record_fails_def)
next
  case (Inr st')
  show ?thesis
  proof (cases "is_terminal (rs_status st')")
    case True
    then show ?thesis using terminal_read [OF assms Inr] Inr by (simp add: mark_supervisor_failed_def)
  next
    case False
    let ?failed = "supervisor_failed at exit_at e st'"
    obtain v r where p: "atomic_write_json (lb_state lb) (state_path dir) ?failed w = (v, r)" by (metis surj_pair)
    then have marked: "mark_supervisor_failed lb at exit_at dir e w = v"
      using Inr False by (simp add: mark_supervisor_failed_def persist_state_def)
    show ?thesis
    proof (cases r)
      case (Inl e')
      have "out_of_reach dir w"
      proof (rule ccontr)
        assume near: "\<not> out_of_reach dir w"
        then obtain bs where "node_at w (state_path dir) = Some (Regular bs)" "healthy w (state_path dir)"
          "resolved (node_at w dir) = Some Directory"
          using assms(1) by (auto simp: out_of_reach_def whole_document_def)
        then have "snd (atomic_write_json (lb_state lb) (state_path dir) ?failed w) = Inr ()"
          by (simp add: atomic_write_json_def healthy_attempt parent_dir_def state_path_def)
        then show False using p Inl by simp
      qed
      moreover have "v = w" using atomic_write_json_frame(4) [OF p] Inl by simp
      ultimately show ?thesis using Inr p Inl marked by (auto simp: record_fails_def persist_state_def)
    next
      case (Inr u)
      then have "v = put_node (state_path dir) (Regular (js_write (lb_state lb) ?failed @ [10])) w"
        using atomic_write_json_frame(5) [OF p] by simp
      then show ?thesis unfolding marked by (auto simp: terminal_on_disk_def supervisor_failed_def)
    qed
  qed
qed

lemma node_at_unlock [simp]: "node_at (unlock_node p w) q = node_at w q"
  by (simp add: unlock_node_def node_at_def)

lemma terminal_unlock: "terminal_on_disk lb dir (unlock_node p w) = terminal_on_disk lb dir w"
  by (simp add: terminal_on_disk_def unlock_node_def node_at_def)

lemma whole_lock: "whole_document lb dir (lock_node p w) = whole_document lb dir w"
  by (simp add: whole_document_def lock_node_def node_at_def healthy_def)

lemma locked_closed:
  assumes "supervise_locked lb bt ticks dir w = ((w', sent), Inr (Returned ()))"
  shows "\<exists>stopping st. node_at w' (state_path dir) = Some (Regular (js_write (lb_state lb) st @ [10])) \<and>
    closed_ok stopping st \<and>
    (\<forall>s. stopping = Some s \<longrightarrow> sg_reason s \<in> {StopRequested, RuntimeLimit})"
proof -
  have live: "Inr (Returned ()) \<noteq> (Inr Waiting :: app_error + unit progress)" by simp
  from assms live show ?thesis
  proof (cases rule: supervise_locked_cases)
    case (looped w1 ws spec st alloc su su')
    have "running_ok lb su"
      using spawn_process_start [OF looped(2)] by (simp add: sup_start_def running_ok_def sent_for_def)
    then have inv: "sup_inv lb dir (su', True)" using supervise_loop_end [OF looped(3)] by blast
    then have "w' = su_world su'"
      using looped(4) by (simp add: leave_def drop_allocation_def release_registry_def sup_inv_def)
    then show ?thesis using inv by (auto simp: sup_inv_def)
  qed simp_all
qed

text \<open>The supervisor has failed and could not record it, as the last thing it did before it let go of the lock.\<close>

definition left_unrecorded ::
  "('u, 'd) libs \<Rightarrow> u64 \<Rightarrow> u64 \<Rightarrow> path \<Rightarrow> path \<Rightarrow> world \<Rightarrow> app_error + unit progress \<Rightarrow> bool" where
  "left_unrecorded lb failed_at failed_exit_at dir lock w' r \<longleftrightarrow>
     (\<exists>e v. r = Inl e \<and> w' = unlock_node lock v \<and> record_fails lb failed_at failed_exit_at dir e v \<and> out_of_reach dir v)"

text \<open>What a supervisor leaves when it ends, with success or with any error.\<close>

lemma supervisor_leaves_terminal:
  assumes "run_directory dir" and "whole_document lb dir w" and "status_readable (lb_state lb)"
    and "\<forall>tk\<in>set ticks. quiet_tick dir tk" and "open_supervisor_lock dir w = Inr lock"
    and "supervise lb bt ticks failed_at failed_exit_at dir w = ((w', sent), r)" and "r \<noteq> Inr Waiting"
  shows "whole_document lb dir w' \<and>
    (terminal_on_disk lb dir w' \<or> left_unrecorded lb failed_at failed_exit_at dir lock w' r)"
proof -
  have start: "whole_document lb dir (lock_node lock w)" using assms(2) by (simp add: whole_lock)
  obtain w1 s1 r1 where l: "supervise_locked lb bt ticks dir (lock_node lock w) = ((w1, s1), r1)"
    by (metis prod.collapse)
  then have live: "r1 \<noteq> Inr Waiting"
    using assms(5-7) by (auto simp: supervise_def)
  have w1: "whole_document lb dir w1" by (rule whole_locked [OF assms(1,4) start l live])
  have whole: "whole_document lb dir w'" if "terminal_on_disk lb dir w'"
    using that by (auto simp: terminal_on_disk_def whole_document_def)
  show ?thesis
  proof (cases r1)
    case (Inl e)
    then have w': "w' = unlock_node lock (mark_supervisor_failed lb failed_at failed_exit_at dir e w1)" and r: "r = Inl e"
      using assms(5,6) l by (simp_all add: supervise_def)
    have "whole_document lb dir (unlock_node lock w1)" using w1 by (simp add: whole_document_def)
    then show ?thesis using failure_recorded [OF w1 assms(3), of failed_at failed_exit_at e] whole
      by (auto simp: w' r terminal_unlock left_unrecorded_def)
  next
    case (Inr p)
    then have p: "r1 = Inr (Returned ())" using live by (cases p) auto
    then have "w' = unlock_node lock w1" using assms(5,6) l by (simp add: supervise_def)
    moreover obtain stopping st where "node_at w1 (state_path dir) = Some (Regular (js_write (lb_state lb) st @ [10]))"
      "closed_ok stopping st"
      using locked_closed [OF l [unfolded p]] by blast
    moreover have "is_terminal (rs_status st)" using \<open>closed_ok stopping st\<close> by (simp add: closed_ok_def)
    ultimately have "terminal_on_disk lb dir w'" by (auto simp: terminal_on_disk_def)
    then show ?thesis using whole by blast
  qed
qed

text \<open>
  C3: no run is left in a live status, as far as the system lets it be. Whatever fails, and whenever, the
  operations on the run document included: when the supervisor that got the lock ends, with success or
  with any error, the run document on disk is a whole document, and it has a terminal status; the one exception
  is a supervisor that fails and then cannot record it, because reading the document or writing it failed
  once more, for a fault of the system on it, a directory that is gone or a document that is too large to be
  read. Other processes do not write the document.
\<close>

theorem every_run_ends:
  assumes "run_directory dir" and "whole_document lb dir w" and "status_readable (lb_state lb)"
    and "\<forall>tk\<in>set ticks. quiet_tick dir tk" and "open_supervisor_lock dir w = Inr lock"
    and "supervise lb bt ticks failed_at failed_exit_at dir w = ((w', sent), r)" and "r \<noteq> Inr Waiting"
  shows "whole_document lb dir w' \<and>
    (terminal_on_disk lb dir w' \<or> left_unrecorded lb failed_at failed_exit_at dir lock w' r)"
  by (rule supervisor_leaves_terminal [OF assms])

end
