(* ===== verification/Supervisor_Failures.thy ===== *)
theory Supervisor_Failures
  imports Terminal_Runs Log_Live
begin

text \<open>
  What the supervisor accepts as a stop request, and two of its failures: a request that appears
  while the supervisor looks for one, and the log of a run whose supervisor failed.
\<close>

section \<open>Stop requests\<close>

text \<open>
  Only the owner stops a run. A stop request takes effect only when the document on disk
  parses to a request of this run with the owner token of its specification; it is consumed, and
  nothing else of the world changes. A document that names another run or another token is an
  integrity error and stays where it is.
\<close>

theorem stop_request_authentic:
  assumes "read_stop_request lb dir spec meanwhile w = (w', r)"
  shows "(\<forall>request. r = Inr (Some request) \<longrightarrow>
      sq_schema_version request = ''procherd.stop-request.v1'' \<and> sq_run_id request = sp_run_id spec \<and>
      sq_owner_token request = sp_owner_token spec \<and>
      read_json (lb_stop lb) w (stop_path dir) = Inr request \<and> w' = remove_node (stop_path dir) w) \<and>
    (\<forall>request. read_json (lb_stop lb) w (stop_path dir) = Inr request \<and>
      (sq_run_id request \<noteq> sp_run_id spec \<or> sq_owner_token request \<noteq> sp_owner_token spec) \<longrightarrow>
      w' = w \<and> r = Inl (integrity ''stop request failed run identity or owner-token validation''))"
proof (cases "read_json (lb_stop lb) w (stop_path dir)")
  case (Inl e)
  then show ?thesis using assms by (auto simp: read_stop_request_def Let_def split: if_splits)
next
  case (Inr request)
  have "remove_file (stop_path dir) w = (v, Inr ()) \<Longrightarrow> v = remove_node (stop_path dir) w" for v
    by (auto simp: remove_file_def split: sum.splits)
  then show ?thesis using assms Inr by (auto simp: read_stop_request_def thenW_Inr split: if_splits)
qed

text \<open>The reason of a stop, from the check that begins it on.\<close>

lemma request_stop_reason:
  "request_stop lb outcome now grace reason su = (su', Inr g) \<Longrightarrow> sg_reason g = reason"
  by (auto simp: request_stop_def start_kill_tolerant_def Let_def split: if_splits sum.splits)

lemma begin_stop_reason:
  assumes "begin_stop lb dir tk grace reason su = (su', Inr ())"
  shows "\<exists>g. su_stopping su' = Some g \<and> sg_reason g = reason"
proof -
  obtain s g where stop: "request_stop lb (tk_signal tk) (tk_instant tk At_stop) grace reason su = (s, Inr g)"
    and stored: "persist lb dir (s\<lparr>su_stopping := Some g\<rparr>) = (su', Inr ())"
    using assms by (auto simp: begin_stop_def thenW_Inr)
  show ?thesis using persist_steady [OF stored] request_stop_reason [OF stop] by (simp add: steady_def)
qed

lemma check_stop_reason:
  assumes "check_stop lb dir spec tk su = (su', Inr ())" and "su_stopping su' = Some g"
  obtains (before) g0 where "su_stopping su = Some g0" "sg_reason g0 = sg_reason g"
  | (asked) request w where "su_stopping su = None" "sg_reason g = StopRequested"
      "read_stop_request lb dir spec (tk_meanwhile tk) (su_world su) = (w, Inr (Some request))"
  | (overdue) "su_stopping su = None" "sg_reason g = RuntimeLimit" "past_deadline tk (su_state su)"
proof (cases "su_stopping su")
  case None
  then obtain s r where look: "in_world (read_stop_request lb dir spec (tk_meanwhile tk)) su = (s, Inr r)"
    and rest: "(case r of
        Some request \<Rightarrow> begin_stop lb dir tk (sq_grace_ms request) StopRequested (on_state (stop_requested tk request) s)
      | None \<Rightarrow> if past_deadline tk (su_state s)
          then begin_stop lb dir tk (sp_runtime_grace_ms spec) RuntimeLimit (on_state (limit_reached spec tk) s)
          else (s, Inr ())) = (su', Inr ())"
    using assms(1) by (auto simp: check_stop_def thenW_Inr)
  obtain w where s: "s = su\<lparr>su_world := w\<rparr>" and w: "read_stop_request lb dir spec (tk_meanwhile tk) (su_world su) = (w, Inr r)"
    using look by (auto simp: in_world_def Let_def split: prod.splits)
  show thesis
  proof (cases r)
    case (Some request)
    then show thesis using begin_stop_reason rest assms(2) asked [OF None] w by fastforce
  next
    case no_request: None
    show thesis
    proof (cases "past_deadline tk (su_state s)")
      case True
      then have "sg_reason g = RuntimeLimit"
        using begin_stop_reason rest assms(2) no_request by fastforce
      then show thesis using overdue [OF None] True by (simp add: s)
    next
      case False
      then show thesis using rest assms(2) no_request None by (auto simp: s)
    qed
  qed
next
  case (Some g0)
  then have "su_stopping su' = Some g0 \<or> su_stopping su' = Some (g0\<lparr>sg_force_sent := True\<rparr>)"
    using assms(1)
    by (auto simp: check_stop_def thenW_Inr start_kill_tolerant_def stamp_def on_cleanup_def on_state_def send_signal_def
        dest!: persist_steady split: if_splits) (simp_all add: steady_def)
  then have "sg_reason g0 = sg_reason g" using assms(2) by auto
  then show thesis by (rule before [OF Some])
qed

text \<open>The moments of a run at which the supervisor, that is not stopping, looks whether it should.\<close>

definition at_stop_check ::
  "('u, 'd) libs \<Rightarrow> path \<Rightarrow> path \<Rightarrow> supervisor_spec \<Rightarrow> 'd sup \<Rightarrow> tick \<Rightarrow> 'd sup \<Rightarrow> bool" where
  "at_stop_check lb root dir spec su tk s \<longleftrightarrow> su_stopping s = None \<and>
     (\<exists>su0 s1 drain. (sup_step lb root dir spec)\<^sup>*\<^sup>* (su, False) (su0, False) \<and>
        drain_available lb (tk_arrivals tk) (su0\<lparr>su_world := tk_others tk (su_world su0)\<rparr>) = (s1, Inr drain) \<and>
        poll_readiness lb dir tk (dr_readiness_changed drain) s1 = (s, Inr ()))"

definition stop_asked :: "('u, 'd) libs \<Rightarrow> path \<Rightarrow> path \<Rightarrow> supervisor_spec \<Rightarrow> 'd sup \<Rightarrow> bool" where
  "stop_asked lb root dir spec su \<longleftrightarrow>
     (\<exists>tk s request. at_stop_check lb root dir spec su tk s \<and>
        read_json (lb_stop lb) (su_world s) (stop_path dir) = Inr request \<and>
        sq_run_id request = sp_run_id spec \<and> sq_owner_token request = sp_owner_token spec)"

definition time_over :: "('u, 'd) libs \<Rightarrow> path \<Rightarrow> path \<Rightarrow> supervisor_spec \<Rightarrow> 'd sup \<Rightarrow> bool" where
  "time_over lb root dir spec su \<longleftrightarrow>
     (\<exists>tk s deadline. at_stop_check lb root dir spec su tk s \<and>
        rl_runtime_deadline_at_ms (rs_limits (su_state s)) = Some deadline \<and> deadline \<le> tk_now tk At_deadline)"

definition caused :: "('u, 'd) libs \<Rightarrow> path \<Rightarrow> path \<Rightarrow> supervisor_spec \<Rightarrow> 'd sup \<Rightarrow> exit_reason \<Rightarrow> bool" where
  "caused lb root dir spec su reason \<longleftrightarrow>
     (reason = StopRequested \<longrightarrow> stop_asked lb root dir spec su) \<and> (reason = RuntimeLimit \<longrightarrow> time_over lb root dir spec su)"

lemma tick_stop_cause:
  assumes "(sup_step lb root dir spec)\<^sup>*\<^sup>* (su, False) (su0, False)" and "running_ok lb su0"
    and "supervise_tick lb root dir spec tk su0 = (su', Inr t)" and "t = Again \<or> t = Finished"
    and "\<forall>g. su_stopping su0 = Some g \<longrightarrow> caused lb root dir spec su (sg_reason g)" and "su_stopping su' = Some g"
  shows "caused lb root dir spec su (sg_reason g)"
proof -
  let ?start = "su0\<lparr>su_world := tk_others tk (su_world su0)\<rparr>"
  obtain s1 drain s2 s3 where drain: "drain_available lb (tk_arrivals tk) ?start = (s1, Inr drain)"
    and poll: "poll_readiness lb dir tk (dr_readiness_changed drain) s1 = (s2, Inr ())"
    and stop: "check_stop lb dir spec tk s2 = (s3, Inr ())"
    and exits: "check_exit lb root dir tk s3 = (su', Inr t)"
    using assms(3) by (auto simp: supervise_tick_def thenW_Inr)
  have d: "drained ?start s1" using drain by (auto simp: drain_available_def intro: drain_batch_drained)
  have "running_ok lb ?start" using assms(2) by (simp add: running_ok_def)
  then have s2: "running_ok lb s2" "su_stopping s2 = su_stopping su0"
    using poll_readiness_running [OF poll drained_running [OF d]] poll_readiness_stopping [OF poll] drained_frame(5) [OF d]
    by simp_all
  have s3: "running_ok lb s3" using check_stop_control [OF stop s2(1)] by simp
  from exits s3 have "su_stopping su' = su_stopping s3"
  proof (cases rule: check_exit_cases)
    case again
    then show ?thesis by (simp add: steady_def)
  next
    case ended
    then show ?thesis using assms(4) by auto
  next
    case (finished s4 status)
    from finished(5) show ?thesis by (cases rule: finish_run_cases) (use finished(3) in auto)
  qed
  with assms(6) have "su_stopping s3 = Some g" by simp
  from stop this show ?thesis
  proof (cases rule: check_stop_reason)
    case (before g0)
    then show ?thesis using assms(5) s2(2) by auto
  next
    case (asked request w)
    from asked(1) have "at_stop_check lb root dir spec su tk s2"
      using assms(1) drain poll unfolding at_stop_check_def by blast
    moreover have "sq_run_id request = sp_run_id spec \<and> sq_owner_token request = sp_owner_token spec \<and>
        read_json (lb_stop lb) (su_world s2) (stop_path dir) = Inr request"
      using stop_request_authentic [OF asked(3)] by blast
    ultimately show ?thesis using asked(2) by (auto simp: caused_def stop_asked_def)
  next
    case overdue
    from overdue(1) have "at_stop_check lb root dir spec su tk s2"
      using assms(1) drain poll unfolding at_stop_check_def by blast
    then show ?thesis using overdue(2,3)
      by (auto simp: caused_def time_over_def past_deadline_def split: option.splits)
  qed
qed

lemma stop_caused:
  assumes "(sup_step lb root dir spec)\<^sup>*\<^sup>* (su, False) s" and "sup_start (su, False)" and "su_stopping (fst s) = Some g"
  shows "caused lb root dir spec su (sg_reason g)"
proof -
  have "\<forall>g. su_stopping (fst s) = Some g \<longrightarrow> caused lb root dir spec su (sg_reason g)"
    using assms(1)
  proof (induction rule: rtranclp_induct)
    case base
    then show ?case using assms(2) by (simp add: sup_start_def)
  next
    case (step s t)
    have inv: "sup_inv lb dir s" by (rule lifecycle.reachable_inv [OF assms(2) step.hyps(1)])
    show ?case
    proof (cases "snd s")
      case True
      from step.hyps(2) True show ?thesis by (cases rule: sup_step.cases) simp_all
    next
      case False
      then obtain su0 where s: "s = (su0, False)" by (metis prod.collapse)
      have run: "(sup_step lb root dir spec)\<^sup>*\<^sup>* (su, False) (su0, False)" "running_ok lb su0"
        using step.hyps(1) inv by (simp_all add: s sup_inv_def)
      have old: "\<forall>g. su_stopping su0 = Some g \<longrightarrow> caused lb root dir spec su (sg_reason g)"
        using step.IH by (simp add: s)
      from step.hyps(2) [unfolded s] obtain tk su1 r where
        "supervise_tick lb root dir spec tk su0 = (su1, Inr r)" "r = Again \<or> r = Finished" "fst t = su1"
        by (cases rule: sup_step.cases) auto
      then show ?thesis using tick_stop_cause [OF run _ _ old] by blast
    qed
  qed
  then show ?thesis using assms(3) by blast
qed

text \<open>
  C27: nobody but the owner stops a run. In every state a supervised run reaches, and in the final one, a
  stop has a cause: the supervisor found a request with the identity and the owner token of the run, or the
  deadline of the run had passed, at a moment when it looked. Without either a run never becomes stopping or
  stopped, and the reason that its final document gives is the one that happened.
\<close>

theorem stop_has_cause:
  assumes "sup_start (su, False)" and "(sup_step lb root dir spec)\<^sup>*\<^sup>* (su, False) (su', ended)"
  shows "(rs_status (su_state su') \<in> {Stopping, Stopped} \<longrightarrow>
      stop_asked lb root dir spec su \<or> time_over lb root dir spec su) \<and>
    (\<forall>ex. ended \<and> rs_exit (su_state su') = Some ex \<longrightarrow>
      (ex_reason ex = StopRequested \<longrightarrow> stop_asked lb root dir spec su) \<and>
      (ex_reason ex = RuntimeLimit \<longrightarrow> time_over lb root dir spec su) \<and>
      (ex_reason ex = ProcessExited \<longrightarrow> rs_status (su_state su') = Exited))"
proof -
  have inv: "sup_inv lb dir (su', ended)" by (rule lifecycle.reachable_inv [OF assms])
  show ?thesis
  proof (cases "su_stopping su'")
    case None
    then show ?thesis using inv by (auto simp: sup_inv_def running_ok_def closed_ok_def split: if_splits)
  next
    case (Some g)
    then have cause: "caused lb root dir spec su (sg_reason g)" using stop_caused [OF assms(2,1)] by simp
    have reason: "sg_reason g = StopRequested \<or> sg_reason g = RuntimeLimit"
      using inv Some by (auto simp: sup_inv_def running_ok_def split: if_splits)
    have "ended \<Longrightarrow> rs_exit (su_state su') = Some ex \<Longrightarrow> ex_reason ex = sg_reason g" for ex
      using inv Some by (auto simp: sup_inv_def closed_ok_def)
    then show ?thesis using cause reason by (auto simp: caused_def)
  qed
qed

text \<open>
  C33: the race of the stop request. When there is no request as the supervisor reads, and one is
  there as it looks whether the path exists, the iteration ends with the error of the read: the
  supervisor fails although the request was written as a whole, and is never looked at.
\<close>

theorem stop_request_race:
  assumes "su_stopping su = None" and "healthy (su_world su) (stop_path dir)"
    and "node_at (su_world su) (stop_path dir) = None"
    and "path_exists (tk_meanwhile tk (su_world su)) (stop_path dir)"
  shows "check_stop lb dir spec tk su =
    (su\<lparr>su_world := tk_meanwhile tk (su_world su)\<rparr>, Inl (from_io no_entry))"
proof -
  have "read_json (lb_stop lb) (su_world su) (stop_path dir) = Inl (from_io no_entry)"
    using assms(2,3) by (simp add: read_json_def ensure_regular_file_def symlink_metadata_def healthy_attempt)
  then show ?thesis using assms(1,4) by (simp add: check_stop_def in_world_def read_stop_request_def Let_def)
qed

section \<open>The log of a run whose supervisor failed\<close>

text \<open>
  A failed run loses its log. The summary in the run document is refreshed at most every 250
  milliseconds, and the failure of a supervisor is recorded without refreshing it. When a record
  was flushed after the summary on disk, every page that reaches it is refused once the run is
  marked as failed, although the same file was readable while the run was live.
\<close>

theorem failed_run_log_unreadable:
  assumes "log_codec_documented C" and "log_writer_create D created m = Inr w"
    and "unat m < 2 ^ 64 - 1" and "\<forall>(now, ch)\<in>set (xs @ ys). length (ch_bytes ch) \<le> read_chunk_bytes"
    and "record_all C D (map (\<lambda>(now, ch). (Written, now, ch)) xs) w = (w1, r1)"
    and "record_all C D (map (\<lambda>(now, ch). (Written, now, ch)) (xs @ ys)) w = (w2, r2)"
    and "rs_logs st = log_snapshot w1" and "sm_next_cursor (log_snapshot w2) \<noteq> sm_next_cursor (log_snapshot w1)"
    and "unat (sm_next_cursor (log_snapshot w1)) \<le> limit" and "limit \<le> 1000"
  shows "read_logs C (Inr \<lparr>li_content = lw_file w2, li_fault = None\<rparr>) (Inr ())
      (supervisor_failed at exit_at e st) a limit stream =
    Inl (integrity (''log cursor '' @ show_word (sm_next_cursor (log_snapshot w1)) @
      '' is outside the durable summary''))"
proof -
  let ?st = "supervisor_failed at exit_at e st"
  let ?es1 = "kept (unat m) xs"
  let ?es2 = "kept (unat m - entries_size ?es1) ys"
  note wf1 = writer_file [OF assms(2,3,5)] and wf2 = writer_file [OF assms(2,3,6)]
  have st: "rs_logs ?st = log_snapshot w1" "is_terminal (rs_status ?st)"
    using assms(7) by (simp_all add: supervisor_failed_def)
  have "?es2 \<noteq> []"
    using assms(8) wf1(2) wf2(2) by (auto simp: kept_append dest!: word_of_unat)
  then obtain e2 es where "?es2 = e2 # es" by (meson neq_Nil_conv)
  then have all: "kept (unat m) (xs @ ys) = (?es1 @ [e2]) @ es" by (simp add: kept_append)
  have "log_entries_ok ((?es1 @ [e2]) @ es)" using kept_ok [OF assms(4), of "unat m"] by (simp only: all)
  then have ok: "log_entries_ok (?es1 @ [e2])" by (auto simp: log_entries_ok_def)
  have len: "length (?es1 @ [e2]) < 2 ^ 64 - 1" using wf2(3) by (simp add: all)
  have begins: "prefix (log_file C (records_of C (?es1 @ [e2]))) (lw_file w2)"
    unfolding wf2(1) all by (rule log_file_prefix)
  have room: "length ?es1 < limit" using wf1(2) assms(9) by simp
  then have few: "length (filter (selected a stream) (records_of C ?es1)) \<le> limit"
    by (metis length_filter_le length_records_of less_imp_le order_trans)
  have "0 < limit" using room by simp
  from read_logs_beyond [OF assms(1) _ st(2) ok len begins this assms(10) few] show ?thesis
    using wf1(2) by (simp add: st(1))
qed

theorem failed_run_log_unreadable_witness:
  "\<exists>w w2. log_writer_create raw_digest (Inr ()) 3 = Inr w \<and>
     record_all standard_codec raw_digest (map (\<lambda>(now, ch). (Written, now, ch)) two_bytes) w = (w2, Inr ()) \<and>
     read_logs standard_codec (Inr \<lparr>li_content = lw_file w2, li_fault = None\<rparr>) (Inr ())
       (supervisor_failed 9 9 (usage ''x'') (example_state Running (log_snapshot w))) 0 10 None =
     Inl (integrity (''log cursor '' @ show_word (sm_next_cursor (log_snapshot w)) @
       '' is outside the durable summary''))"
proof -
  obtain w w2 where w: "log_writer_create raw_digest (Inr ()) 3 = Inr w"
    "record_all standard_codec raw_digest (map (\<lambda>(now, ch). (Written, now, ch)) two_bytes) w = (w2, Inr ())"
    by (rule two_bytes_run)
  have start: "record_all standard_codec raw_digest (map (\<lambda>(now, ch). (Written, now, ch)) []) w = (w, Inr ())"
    by simp
  have both: "record_all standard_codec raw_digest (map (\<lambda>(now, ch). (Written, now, ch)) ([] @ two_bytes)) w = (w2, Inr ())"
    using w(2) by simp
  have small: "\<forall>(now, ch)\<in>set ([] @ two_bytes). length (ch_bytes ch) \<le> read_chunk_bytes"
    using two_bytes_small by simp
  have m: "unat (3 :: u64) < 2 ^ 64 - 1" by simp
  have "unat (sm_next_cursor (log_snapshot w)) = 1" "unat (sm_next_cursor (log_snapshot w2)) = 2"
    using writer_file(2) [OF w(1) m start] writer_file(2) [OF w(1) m w(2)]
    by (simp_all add: two_bytes_def Let_def)
  then have "sm_next_cursor (log_snapshot w2) \<noteq> sm_next_cursor (log_snapshot w)"
    "unat (sm_next_cursor (log_snapshot w)) \<le> 10" by auto
  from failed_run_log_unreadable [OF standard_codec_documented w(1) m small start both _ this,
      of "example_state Running (log_snapshot w)" 9 9 "usage ''x''" 0 None]
  show ?thesis using w by auto
qed

end
