(* ===== verification/Log_Evidence.thy ===== *)
theory Log_Evidence
  imports Supervised_Runs
begin

text \<open>
  The supervisor shows a chunk to the readiness tracker only as far as the writer will capture it.
  The interface \<open>retention\<close> is what the tracker relies on: a store of bytes that tells beforehand
  what it will take of a chunk and then takes it. Over such a store a satisfied log condition is
  always backed by bytes that were kept; the log writer is one.
\<close>

section \<open>The interface\<close>

definition backed :: "(log_stream \<Rightarrow> bytes) \<Rightarrow> readiness_tracker \<Rightarrow> readiness_state \<Rightarrow> bool" where
  "backed H t st \<longleftrightarrow>
     (rd_status st = RdPending \<longrightarrow> (\<forall>s. suffix (get_tail t s) (H s))) \<and>
     (\<forall>c\<in>set (rd_checks st). \<forall>l. ck_condition c = Log l \<and> ck_ready_at_ms c \<noteq> None \<longrightarrow> occurs H l)"

lemma occurs_feed_mono: "occurs H l \<Longrightarrow> occurs (feed H s bs) l"
  by (simp add: occurs_feed)

lemma backed_observe:
  assumes "backed H t st" and "observe_log now fin s bs t st = (t', st', ch)"
  shows "backed (feed H s bs) t' st'"
proof (cases "rd_status st = RdPending")
  case False
  then show ?thesis using assms by (auto simp: observe_log_idle backed_def occurs_feed_mono)
next
  case True
  note parts = observe_log_parts [OF True assms(2)]
  have tails: "suffix (get_tail t s') (H s')" for s' using assms(1) True by (simp add: backed_def)
  have "suffix (get_tail t' s') (feed H s bs s')" for s'
  proof (cases "s' = s")
    case True
    have "suffix (get_tail t' s) (get_tail t s @ bs)" unfolding parts(2) Let_def by (rule suffix_drop)
    moreover have "suffix (get_tail t s @ bs) (H s @ bs)" using tails by simp
    ultimately show ?thesis unfolding True feed_simps(1) by (rule suffix_order.order_trans)
  next
    case False
    then show ?thesis using tails by (simp add: parts(3))
  qed
  moreover have "occurs (feed H s bs) l"
    if c: "c \<in> set (rd_checks st')" "ck_condition c = Log l" "ck_ready_at_ms c \<noteq> None" for c l
  proof -
    obtain i where i: "i < length (rd_checks st)"
      and ci: "c = fst (observe_check s (get_tail t s @ bs) (now i) (rd_checks st ! i))"
      using c(1) unfolding parts(1) in_set_conv_nth by (auto simp: observed_checks_nth)
    have cond: "ck_condition (rd_checks st ! i) = Log l" using c(2) by (simp add: ci)
    from c(3) consider (old) "ck_ready_at_ms (rd_checks st ! i) \<noteq> None" | (new) "sublist (as_bytes l) (get_tail t s @ bs)"
      unfolding ci observe_check_ready using cond by auto
    then show ?thesis
    proof cases
      case old
      then have "occurs H l" using assms(1) nth_mem [OF i] cond by (auto simp: backed_def)
      then show ?thesis by (rule occurs_feed_mono)
    next
      case new
      moreover have "suffix (get_tail t s @ bs) (H s @ bs)" using tails by simp
      ultimately have "sublist (as_bytes l) (H s @ bs)"
        by (meson suffix_imp_sublist sublist_order.order_trans)
      then show ?thesis by (simp add: occurs_feed)
    qed
  qed
  ultimately show ?thesis by (simp add: backed_def)
qed

lemma poll_tail: "poll k probe t st = (t', st', ch) \<Longrightarrow> get_tail t' s = get_tail t s"
  by (cases s) (auto simp: poll_def Let_def split: if_splits option.splits prod.splits)

lemma backed_poll:
  assumes "backed H t st" and "poll k probe t st = (t', st', ch)"
  shows "backed H t' st'"
proof -
  have tail: "get_tail t' s = get_tail t s" for s by (rule poll_tail [OF assms(2)])
  have old: "occurs H l" if "i < length (rd_checks st)" "ck_condition (rd_checks st ! i) = Log l"
    "ck_ready_at_ms (rd_checks st ! i) \<noteq> None" for i l
    using assms(1) nth_mem [OF that(1)] that(2,3) by (auto simp: backed_def)
  have status: "rd_status st' = RdPending \<Longrightarrow> rd_status st = RdPending"
    using assms(2) poll_idle by (cases "rd_status st = RdPending") auto
  have "occurs H l" if c: "c \<in> set (rd_checks st')" "ck_condition c = Log l" "ck_ready_at_ms c \<noteq> None" for c l
  proof -
    obtain i where i: "i < length (rd_checks st)" "c = rd_checks st' ! i"
      using c(1) poll_length [OF assms(2)] by (metis in_set_conv_nth)
    have cond: "ck_condition (rd_checks st ! i) = Log l"
      using poll_conditions [OF assms(2)] i c(2) poll_length [OF assms(2)] by (metis nth_map)
    have "rd_checks st' ! i = rd_checks st ! i"
    proof (rule poll_cases [OF assms(2)])
      fix j ev assume "awaits_probe (rd_checks st ! j)"
        "st' = fst (finish_if_ready (pk_finished_at_ms k)
          (st\<lparr>rd_checks := record_probe (pk_observed_at_ms k) ev j (rd_checks st)\<rparr>))"
      moreover from this have "i \<noteq> j" using cond by (auto simp: awaits_probe_def)
      ultimately show ?thesis by (simp add: record_probe_def)
    qed simp_all
    then show ?thesis using old [OF i(1) cond] c(3) i(2) by simp
  qed
  then show ?thesis using assms(1) status by (auto simp: backed_def tail)
qed

lemma backed_exit: "backed H t st \<Longrightarrow> backed H t (fst (process_exited st))"
  by (simp add: backed_def process_exited_def)

locale retention =
  fixes takes :: "'w \<Rightarrow> log_chunk \<Rightarrow> bytes"
    and store :: "arrival \<Rightarrow> 'w \<Rightarrow> 'w \<times> (app_error + unit)"
    and holds :: "'w \<Rightarrow> (log_stream \<Rightarrow> bytes) \<Rightarrow> bool"
  assumes stored: "holds w H \<Longrightarrow> store a w = (w', Inr ()) \<Longrightarrow>
    holds w' (feed H (ch_stream (ar_chunk a)) (takes w (ar_chunk a)))"
begin

text \<open>One chunk, shown as far as it is taken, and stored.\<close>

lemma chunk_backed:
  assumes "holds w H" and "backed H t st" and "store a w = (w', Inr ())"
    and "observe_log now fin (ch_stream (ar_chunk a)) (takes w (ar_chunk a)) t st = (t', st', ch)"
  shows "\<exists>H'. holds w' H' \<and> backed H' t' st'"
  using stored [OF assms(1,3)] backed_observe [OF assms(2,4)] by blast

end

section \<open>The log writer keeps what it takes\<close>

definition entry_stream :: "log_entry list \<Rightarrow> log_stream \<Rightarrow> bytes" where
  "entry_stream es s = concat (map entry_bytes (filter (\<lambda>e. fst (snd e) = s) es))"

definition writer_keeps :: "log_codec \<Rightarrow> 'd log_writer \<Rightarrow> (log_stream \<Rightarrow> bytes) \<Rightarrow> bool" where
  "writer_keeps C w H \<longleftrightarrow>
     unat (sm_max_bytes (lw_summary w)) < 2 ^ 64 - 1 \<and> (\<exists>es. writer_holds C w es \<and> H = entry_stream es)"

lemma record_log_Inr:
  "record_log C D outcome now ch w = (w', Inr ()) \<Longrightarrow> record_log C D Written now ch w = (w', Inr ())"
  by (auto simp: record_log_def Let_def split: write_outcome.splits if_splits)

lemma entry_stream_kept:
  assumes "writer_holds C w es"
  shows "entry_stream (es @ kept (unat (sm_max_bytes (lw_summary w)) - entries_size es) [(now, ch)]) =
    feed (entry_stream es) (ch_stream ch) (capturable_bytes w ch)"
proof -
  let ?room = "unat (sm_max_bytes (lw_summary w)) - entries_size es"
  have "capturable_bytes w ch = take ?room (ch_bytes ch)"
    unfolding capturable_bytes_def available_holds [OF assms] by (simp add: min_def)
  then show ?thesis by (auto simp: entry_stream_def feed_def Let_def)
qed

interpretation log_retention: retention capturable_bytes
    "\<lambda>a. record_log C D (ar_outcome a) (ar_recorded_at a) (ar_chunk a)" "writer_keeps C"
  for C :: log_codec and D :: "'d digest_lib"
proof
  fix w w' :: "'d log_writer" and H a
  assume w: "writer_keeps C w H"
    and "record_log C D (ar_outcome a) (ar_recorded_at a) (ar_chunk a) w = (w', Inr ())"
  then have run: "record_log C D Written (ar_recorded_at a) (ar_chunk a) w = (w', Inr ())"
    by (intro record_log_Inr)
  from w obtain es where es: "writer_holds C w es" "H = entry_stream es"
    "unat (sm_max_bytes (lw_summary w)) < 2 ^ 64 - 1"
    by (auto simp: writer_keeps_def)
  note step = record_log_written [OF es(1,3) run]
  then show "writer_keeps C w' (feed H (ch_stream (ar_chunk a)) (capturable_bytes w (ar_chunk a)))"
    unfolding writer_keeps_def es(2) using es(3) entry_stream_kept [OF es(1), of "ar_recorded_at a" "ar_chunk a"]
    by (metis (no_types, lifting))
qed

section \<open>The supervisor\<close>

definition evidenced :: "('u, 'd) libs \<Rightarrow> 'd sup \<Rightarrow> bool" where
  "evidenced lb su \<longleftrightarrow>
     (\<exists>H. writer_keeps (lb_log lb) (su_logs su) H \<and> backed H (su_tracker su) (rs_readiness (su_state su)))"

lemma evidenced_steady: "steady su su' \<Longrightarrow> evidenced lb su \<Longrightarrow> evidenced lb su'"
  by (simp add: steady_def evidenced_def)

lemma evidenced_chunk:
  assumes "evidenced lb su" and "record_chunk lb a su = (su', Inr c)"
  shows "evidenced lb su'"
proof -
  obtain H where H: "writer_keeps (lb_log lb) (su_logs su) H"
    "backed H (su_tracker su) (rs_readiness (su_state su))" using assms(1) by (auto simp: evidenced_def)
  obtain t rd ch where ob: "chunk_observed a su = (t, rd, ch)" by (metis prod_cases3)
  obtain lg where rc: "chunk_recorded lb a su = (lg, Inr ())" and
    su': "su' = su\<lparr>su_tracker := t, su_state := (su_state su)\<lparr>rs_readiness := rd\<rparr>, su_logs := lg\<rparr>"
    using assms(2) by (cases "chunk_recorded lb a su"; cases "snd (chunk_recorded lb a su)")
      (auto simp: record_chunk_eq ob)
  obtain H' where "writer_keeps (lb_log lb) lg H'" "backed H' t rd"
    using log_retention.chunk_backed [OF H rc ob] by blast
  then show ?thesis by (auto simp: evidenced_def su')
qed

lemma evidenced_drain:
  "drain_batch lb n arrivals changed su = (su', Inr d) \<Longrightarrow> evidenced lb su \<Longrightarrow> evidenced lb su'"
proof (induction lb n arrivals changed su rule: drain_batch.induct)
  case (3 lb n a arrivals changed su)
  from "3.prems"(1) [unfolded drain_batch.simps] show ?case
  proof (cases rule: thenW_cases)
    case (ok s x)
    then show ?thesis using 3(1) [OF ok(2)] evidenced_chunk [OF "3.prems"(2) ok(1)] by blast
  qed simp
qed auto

lemma evidenced_drain_until:
  "drain_until_closed lb deadline turns su = (su', Inr d) \<Longrightarrow> evidenced lb su \<Longrightarrow> evidenced lb su'"
proof (induction lb deadline turns su rule: drain_until_closed.induct)
  case (2 lb deadline now receipt turns su)
  show ?case
  proof (cases "deadline - now = 0")
    case True
    then show ?thesis using "2.prems" by (cases receipt) auto
  next
    case False
    show ?thesis
    proof (cases receipt)
      case (Chunk a)
      then have "thenW (record_chunk lb a su) (\<lambda>_ su. drain_until_closed lb deadline turns su) = (su', Inr d)"
        using "2.prems"(1) False by simp
      then show ?thesis
      proof (cases rule: thenW_cases)
        case (ok s x)
        then show ?thesis using 2(1) [OF False Chunk ok(2)] evidenced_chunk [OF "2.prems"(2) ok(1)] by blast
      qed simp
    next
      case Empty
      then show ?thesis using 2(2) [OF False Empty] "2.prems" False by simp
    next
      case Disconnected
      then show ?thesis using "2.prems" False by auto
    qed
  qed
qed simp

lemma evidenced_poll:
  assumes "poll_readiness lb dir tk d su = (su', r)" and "evidenced lb su"
  shows "evidenced lb su'"
proof -
  obtain tr rd p where poll: "poll (tk_poll tk) (tk_probe tk) (su_tracker su) (rs_readiness (su_state su)) = (tr, rd, p)"
    by (metis prod_cases3)
  let ?su = "on_state (\<lambda>st. st\<lparr>rs_readiness := rd\<rparr>) (su\<lparr>su_tracker := tr\<rparr>)"
  have ev: "evidenced lb ?su" "evidenced lb (stamp tk At_readiness ?su)"
    using assms(2) backed_poll [OF _ poll] by (auto simp: evidenced_def on_state_def stamp_def)
  show ?thesis
  proof (cases "d \<or> p")
    case True
    then have "thenW (persist lb dir (stamp tk At_readiness ?su)) (\<lambda>_ su.
        (su\<lparr>su_last_write := tk_instant tk At_readiness\<rparr>, Inr ())) = (su', r)"
      using assms(1) by (simp add: poll_readiness_def poll Let_def)
    then show ?thesis
    proof (cases rule: thenW_cases)
      case (err e)
      then show ?thesis using ev(2) persist_steady evidenced_steady by blast
    next
      case (ok s x)
      then have "evidenced lb s" using ev(2) persist_steady evidenced_steady by blast
      then show ?thesis using ok(2) by (auto simp: evidenced_def)
    qed
  next
    case False
    then show ?thesis using assms(1) ev(1) by (auto simp: poll_readiness_def poll Let_def)
  qed
qed

text \<open>The stages that touch neither the logs nor the readiness.\<close>

definition same_evidence :: "'d sup \<Rightarrow> 'd sup \<Rightarrow> bool" where
  "same_evidence su su' \<longleftrightarrow> su_logs su' = su_logs su \<and> su_tracker su' = su_tracker su \<and>
     rs_readiness (su_state su') = rs_readiness (su_state su)"

lemma evidenced_same: "same_evidence su su' \<Longrightarrow> evidenced lb su \<Longrightarrow> evidenced lb su'"
  by (simp add: same_evidence_def evidenced_def)

lemma same_evidence_trans: "same_evidence su s \<Longrightarrow> same_evidence s su' \<Longrightarrow> same_evidence su su'"
  by (simp add: same_evidence_def)

lemma same_persist: "same_evidence su (fst (persist lb dir su))"
proof -
  obtain su' r where p: "persist lb dir su = (su', r)" by (metis surj_pair)
  show ?thesis using persist_steady [OF p] by (simp add: p steady_def same_evidence_def)
qed

lemma same_request_stop: "same_evidence su (fst (request_stop lb outcome now grace reason su))"
  by (simp add: request_stop_def start_kill_tolerant_def send_signal_def on_cleanup_def on_state_def
      same_evidence_def Let_def split: sum.split)

lemma same_thenW:
  "same_evidence su (fst m) \<Longrightarrow> (\<And>x s. same_evidence su s \<Longrightarrow> same_evidence su (fst (f x s))) \<Longrightarrow>
   same_evidence su (fst (thenW m f))"
  by (cases m; cases "snd m") auto

lemma same_begin_stop: "same_evidence su (fst (begin_stop lb dir tk grace reason su))"
  unfolding begin_stop_def
proof (rule same_thenW [OF same_request_stop])
  fix stopping s assume "same_evidence su s"
  then have "same_evidence su (s\<lparr>su_stopping := Some stopping\<rparr>)" by (simp add: same_evidence_def)
  then show "same_evidence su (fst (persist lb dir (s\<lparr>su_stopping := Some stopping\<rparr>)))"
    by (rule same_evidence_trans [OF _ same_persist])
qed

lemma same_in_world: "same_evidence su (fst (in_world f su))"
  by (simp add: in_world_def Let_def same_evidence_def split: prod.split)

lemma same_check_stop: "same_evidence su (fst (check_stop lb dir spec tk su))"
proof (cases "su_stopping su")
  case None
  have stop: "same_evidence su (fst (begin_stop lb dir tk grace reason (on_state f s)))"
    if "same_evidence su s" "\<And>st. rs_readiness (f st) = rs_readiness st" for grace reason f s
  proof (rule same_evidence_trans [OF _ same_begin_stop])
    show "same_evidence su (on_state f s)" using that by (simp add: same_evidence_def on_state_def)
  qed
  show ?thesis unfolding check_stop_def None option.case
  proof (rule same_thenW [OF same_in_world])
    fix request s assume s: "same_evidence su s"
    have "same_evidence su (fst (begin_stop lb dir tk (sp_runtime_grace_ms spec) RuntimeLimit
        (on_state (limit_reached spec tk) s)))"
      by (rule stop [OF s]) (simp add: limit_reached_def)
    moreover have "same_evidence su (fst (begin_stop lb dir tk (sq_grace_ms q) StopRequested
        (on_state (stop_requested tk q) s)))" for q
      by (rule stop [OF s]) (simp add: stop_requested_def)
    ultimately show "same_evidence su (fst (case request of
        None \<Rightarrow> if past_deadline tk (su_state s)
          then begin_stop lb dir tk (sp_runtime_grace_ms spec) RuntimeLimit (on_state (limit_reached spec tk) s)
          else (s, Inr ())
      | Some request \<Rightarrow> begin_stop lb dir tk (sq_grace_ms request) StopRequested (on_state (stop_requested tk request) s)))"
      using s by (cases request) simp_all
  qed
next
  case (Some stopping)
  let ?after = "\<lambda>killed su. stamp tk At_force
    (on_cleanup (\<lambda>cl. cl\<lparr>cl_descendant_cleanup_triggered := cl_descendant_cleanup_triggered cl \<or> killed,
        cl_force_used := True\<rparr>)
      (su\<lparr>su_stopping := Some (stopping\<lparr>sg_force_sent := True\<rparr>)\<rparr>))"
  have after: "same_evidence su (?after killed s)" if "same_evidence su s" for killed s
    using that by (simp add: same_evidence_def stamp_def on_cleanup_def on_state_def)
  have kill: "same_evidence su (fst (start_kill_tolerant (tk_force tk) su))"
    by (simp add: start_kill_tolerant_def send_signal_def same_evidence_def)
  have "same_evidence su (fst (thenW (start_kill_tolerant (tk_force tk) su) (\<lambda>killed su.
      persist lb dir (?after killed su))))"
    by (rule same_thenW [OF kill]) (rule same_evidence_trans [OF after same_persist])
  then show ?thesis by (simp add: check_stop_def Some same_evidence_def)
qed

lemma check_exit_parts:
  assumes "check_exit lb root dir tk su = (su', Inr t)"
  obtains (again) "same_evidence su su'"
  | (finished) s0 s1 deadline turns status where "same_evidence su s0"
      "drain_until_closed lb deadline turns s0 = (s1, Inr (Returned ()))"
      "finish_run lb root dir tk status s1 = (su', Inr ())"
  | (stuck) "t = Stuck"
proof (cases "try_wait_retry (tk_wait tk)")
  case (Inl e)
  then show thesis using assms by (simp add: check_exit_def)
next
  case (Inr answer)
  consider (wait) "answer = Waiting" | (alive) "answer = Returned None" | (exited) status where "answer = Returned (Some status)"
    by (metis option.exhaust progress.exhaust)
  then show thesis
  proof cases
    case wait
    then show thesis using assms Inr stuck by (simp add: check_exit_def)
  next
    case alive
    let ?su = "stamp tk At_snapshot (on_state (\<lambda>st. st\<lparr>rs_logs := log_snapshot (su_logs su)\<rparr>) su)"
    have "same_evidence su ?su" by (simp add: same_evidence_def stamp_def on_state_def)
    then have stored: "same_evidence su (fst (persist lb dir ?su))"
      by (rule same_evidence_trans [OF _ same_persist])
    have "same_evidence su (fst (thenW (persist lb dir ?su) (\<lambda>_ su.
        (su\<lparr>su_last_write := tk_instant tk At_snapshot\<rparr>, Inr Again))))"
      by (rule same_thenW [OF stored]) (simp add: same_evidence_def)
    moreover have "same_evidence su su" by (simp add: same_evidence_def)
    ultimately have "same_evidence su (fst (check_exit lb root dir tk su))"
      by (simp add: check_exit_def Inr alive)
    then show thesis using again assms by simp
  next
    case exited
    let ?marked = "\<lambda>killed su. if killed then on_cleanup (\<lambda>cl. cl\<lparr>cl_descendant_cleanup_triggered := True,
      cl_force_used := cl_force_used cl \<or> su_stopping su \<noteq> None\<rparr>) su else su"
    let ?drain = "\<lambda>killed su. drain_until_closed lb (tk_instant tk At_drain + log_drain_limit) (tk_turns tk)
      ((?marked killed su)\<lparr>su_armed := False\<rparr>)"
    let ?finish = "\<lambda>drained su. case drained of Waiting \<Rightarrow> (su, Inr Stuck)
      | Returned _ \<Rightarrow> thenW (finish_run lb root dir tk status su) (\<lambda>_ su. (su, Inr Finished))"
    from assms Inr exited have "thenW (start_kill_tolerant (tk_rest tk) su)
        (\<lambda>killed su. thenW (?drain killed su) ?finish) = (su', Inr t)"
      by (simp add: check_exit_def)
    then show thesis
    proof (cases rule: thenW_cases)
      case (ok s killed)
      have s: "same_evidence su ((?marked killed s)\<lparr>su_armed := False\<rparr>)"
        using start_kill_tolerant_frame [OF ok(1)]
        by (simp add: same_evidence_def send_signal_def on_cleanup_def on_state_def)
      from ok(2) show thesis
      proof (cases rule: thenW_cases)
        case (ok s1 outcome)
        show thesis
        proof (cases outcome)
          case Waiting
          then show thesis using ok(2) stuck by simp
        next
          case (Returned u)
          then have "thenW (finish_run lb root dir tk status s1) (\<lambda>_ su. (su, Inr Finished)) = (su', Inr t)"
            using ok(2) by simp
          then show thesis
          proof (cases rule: thenW_cases)
            case (ok s2 x)
            then show thesis using finished [OF s] \<open>?drain killed s = _\<close> Returned by simp
          qed simp
        qed
      qed simp
    qed simp
  qed
qed

lemma evidenced_check_exit:
  assumes "check_exit lb root dir tk su = (su', Inr t)" and "evidenced lb su" and "t \<noteq> Stuck"
  shows "evidenced lb su'"
  using assms(1)
proof (cases rule: check_exit_parts)
  case again
  then show ?thesis using assms(2) evidenced_same by blast
next
  case (finished s0 s1 deadline turns status)
  have "evidenced lb s1"
    by (rule evidenced_drain_until [OF finished(2)]) (rule evidenced_same [OF finished(1) assms(2)])
  then obtain H where H: "writer_keeps (lb_log lb) (su_logs s1) H"
    "backed H (su_tracker s1) (rs_readiness (su_state s1))" by (auto simp: evidenced_def)
  from finished(3) show ?thesis
  proof (cases rule: finish_run_cases)
    case (closed summary w st alloc)
    then have "rs_readiness st = fst (process_exited (rs_readiness (su_state s1)))"
      by (auto simp: release_leases_def thenW_Inr mark_released_def)
    then show ?thesis using H backed_exit by (auto simp: closed(4) evidenced_def closed_run_def)
  qed simp
next
  case stuck
  then show ?thesis using assms(3) by simp
qed

lemma evidenced_tick:
  assumes "supervise_tick lb root dir spec tk su = (su', Inr t)" and "evidenced lb su" and "t \<noteq> Stuck"
  shows "evidenced lb su'"
proof -
  have start: "evidenced lb (su\<lparr>su_world := tk_others tk (su_world su)\<rparr>)"
    using assms(2) by (simp add: evidenced_def)
  from assms(1) show ?thesis unfolding supervise_tick_def
  proof (cases rule: thenW_cases)
    case (ok s1 d)
    have s1: "evidenced lb s1"
      by (rule evidenced_drain [OF ok(1) [unfolded drain_available_def] start])
    from ok(2) show ?thesis
    proof (cases rule: thenW_cases)
      case (ok s2 x)
      have s2: "evidenced lb s2" by (rule evidenced_poll [OF ok(1) s1])
      from ok(2) show ?thesis
      proof (cases rule: thenW_cases)
        case (ok s3 y)
        have "same_evidence s2 s3" using same_check_stop [of s2 lb dir spec tk] ok(1) by simp
        then have "evidenced lb s3" using s2 by (rule evidenced_same)
        then show ?thesis using evidenced_check_exit [OF ok(2)] assms(3) by blast
      qed simp
    qed simp
  qed simp
qed

text \<open>
  C13: a ready log condition can be shown. In every state the loop reaches, and in the final one, a
  satisfied log condition has its literal in the bytes of one stream that the log file holds: what
  the writer had no room for never makes a run ready. This holds however chunks, polls, stops and
  the exit interleave.
\<close>

theorem readiness_evidence_retained:
  assumes "sup_start (su, False)" and "evidenced lb su"
    and "(sup_step lb root dir spec)\<^sup>*\<^sup>* (su, False) (su', ended)"
    and "c \<in> set (rd_checks (rs_readiness (su_state su')))" and "ck_condition c = Log l"
    and "ck_ready_at_ms c \<noteq> None"
  shows "\<exists>es s. lw_file (su_logs su') = log_file (lb_log lb) (records_of (lb_log lb) es) \<and>
    sublist (as_bytes l) (entry_stream es s)"
proof -
  have "evidenced lb (fst t)" if "(sup_step lb root dir spec)\<^sup>*\<^sup>* (su, False) t" for t
    using that
  proof (induction rule: rtranclp_induct)
    case (step s t)
    from step.hyps(2) step.IH show ?case by cases (auto dest: evidenced_tick)
  qed (simp add: assms(2))
  from this [OF assms(3)] obtain es where "writer_holds (lb_log lb) (su_logs su') es"
    "backed (entry_stream es) (su_tracker su') (rs_readiness (su_state su'))"
    by (auto simp: evidenced_def writer_keeps_def)
  moreover from this have "occurs (entry_stream es) l"
    using assms(4-6) by (auto simp: backed_def)
  ultimately show ?thesis by (auto simp: writer_holds_def occurs_def)
qed

text \<open>The loop starts with evidence for nothing.\<close>

lemma spawned_evidenced:
  assumes "spawn_process lb bt root dir spec st alloc w = (ws, Inr su)"
    and "unat (sp_max_log_bytes spec) < 2 ^ 64 - 1"
    and "\<forall>c\<in>set (rd_checks (rs_readiness st)). ck_ready_at_ms c = None"
  shows "evidenced lb su"
proof -
  obtain a st' where h: "handoff (bt_handoff_at_ms bt) alloc st = (a, st')" by (metis surj_pair)
  have rd: "rs_readiness st' = rs_readiness st" using h by (auto simp: handoff_def set_port_leases_def)
  from assms(1) obtain pid where logs: "log_writer_create (lb_digest lb) (bt_logs_created bt) (sp_max_log_bytes spec) = Inr (su_logs su)"
    and su: "su_tracker su = tracker_new" "su_state su = spawned bt spec pid st'"
    by (auto simp: spawn_process_def h Let_def split: sum.splits prod.splits)
  have "rs_readiness (su_state su) = rs_readiness st"
    by (simp add: su(2) spawned_def record_spawn_def set_port_leases_def Let_def rd)
  moreover have "get_tail tracker_new s = []" for s by (cases s) (simp_all add: tracker_new_def)
  ultimately have "backed (entry_stream []) (su_tracker su) (rs_readiness (su_state su))"
    using assms(3) by (simp add: backed_def su(1))
  moreover have "writer_keeps (lb_log lb) (su_logs su) (entry_stream [])"
    using writer_holds_create [OF logs, of "lb_log lb"] assms(2) by (auto simp: writer_keeps_def)
  ultimately show ?thesis by (auto simp: evidenced_def)
qed

end
