(* ===== verification/Run_Outcomes.thy ===== *)
theory Run_Outcomes
  imports Terminal_Runs
begin

text \<open>
  The document of a run that was supervised to its end, against what happened to the process: the exit
  status that the system gave, the signals that were sent, and the stop that was begun, or not, on the way.
\<close>

section \<open>The stop in the document\<close>

abbreviation limit_triggered :: "run_state \<Rightarrow> u64 option" where
  "limit_triggered st \<equiv> rl_runtime_limit_triggered_at_ms (rs_limits st)"

abbreviation cleanup_requested :: "run_state \<Rightarrow> u64 option" where
  "cleanup_requested st \<equiv> cl_requested_at_ms (rs_cleanup st)"

text \<open>
  \<open>st0\<close> is the state with which the process was started. Without a stop the two times are as they were; a
  request sets the time of the stop, and the limit of the runtime both.
\<close>

definition noted :: "run_state \<Rightarrow> exit_reason option \<Rightarrow> run_state \<Rightarrow> bool" where
  "noted st0 reason st \<longleftrightarrow>
     (case reason of
        None \<Rightarrow> limit_triggered st = limit_triggered st0 \<and> cleanup_requested st = cleanup_requested st0
      | Some StopRequested \<Rightarrow> limit_triggered st = limit_triggered st0 \<and> cleanup_requested st \<noteq> None
      | Some RuntimeLimit \<Rightarrow> limit_triggered st \<noteq> None \<and> cleanup_requested st = limit_triggered st
      | Some _ \<Rightarrow> False)"

definition stop_noted :: "run_state \<Rightarrow> 'd sup \<Rightarrow> bool" where
  "stop_noted st0 su \<longleftrightarrow> noted st0 (map_option sg_reason (su_stopping su)) (su_state su)"

text \<open>What keeps it.\<close>

definition same_stop :: "'d sup \<Rightarrow> 'd sup \<Rightarrow> bool" where
  "same_stop su su' \<longleftrightarrow> map_option sg_reason (su_stopping su') = map_option sg_reason (su_stopping su) \<and>
     limit_triggered (su_state su') = limit_triggered (su_state su) \<and>
     cleanup_requested (su_state su') = cleanup_requested (su_state su)"

lemma same_stop_refl [simp]: "same_stop su su"
  by (simp add: same_stop_def)

lemma same_stop_trans: "same_stop su su1 \<Longrightarrow> same_stop su1 su2 \<Longrightarrow> same_stop su su2"
  by (simp add: same_stop_def)

lemma noted_same: "same_stop su su' \<Longrightarrow> stop_noted st0 su \<Longrightarrow> stop_noted st0 su'"
  by (auto simp: same_stop_def stop_noted_def noted_def split: option.splits exit_reason.splits)

lemma same_stop_drained: "drained su su' \<Longrightarrow> same_stop su su'"
  by (auto simp: drained_def same_stop_def)

lemma same_stop_persist: "same_stop su (fst (persist lb dir su))"
proof -
  obtain su' r where p: "persist lb dir su = (su', r)" by (metis surj_pair)
  then show ?thesis by (cases rule: persist_cases) (simp_all add: p same_stop_def)
qed

lemma same_stop_persist_at: "same_stop su s \<Longrightarrow> same_stop su (fst (persist lb dir s))"
  using same_stop_persist same_stop_trans by blast

lemma same_stop_frame [simp]:
  "same_stop su (s\<lparr>su_world := w\<rparr>) = same_stop su s" "same_stop su (s\<lparr>su_tracker := t\<rparr>) = same_stop su s"
  "same_stop su (s\<lparr>su_last_write := i\<rparr>) = same_stop su s" "same_stop su (s\<lparr>su_armed := b\<rparr>) = same_stop su s"
  "same_stop su (send_signal g s) = same_stop su s" "same_stop su (stamp tk at s) = same_stop su s"
  "same_stop su (on_state (\<lambda>st. st\<lparr>rs_readiness := rd\<rparr>) s) = same_stop su s"
  "same_stop su (on_state (\<lambda>st. st\<lparr>rs_logs := sm\<rparr>) s) = same_stop su s"
  "same_stop su (on_cleanup (\<lambda>cl. cl\<lparr>cl_descendant_cleanup_triggered := f cl\<rparr>) s) = same_stop su s"
  "same_stop su (on_cleanup (\<lambda>cl. cl\<lparr>cl_force_used := g' cl\<rparr>) s) = same_stop su s"
  "same_stop su (on_cleanup (\<lambda>cl. cl\<lparr>cl_descendant_cleanup_triggered := f cl, cl_force_used := g' cl\<rparr>) s) =
     same_stop su s"
  by (simp_all add: same_stop_def send_signal_def stamp_def on_state_def on_cleanup_def)

lemma same_stop_thenW:
  "same_stop su (fst m) \<Longrightarrow> (\<And>x s. same_stop su s \<Longrightarrow> same_stop su (fst (f x s))) \<Longrightarrow> same_stop su (fst (thenW m f))"
  by (rule thenW_keeps [where P = "same_stop su"])

lemma same_stop_poll: "same_stop su (fst (poll_readiness lb dir tk d su))"
  unfolding poll_readiness_def Let_def
  by (auto split: prod.split intro!: same_stop_thenW same_stop_persist_at)

section \<open>The check of the stop\<close>

lemma request_stop_same:
  assumes "request_stop lb outcome now grace reason su = (su', Inr g)"
  shows "sg_reason g = reason \<and> limit_triggered (su_state su') = limit_triggered (su_state su) \<and>
    cleanup_requested (su_state su') = cleanup_requested (su_state su)"
  using assms
  by (auto simp: request_stop_def start_kill_tolerant_def send_signal_def on_cleanup_def on_state_def Let_def
      split: if_splits sum.splits)

lemma begin_stop_noted:
  assumes "begin_stop lb dir tk grace reason su = (su', Inr ())" and "noted st0 (Some reason) (su_state su)"
  shows "stop_noted st0 su'"
proof -
  obtain s g where stop: "request_stop lb (tk_signal tk) (tk_instant tk At_stop) grace reason su = (s, Inr g)"
    and stored: "persist lb dir (s\<lparr>su_stopping := Some g\<rparr>) = (su', Inr ())"
    using assms(1) by (auto simp: begin_stop_def thenW_Inr)
  have "same_stop (s\<lparr>su_stopping := Some g\<rparr>) su'" using same_stop_persist [of "s\<lparr>su_stopping := Some g\<rparr>" lb dir] stored by simp
  moreover have "stop_noted st0 (s\<lparr>su_stopping := Some g\<rparr>)"
    using request_stop_same [OF stop] assms(2)
    by (auto simp: stop_noted_def noted_def split: exit_reason.splits)
  ultimately show ?thesis by (rule noted_same)
qed

lemma check_stop_noted:
  assumes "check_stop lb dir spec tk su = (su', Inr ())" and "stop_noted st0 su"
  shows "stop_noted st0 su'"
proof (cases "su_stopping su")
  case None
  then obtain s r where look: "in_world (read_stop_request lb dir spec (tk_meanwhile tk)) su = (s, Inr r)"
    and rest: "(case r of
        Some request \<Rightarrow> begin_stop lb dir tk (sq_grace_ms request) StopRequested (on_state (stop_requested tk request) s)
      | None \<Rightarrow> if past_deadline tk (su_state s)
          then begin_stop lb dir tk (sp_runtime_grace_ms spec) RuntimeLimit (on_state (limit_reached spec tk) s)
          else (s, Inr ())) = (su', Inr ())"
    using assms(1) by (auto simp: check_stop_def thenW_Inr)
  obtain w where s: "s = su\<lparr>su_world := w\<rparr>" using in_world_steady [OF look] by blast
  have before: "noted st0 None (su_state s)" using assms(2) None by (simp add: stop_noted_def s)
  have asked: "noted st0 (Some StopRequested) (su_state (on_state (stop_requested tk request) s))" for request
    using before by (simp add: noted_def on_state_def stop_requested_def)
  have over: "noted st0 (Some RuntimeLimit) (su_state (on_state (limit_reached spec tk) s))"
    by (simp add: noted_def on_state_def limit_reached_def)
  have "stop_noted st0 s" using assms(2) by (simp add: s stop_noted_def)
  then show ?thesis using rest begin_stop_noted [OF _ asked] begin_stop_noted [OF _ over]
    by (auto split: option.splits if_splits)
next
  case (Some stopping)
  have killed: "same_stop su (fst (thenW (start_kill_tolerant (tk_force tk) su) (\<lambda>killed su.
      persist lb dir (stamp tk At_force
        (on_cleanup (\<lambda>cl. cl\<lparr>cl_descendant_cleanup_triggered := cl_descendant_cleanup_triggered cl \<or> killed,
           cl_force_used := True\<rparr>)
          (su\<lparr>su_stopping := Some (stopping\<lparr>sg_force_sent := True\<rparr>)\<rparr>))))))"
    by (intro same_stop_thenW same_stop_persist_at) (simp_all add: start_kill_tolerant_def, simp add: same_stop_def Some)
  have "fst (check_stop lb dir spec tk su) \<in> {su, fst (thenW (start_kill_tolerant (tk_force tk) su) (\<lambda>killed su.
      persist lb dir (stamp tk At_force
        (on_cleanup (\<lambda>cl. cl\<lparr>cl_descendant_cleanup_triggered := cl_descendant_cleanup_triggered cl \<or> killed,
           cl_force_used := True\<rparr>)
          (su\<lparr>su_stopping := Some (stopping\<lparr>sg_force_sent := True\<rparr>)\<rparr>)))))}"
    by (simp add: check_stop_def Some)
  then have "same_stop su su'" using assms(1) killed by auto
  then show ?thesis using assms(2) by (rule noted_same)
qed

section \<open>The exit\<close>

text \<open>How a run ended, by its document: the reason, and what belongs to it.\<close>

definition ended_by :: "run_state \<Rightarrow> child_signal list \<Rightarrow> exit_reason \<Rightarrow> run_state \<Rightarrow> bool" where
  "ended_by st0 sent reason st \<longleftrightarrow>
     (if reason = ProcessExited
      then rs_status st = Exited \<and> sent = [Kill] \<and> noted st0 None st
      else rs_status st = Stopped \<and> 2 \<le> length sent \<and> noted st0 (Some reason) st)"

text \<open>The document gives the exit status of the process and the way it ended.\<close>

definition reports :: "('u, 'd) libs \<Rightarrow> run_state \<Rightarrow> child_signal list \<Rightarrow> exit_status \<Rightarrow> run_state \<Rightarrow> bool" where
  "reports lb st0 sent status st \<longleftrightarrow>
     (\<exists>info. rs_exit st = Some info \<and> ex_code info = es_code status \<and>
        ex_signal info = (if lb_windows lb then None else es_signal status) \<and> ended_by st0 sent (ex_reason info) st)"

lemma finish_run_reports:
  assumes "finish_run lb root dir tk status su = (su', Inr ())" and "stop_noted st0 su"
    and "su_sent su = sent_for (lb_windows lb) (su_stopping su) @ [Kill]"
    and "\<forall>g. su_stopping su = Some g \<longrightarrow> sg_reason g \<in> {StopRequested, RuntimeLimit}"
  shows "reports lb st0 (su_sent su') status (su_state su')"
  using assms(1)
proof (cases rule: finish_run_cases)
  case (closed summary w st alloc)
  then have st: "st = mark_released (tk_now tk At_release)
      ((su_state su)\<lparr>rs_readiness := fst (process_exited (rs_readiness (su_state su))), rs_logs := summary\<rparr>)"
    by (auto simp: release_leases_def thenW_Inr)
  have same: "limit_triggered (su_state su') = limit_triggered (su_state su)"
    "cleanup_requested (su_state su') = cleanup_requested (su_state su)"
    by (simp_all add: closed(4) closed_run_def st mark_released_def)
  have sent: "su_sent su' = sent_for (lb_windows lb) (su_stopping su) @ [Kill]" using assms(3) by (simp add: closed(4))
  show ?thesis
  proof (cases "su_stopping su")
    case None
    then show ?thesis using assms(2) same sent
      by (simp add: reports_def ended_by_def closed(4) closed_run_def exit_info_of_def stop_noted_def noted_def sent_for_def)
  next
    case (Some g)
    then have "2 \<le> length (su_sent su')" using sent by (simp add: sent_for_def)
    moreover have "noted st0 (Some (sg_reason g)) (su_state su')"
      using assms(2) same Some by (auto simp: stop_noted_def noted_def split: exit_reason.splits)
    moreover have "sg_reason g \<noteq> ProcessExited" using assms(4) Some by auto
    ultimately show ?thesis
      by (simp add: reports_def ended_by_def closed(4) closed_run_def exit_info_of_def Some)
  qed
qed simp

text \<open>What is marked on the state when the process has exited and its group was killed.\<close>

abbreviation after_kill :: "bool \<Rightarrow> 'd sup \<Rightarrow> 'd sup" where
  "after_kill killed su \<equiv> (if killed then on_cleanup (\<lambda>cl. cl\<lparr>cl_descendant_cleanup_triggered := True,
     cl_force_used := cl_force_used cl \<or> su_stopping su \<noteq> None\<rparr>) su else su)\<lparr>su_armed := False\<rparr>"

lemma check_exit_exited:
  assumes "check_exit lb root dir tk su = (su', Inr t)"
    and "try_wait_retry (tk_wait tk) = Inr (Returned (Some status))"
  obtains (stuck) "t = Stuck"
  | (finished) s killed s1 where "t = Finished" "start_kill_tolerant (tk_rest tk) su = (s, Inr killed)"
      "drain_until_closed lb (tk_instant tk At_drain + log_drain_limit) (tk_turns tk) (after_kill killed s) =
         (s1, Inr (Returned ()))"
      "finish_run lb root dir tk status s1 = (su', Inr ())"
proof -
  from assms obtain s killed s1 outcome where
    kill: "start_kill_tolerant (tk_rest tk) su = (s, Inr killed)"
    and drain: "drain_until_closed lb (tk_instant tk At_drain + log_drain_limit) (tk_turns tk) (after_kill killed s) =
      (s1, Inr outcome)"
    and rest: "(case outcome of Waiting \<Rightarrow> (s1, Inr Stuck)
      | Returned _ \<Rightarrow> thenW (finish_run lb root dir tk status s1) (\<lambda>_ su. (su, Inr Finished))) = (su', Inr t)"
    unfolding check_exit_def by (simp only: sum.case progress.case option.case thenW_Inr Let_def) blast
  show thesis
  proof (cases outcome)
    case Waiting
    then show thesis using rest by (intro stuck) simp
  next
    case (Returned u)
    then show thesis using rest drain kill by (intro finished) (auto simp: thenW_Inr)
  qed
qed

lemma check_exit_again:
  assumes "check_exit lb root dir tk su = (su', Inr Again)"
  shows "try_wait_retry (tk_wait tk) = Inr (Returned None) \<and> same_stop su su'"
proof (cases "try_wait_retry (tk_wait tk)")
  case (Inl e)
  then show ?thesis using assms by (simp add: check_exit_def)
next
  case (Inr answer)
  consider (wait) "answer = Waiting" | (alive) "answer = Returned None" | (exited) status where "answer = Returned (Some status)"
    by (metis option.exhaust progress.exhaust)
  then show ?thesis
  proof cases
    case wait
    then show ?thesis using assms Inr by (simp add: check_exit_def)
  next
    case alive
    have "same_stop su (fst (check_exit lb root dir tk su))"
      unfolding check_exit_def Inr alive
      by (auto intro!: same_stop_thenW same_stop_persist_at)
    then show ?thesis using assms Inr alive by simp
  next
    case exited
    from assms Inr [unfolded exited] show ?thesis by (cases rule: check_exit_exited) simp_all
  qed
qed

lemma check_exit_reports:
  assumes "check_exit lb root dir tk su = (su', Inr Finished)" and "running_ok lb su" and "stop_noted st0 su"
  shows "\<exists>status. try_wait_retry (tk_wait tk) = Inr (Returned (Some status)) \<and>
    reports lb st0 (su_sent su') status (su_state su') \<and> \<not> su_armed su'"
proof -
  obtain status where exited: "try_wait_retry (tk_wait tk) = Inr (Returned (Some status))"
  proof (cases "try_wait_retry (tk_wait tk)")
    case (Inr answer)
    consider (wait) "answer = Waiting" | (alive) "answer = Returned None" | (exited) status where "answer = Returned (Some status)"
      by (metis option.exhaust progress.exhaust)
    then show thesis
      using assms(1) Inr that by cases (auto simp: check_exit_def thenW_Inr split: if_splits)
  qed (use assms(1) in \<open>simp add: check_exit_def\<close>)
  from assms(1) exited show ?thesis
  proof (cases rule: check_exit_exited)
    case (finished s killed s1)
    have s: "s = send_signal Kill su" by (rule start_kill_tolerant_frame [OF finished(2)])
    have m: "su_sent (after_kill killed s) = su_sent su @ [Kill]" "su_stopping (after_kill killed s) = su_stopping su"
      "same_stop su (after_kill killed s)" "\<not> su_armed (after_kill killed s)"
      by (simp_all add: s send_signal_def on_cleanup_def on_state_def same_stop_def)
    note d = drain_until_closed_drained [OF finished(3)]
    have noted: "stop_noted st0 s1"
      by (rule noted_same [OF same_stop_trans [OF m(3) same_stop_drained [OF d]] assms(3)])
    have sent: "su_sent s1 = sent_for (lb_windows lb) (su_stopping s1) @ [Kill]"
      "\<forall>g. su_stopping s1 = Some g \<longrightarrow> sg_reason g \<in> {StopRequested, RuntimeLimit}"
      using assms(2) m(1,2) drained_frame(2,5) [OF d] by (simp_all add: running_ok_def)
    have "\<not> su_armed s1" using m(4) drained_frame(3) [OF d] by simp
    with finished(4) have "\<not> su_armed su'" by (cases rule: finish_run_cases) simp_all
    then show ?thesis using finish_run_reports [OF finished(4) noted sent] exited by blast
  qed simp
qed

section \<open>The whole run\<close>

lemma tick_outcome:
  assumes "supervise_tick lb root dir spec tk su = (su', Inr t)" and "running_ok lb su" and "stop_noted st0 su"
  shows "(t = Again \<longrightarrow> try_wait_retry (tk_wait tk) = Inr (Returned None) \<and> running_ok lb su' \<and> stop_noted st0 su') \<and>
    (t = Finished \<longrightarrow> (\<exists>status. try_wait_retry (tk_wait tk) = Inr (Returned (Some status)) \<and>
       reports lb st0 (su_sent su') status (su_state su') \<and> \<not> su_armed su'))"
proof -
  let ?start = "su\<lparr>su_world := tk_others tk (su_world su)\<rparr>"
  obtain s1 drain s2 s3 where drain: "drain_available lb (tk_arrivals tk) ?start = (s1, Inr drain)"
    and poll: "poll_readiness lb dir tk (dr_readiness_changed drain) s1 = (s2, Inr ())"
    and stop: "check_stop lb dir spec tk s2 = (s3, Inr ())"
    and exits: "check_exit lb root dir tk s3 = (su', Inr t)"
    using assms(1) by (auto simp: supervise_tick_def thenW_Inr)
  have d: "drained ?start s1" using drain by (auto simp: drain_available_def intro: drain_batch_drained)
  have "running_ok lb ?start" using assms(2) by (simp add: running_ok_def)
  then have "running_ok lb s2" using poll_readiness_running [OF poll drained_running [OF d]] by simp
  then have s3: "running_ok lb s3" using check_stop_control [OF stop] by simp
  have "same_stop su ?start" by simp
  then have "same_stop su s2"
    using same_stop_drained [OF d] same_stop_poll [of s1 lb dir tk "dr_readiness_changed drain"] same_stop_trans
    unfolding poll fst_conv by blast
  then have n3: "stop_noted st0 s3" using check_stop_noted [OF stop] noted_same [OF _ assms(3)] by blast
  have "running_ok lb su'" if "t = Again"
    using assms(1,2) unfolding that by (cases rule: supervise_tick_cases) simp_all
  then show ?thesis
    using check_exit_again [of lb root dir tk s3 su'] check_exit_reports [OF _ s3 n3] noted_same [OF _ n3] exits by blast
qed

text \<open>The iteration that finds that the process has exited, and the status it was given.\<close>

definition exited_at :: "tick list \<Rightarrow> nat \<Rightarrow> exit_status \<Rightarrow> bool" where
  "exited_at ticks i status \<longleftrightarrow> i < length ticks \<and>
     try_wait_retry (tk_wait (ticks ! i)) = Inr (Returned (Some status)) \<and>
     (\<forall>j<i. try_wait_retry (tk_wait (ticks ! j)) = Inr (Returned None))"

lemma exited_at_Cons:
  "try_wait_retry (tk_wait tk) = Inr (Returned None) \<Longrightarrow> exited_at ticks i status \<Longrightarrow> exited_at (tk # ticks) (Suc i) status"
  by (auto simp: exited_at_def less_Suc_eq_0_disj)

lemma loop_outcome:
  "supervise_loop lb root dir spec ticks su = (su', Inr (Returned ())) \<Longrightarrow> running_ok lb su \<Longrightarrow> stop_noted st0 su \<Longrightarrow>
   \<exists>i status. exited_at ticks i status \<and> reports lb st0 (su_sent su') status (su_state su') \<and> \<not> su_armed su'"
proof (induction ticks arbitrary: su)
  case (Cons tk ticks)
  obtain s t where tick: "supervise_tick lb root dir spec tk su = (s, Inr t)"
    and rest: "(case t of Again \<Rightarrow> supervise_loop lb root dir spec ticks s
      | Finished \<Rightarrow> (s, Inr (Returned ())) | Stuck \<Rightarrow> (s, Inr Waiting)) = (su', Inr (Returned ()))"
    using Cons.prems(1) by (auto simp: thenW_Inr)
  note outcome = tick_outcome [OF tick Cons.prems(2,3)]
  show ?case
  proof (cases t)
    case Again
    then obtain i status where "exited_at ticks i status" "reports lb st0 (su_sent su') status (su_state su')" "\<not> su_armed su'"
      using Cons.IH [of s] outcome rest by auto
    then show ?thesis using exited_at_Cons [of tk] outcome Again by blast
  next
    case Finished
    then obtain status where "try_wait_retry (tk_wait tk) = Inr (Returned (Some status))"
      "reports lb st0 (su_sent su') status (su_state su')" "\<not> su_armed su'"
      using outcome rest by auto
    then show ?thesis by (intro exI [of _ 0] exI [of _ status]) (simp add: exited_at_def)
  qed (use rest in simp)
qed simp

text \<open>The rest of what the document says once the run is over.\<close>

definition settled :: "run_state \<Rightarrow> bool" where
  "settled st \<longleftrightarrow>
     rd_status (rs_readiness st) \<noteq> RdPending \<and>
     list_all (\<lambda>l. pl_released_at_ms l \<noteq> None) (ls_ports (rs_leases st)) \<and>
     list_all (\<lambda>l. td_released_at_ms l \<noteq> None) (ls_temp_directories (rs_leases st)) \<and>
     sm_stdout_sha256 (rs_logs st) \<noteq> None \<and> sm_stderr_sha256 (rs_logs st) \<noteq> None \<and>
     cl_completed_at_ms (rs_cleanup st) = Some (rs_updated_at_ms st)"

text \<open>The state with which the supervisor started the process.\<close>

definition started_with :: "('u, 'd) libs \<Rightarrow> boot \<Rightarrow> path \<Rightarrow> world \<Rightarrow> run_state \<Rightarrow> bool" where
  "started_with lb bt dir w st0 \<longleftrightarrow>
     (\<exists>lock w1 spec st alloc ws su. open_supervisor_lock dir w = Inr lock \<and>
        begin_supervision lb bt dir (lock_node lock w) = (w1, Inr (spec, st, alloc)) \<and>
        spawn_process lb bt (butlast dir) dir spec st alloc w1 = (ws, Inr su) \<and> su_state su = st0)"

text \<open>
  C14: what a completed run reports. When the supervisor ends with success, the document on disk agrees with
  what happened to the process: it has the exit code and the signal (on Windows none) that the system gave in the iteration
  in which the process was first found to have exited; it says exited, by itself, when nothing was sent to
  the process but the final kill of what it left, and no stop was begun; and stopped, by a request or by the
  limit of its runtime, whichever began the stop, when a signal was sent before. The readiness is
  decided, every lease released, both streams digested, and the cleanup completed at the time of the update.
\<close>

theorem completed_run_document:
  assumes "supervise lb bt ticks failed_at failed_exit_at dir w = ((w', sent), Inr (Returned ()))"
  shows "\<exists>st0 st i status. started_with lb bt dir w st0 \<and>
    node_at w' (state_path dir) = Some (Regular (js_write (lb_state lb) st @ [10])) \<and>
    exited_at ticks i status \<and> reports lb st0 sent status st \<and> settled st"
proof -
  obtain lock where lock: "open_supervisor_lock dir w = Inr lock"
    using assms by (cases "open_supervisor_lock dir w") (simp_all add: supervise_def)
  obtain v s1 r1 where "supervise_locked lb bt ticks dir (lock_node lock w) = ((v, s1), r1)"
    by (metis prod.collapse)
  then have l: "supervise_locked lb bt ticks dir (lock_node lock w) = ((v, sent), Inr (Returned ()))"
    and w': "w' = unlock_node lock v"
    using assms lock by (auto simp: supervise_def split: sum.splits progress.splits)
  have "Inr (Returned ()) \<noteq> (Inr Waiting :: app_error + unit progress)" by simp
  from l this show ?thesis
  proof (cases rule: supervise_locked_cases)
    case (looped w1 ws spec st alloc su su')
    have run: "running_ok lb su" and quiet: "su_stopping su = None"
      using spawn_process_start [OF looped(2)] by (simp_all add: sup_start_def running_ok_def sent_for_def)
    then have "stop_noted (su_state su) su" by (simp add: stop_noted_def noted_def)
    then obtain i status where outcome: "exited_at ticks i status" "reports lb (su_state su) (su_sent su') status (su_state su')"
      and over: "\<not> su_armed su'"
      using loop_outcome [OF looped(3) run] by blast
    have inv: "sup_inv lb dir (su', True)" using supervise_loop_end [OF looped(3) run] by blast
    then have "v = su_world su'" "sent = su_sent su'"
      using looped(4) over by (simp_all add: leave_def drop_allocation_def release_registry_def sup_inv_def)
    moreover have "settled (su_state su')" using inv by (simp add: sup_inv_def closed_ok_def settled_def)
    moreover have "started_with lb bt dir w (su_state su)"
      using lock looped(1,2) unfolding started_with_def by blast
    ultimately show ?thesis using outcome inv by (auto simp: sup_inv_def w')
  qed simp_all
qed

end
