(* ===== verification/Supervised_Example.thy ===== *)
theory Supervised_Example
  imports Supervisor_Failures Log_Evidence Run_Outcomes
begin

text \<open>
  A concrete run of the supervisor, from the two documents in the directory to the exit of the
  process, for the witnesses of the theorems on whole runs.
\<close>

definition example_dir :: path where
  "example_dir = [''srv'', rs_run_id example_run]"

definition example_spec :: supervisor_spec where
  "example_spec =
     \<lparr>sp_schema_version = ''procherd.supervisor-spec.v1'', sp_run_id = rs_run_id example_run,
      sp_owner_token = ''token'', sp_command = rs_command example_run, sp_max_log_bytes = 10,
      sp_readiness = rs_readiness example_run,
      sp_lease_requests = \<lparr>lr_port_names = [], lr_temp_directory_names = []\<rparr>,
      sp_max_runtime_ms = None, sp_runtime_grace_ms = 0\<rparr>"

text \<open>A codec that keeps the status of a run only.\<close>

definition status_of_rank :: "nat \<Rightarrow> run_status" where
  "status_of_rank n = [Created, Starting, Running, Stopping, Exited, Failed, Stopped] ! n"

definition status_codec :: "run_state json_codec" where
  "status_codec =
     \<lparr>js_write = (\<lambda>st. [of_nat (status_rank (rs_status st))]),
      js_read = (\<lambda>bs. Inr (example_run\<lparr>rs_status := status_of_rank (unat (hd bs))\<rparr>))\<rparr>"

lemma status_codec_readable: "status_readable status_codec"
proof -
  have "status_of_rank (unat (of_nat (status_rank s) :: u8)) = s" for s
    by (cases s) (simp_all add: status_of_rank_def)
  then show ?thesis by (simp add: status_readable_def status_codec_def)
qed

definition example_libs :: "(128 word, bytes) libs" where
  "example_libs =
     \<lparr>lb_ulid = crockford, lb_state = status_codec, lb_spec = example_codec example_spec,
      lb_stop = example_codec \<lparr>sq_schema_version = ''procherd.stop-request.v1'',
        sq_run_id = rs_run_id example_run, sq_owner_token = ''token'', sq_requested_at_ms = 5, sq_grace_ms = 0\<rparr>,
      lb_registry = plain_registry_codec, lb_log = standard_codec, lb_digest = raw_digest,
      lb_windows = False, lb_utf8 = (\<lambda>_. True)\<rparr>"

definition example_start :: world where
  "example_start = (empty_world [])
     \<lparr>w_nodes := [([], Directory), ([''srv''], Directory), (example_dir, Directory),
        (example_dir @ [''supervisor.lock''], Regular []),
        (example_dir @ [''spec.json''], Regular [10]),
        (state_path example_dir, Regular [0, 10])]\<rparr>"

definition example_boot :: boot where
  "example_boot =
     \<lparr>bt_supervisor_pid = 7, bt_starting_at_ms = 1, bt_acquired_at_ms = 2, bt_bind = (\<lambda>_. Inr 4000),
      bt_entry_at_ms = (\<lambda>_. 2), bt_handoff_at_ms = 3, bt_spawn = Inr 8, bt_failed_at_ms = 3,
      bt_failed_exit_at_ms = 3, bt_released_at_ms = 3, bt_spawned_at_ms = 3, bt_running_at_ms = 4,
      bt_logs_created = Inr (), bt_loop_at = 0\<rparr>"

definition example_tick :: tick where
  "example_tick =
     \<lparr>tk_others = id, tk_meanwhile = id, tk_now = (\<lambda>_. 9), tk_instant = (\<lambda>_. 0), tk_arrivals = [],
      tk_poll = \<lparr>pk_now_ms = 9, pk_elapsed_at = 0, pk_probe_at = 0, pk_observed_at_ms = 9, pk_finished_at_ms = 9\<rparr>,
      tk_probe = (\<lambda>_. None), tk_signal = Inr (), tk_force = Inr (),
      tk_wait = [Inr (Some \<lparr>es_code = Some 0, es_signal = None\<rparr>)], tk_rest = Inr (),
      tk_turns = [(0, Disconnected)], tk_synced = Inr ()\<rparr>"

text \<open>A world without faults in which the run directory stands.\<close>

definition calm :: "world \<Rightarrow> bool" where
  "calm w \<longleftrightarrow> w_faults w = (\<lambda>_ _. None) \<and> node_at w [''srv''] = Some Directory \<and>
     node_at w example_dir = Some Directory \<and> node_at w (state_path example_dir) \<noteq> Some Directory \<and>
     node_at w [''srv'', ''port-leases.json''] = None \<and> node_at w [''srv'', ''port-leases.lock''] = None \<and>
     node_at w (stop_path example_dir) = None"

lemma calm_attempt: "calm w \<Longrightarrow> attempt w op p = Inr ()"
  by (simp add: attempt_def calm_def)

lemma example_paths:
  "state_path example_dir = [''srv'', rs_run_id example_run, ''state.json'']"
  "stop_path example_dir = [''srv'', rs_run_id example_run, ''stop.request.json'']"
  "rs_run_id example_run \<noteq> ''port-leases.json''" "rs_run_id example_run \<noteq> ''port-leases.lock''"
  by (simp_all add: state_path_def stop_path_def example_dir_def example_run_def)

lemma calm_persist:
  "calm w \<Longrightarrow> persist_state lb example_dir st w =
     (put_node (state_path example_dir) (Regular (js_write (lb_state lb) st @ [10])) w, Inr ())"
  by (simp add: persist_state_def atomic_write_json_def calm_attempt parent_dir_def)
    (simp add: calm_def state_path_def)

lemma calm_put: "calm w \<Longrightarrow> calm (put_node (state_path example_dir) (Regular bs) w)"
  by (auto simp: calm_def state_path_def stop_path_def example_dir_def)

lemma calm_release:
  assumes "calm w"
  shows "\<exists>w'. release_run crockford plain_registry_codec [''srv''] run_id w = (w', Inr ()) \<and>
    w_faults w' = w_faults w \<and> (\<forall>q. length q = 3 \<or> q = example_dir \<longrightarrow> node_at w' q = node_at w q)"
proof -
  let ?w = "put_node [''srv'', ''port-leases.lock''] (Regular []) w"
  have ok: "attempt (put_node p n w) op q = Inr ()" "attempt w op q = Inr ()" for p n op q
    using calm_attempt [OF assms] by simp_all
  have nodes: "node_at w [''srv''] = Some Directory" "node_at w [''srv'', ''port-leases.lock''] = None"
    "node_at w [''srv'', ''port-leases.json''] = None"
    using assms by (simp_all add: calm_def)
  have lock: "open_registry_lock [''srv''] w = (?w, Inr ())"
    by (simp add: open_registry_lock_def create_private_file_def parent_dir_def ok nodes)
  have load: "load_registry plain_registry_codec [''srv''] ?w =
      Inr \<lparr>pr_schema_version = registry_schema, pr_entries = []\<rparr>"
    by (simp add: load_registry_def path_exists_def registry_path_def nodes)
  show ?thesis
    by (auto simp: release_run_def update_registry_def lock load Let_def ok validate_registry_def
        atomic_write_json_def parent_dir_def registry_path_def nodes example_dir_def example_paths)
qed

lemma example_names:
  "rs_run_id example_run = ''run_'' @ ulid_display crockford 0"
  "rs_readiness example_run = readiness_state_new [] 1000 0" "rs_schema_version example_run = run_schema_version"
  "rs_leases example_run = lease_state_requested [] []"
  by (simp_all add: example_run_def example_state_def)

lemma read_faultless:
  "w_faults w = (\<lambda>_ _. None) \<Longrightarrow> node_at w q = Some (Regular bs) \<Longrightarrow> length bs \<le> 2 \<Longrightarrow> js_read J bs = Inr x \<Longrightarrow>
   read_json J w q = Inr x"
  by (simp add: read_json_def ensure_regular attempt_def open_file_def document_limit_def)

lemma example_load:
  "load_documents example_libs example_dir (lock_node p example_start) = Inr (example_spec, example_run)"
proof -
  let ?w = "lock_node p example_start"
  have faults: "w_faults ?w = (\<lambda>_ _. None)" by (simp add: lock_node_def example_start_def empty_world_def)
  have nodes: "node_at ?w (example_dir @ [''spec.json'']) = Some (Regular [10])"
    "node_at ?w (state_path example_dir) = Some (Regular [0, 10])"
    by (simp_all add: node_at_def lock_node_def example_start_def state_path_def example_dir_def)
  have "read_json (lb_spec example_libs) ?w (example_dir @ [''spec.json'']) = Inr example_spec"
    by (rule read_faultless [OF faults nodes(1)]) (simp_all add: example_libs_def example_codec_def)
  moreover have "read_json (lb_state example_libs) ?w (state_path example_dir) = Inr (example_run\<lparr>rs_status := Created\<rparr>)"
    by (rule read_faultless [OF faults nodes(2)])
      (simp_all add: example_libs_def status_codec_def status_of_rank_def)
  moreover have "example_run\<lparr>rs_status := Created\<rparr> = example_run"
    by (simp add: example_run_def example_state_def)
  ultimately show ?thesis
    by (simp add: load_documents_def example_spec_def example_names example_run_def example_state_def)
qed

text \<open>The state in which the loop starts.\<close>

lemma example_begin:
  "\<exists>w st alloc. begin_supervision example_libs example_boot example_dir (lock_node p example_start) =
     (w, Inr (example_spec, st, alloc)) \<and> calm w \<and>
     rd_status (rs_readiness st) = RdNotConfigured \<and> rl_runtime_deadline_at_ms (rs_limits st) = None"
proof -
  let ?w = "lock_node p example_start"
  have faults: "w_faults ?w = (\<lambda>_ _. None)" by (simp add: lock_node_def example_start_def empty_world_def)
  have nodes: "node_at ?w (example_dir @ [''spec.json'']) = Some (Regular [10])"
    by (simp add: node_at_def lock_node_def example_start_def state_path_def example_dir_def)
  have calm: "calm (remove_node (example_dir @ [''spec.json'']) ?w)"
    using faults by (simp add: calm_def) (simp add: node_at_def lock_node_def example_start_def state_path_def
        stop_path_def example_dir_def example_run_def)
  have remove: "remove_file (example_dir @ [''spec.json'']) ?w = (remove_node (example_dir @ [''spec.json'']) ?w, Inr ())"
    using faults nodes by (simp add: remove_file_def attempt_def)
  let ?st = "example_run\<lparr>rs_status := Starting, rs_updated_at_ms := bt_starting_at_ms example_boot,
    rs_process := (rs_process example_run)\<lparr>pi_supervisor_pid := Some (bt_supervisor_pid example_boot)\<rparr>\<rparr>"
  let ?w2 = "put_node (state_path example_dir) (Regular (js_write (lb_state example_libs) ?st @ [10]))
    (remove_node (example_dir @ [''spec.json'']) ?w)"
  have "\<exists>st alloc. acquire_leases crockford J win utf8 bind now at root dir ?st
      \<lparr>lr_port_names = [], lr_temp_directory_names = []\<rparr> v = (v, Inr (st, alloc)) \<and>
      rd_status (rs_readiness st) = RdNotConfigured \<and> rl_runtime_deadline_at_ms (rs_limits st) = None"
    for J win utf8 bind now at root dir v
    using example_run_valid(1)
    by (simp add: acquire_leases_def validate_names_def create_temp_directories_def reserve_ports_def
        populate_state_def example_run_def example_state_def lease_state_requested_def temp_values_def
        readiness_state_new_def Let_def)
  then obtain st alloc where acquired: "acquire_leases (lb_ulid example_libs) (lb_registry example_libs)
      (lb_windows example_libs) (lb_utf8 example_libs) (bt_bind example_boot) (bt_entry_at_ms example_boot)
      (bt_acquired_at_ms example_boot) (butlast example_dir) example_dir ?st (sp_lease_requests example_spec) ?w2 =
        (?w2, Inr (st, alloc))"
    "rd_status (rs_readiness st) = RdNotConfigured" "rl_runtime_deadline_at_ms (rs_limits st) = None"
    by (simp add: example_libs_def example_spec_def) metis
  have "calm ?w2" by (rule calm_put [OF calm])
  moreover have "example_dir \<noteq> []" by (simp add: example_dir_def)
  ultimately show ?thesis
    using acquired by (simp add: calm_put [OF calm] begin_supervision_def example_load remove calm_persist [OF calm]
        calm_persist [of ?w2] Let_def)
qed

lemma drain_batch_none:
  "0 < n \<Longrightarrow> drain_batch lb n [] changed su = (su, Inr \<lparr>dr_readiness_changed = changed, dr_saturated = False\<rparr>)"
  by (cases n) simp_all

lemma calm_no_stop:
  assumes "calm w"
  shows "read_stop_request example_libs example_dir example_spec id w = (w, Inr None)"
proof -
  have "node_at w (stop_path example_dir) = None" using assms by (simp add: calm_def)
  then have "read_json J w (stop_path example_dir) = Inl (from_io no_entry)"
    and "\<not> path_exists w (stop_path example_dir)" for J :: "stop_request json_codec"
    by (simp_all add: read_json_def ensure_regular_file_def symlink_metadata_def calm_attempt [OF assms]
        path_exists_def)
  then show ?thesis by (simp add: read_stop_request_def from_io_def operational_def)
qed

lemma example_tick_finishes:
  assumes "calm (su_world su)" and "rd_status (rs_readiness (su_state su)) = RdNotConfigured"
    and "rl_runtime_deadline_at_ms (rs_limits (su_state su)) = None" and "su_stopping su = None"
  shows "\<exists>su'. supervise_tick example_libs [''srv''] example_dir example_spec example_tick su = (su', Inr Finished)"
proof -
  have stop: "read_stop_request example_libs example_dir example_spec id (su_world su) = (su_world su, Inr None)"
    by (rule calm_no_stop [OF assms(1)])
  obtain v where v: "release_run crockford plain_registry_codec [''srv''] (la_run_id (su_alloc su)) (su_world su) = (v, Inr ())"
    "w_faults v = w_faults (su_world su)"
    "\<forall>q. length q = 3 \<or> q = example_dir \<longrightarrow> node_at v q = node_at (su_world su) q"
    using calm_release [OF assms(1)] by blast
  have w: "w_faults (su_world su) = (\<lambda>_ _. None)" "node_at (su_world su) example_dir = Some Directory"
    "node_at (su_world su) (state_path example_dir) \<noteq> Some Directory"
    using assms(1) by (simp_all add: calm_def)
  have persist: "persist_state example_libs example_dir st u =
      (put_node (state_path example_dir) (Regular (js_write (lb_state example_libs) st @ [10])) u, Inr ())"
    if "u \<in> {v, su_world su}" for st u
  proof -
    have "w_faults u = (\<lambda>_ _. None)" "node_at u example_dir = Some Directory"
      "node_at u (state_path example_dir) \<noteq> Some Directory"
      using that v(2,3) w by (auto simp: example_paths)
    then show ?thesis
      by (simp add: persist_state_def atomic_write_json_def attempt_def parent_dir_def) (simp add: state_path_def)
  qed
  have release: "\<exists>alloc. release_leases crockford plain_registry_codec at [''srv''] (su_alloc su) st (su_world su) =
      (u, Inr (mark_released at st, alloc))" if "u = (if la_registry_released (su_alloc su) then su_world su else v)"
    for at st u
    using that v(1) by (simp add: release_leases_def release_registry_def)
  let ?su = "su\<lparr>su_world := su_world su\<rparr>"
  have drain: "drain_available example_libs [] su = (su, Inr \<lparr>dr_readiness_changed = False, dr_saturated = False\<rparr>)"
    by (simp add: drain_available_def log_drain_batch_chunks_def drain_batch_none)
  have poll: "poll_readiness example_libs example_dir example_tick False su = (su, Inr ())"
    using assms(2) by (simp add: poll_readiness_def poll_idle on_state_def)
  have stopped: "check_stop example_libs example_dir example_spec example_tick su = (su, Inr ())"
    using stop assms(3,4) by (simp add: check_stop_def example_tick_def in_world_def past_deadline_def)
  let ?alive = "send_signal Kill su"
  let ?su1 = "(on_cleanup (\<lambda>cl. cl\<lparr>cl_descendant_cleanup_triggered := True,
    cl_force_used := cl_force_used cl \<or> su_stopping ?alive \<noteq> None\<rparr>) ?alive)\<lparr>su_armed := False\<rparr>"
  have finish: "\<exists>su'. finish_run example_libs [''srv''] example_dir example_tick status s = (su', Inr ())"
    if s: "su_world s = su_world su" "su_alloc s = su_alloc su" for status and s :: "bytes sup"
  proof -
    obtain summary where summary: "log_finish (lb_digest example_libs) (tk_synced example_tick) (su_logs s) = Inr summary"
      by (simp add: log_finish_def example_tick_def)
    let ?st = "(su_state s)\<lparr>rs_readiness := fst (process_exited (rs_readiness (su_state s))), rs_logs := summary\<rparr>"
    obtain u alloc where "u \<in> {v, su_world su}" and
      "release_leases crockford plain_registry_codec (tk_now example_tick At_release) [''srv''] (su_alloc su) ?st (su_world su) =
        (u, Inr (mark_released (tk_now example_tick At_release) ?st, alloc))"
      using release [OF refl, of "tk_now example_tick At_release" ?st] by (auto split: if_splits)
    moreover have "lb_ulid example_libs = crockford" "lb_registry example_libs = plain_registry_codec"
      by (simp_all add: example_libs_def)
    ultimately show ?thesis using persist [of u]
      by (simp add: finish_run_def s summary on_state_def in_world_def persist_def Let_def)
  qed
  have "su_world ?su1 = su_world su" "su_alloc ?su1 = su_alloc su"
    by (simp_all add: send_signal_def on_cleanup_def on_state_def)
  then obtain su' where "finish_run example_libs [''srv''] example_dir example_tick
      \<lparr>es_code = Some 0, es_signal = None\<rparr> ?su1 = (su', Inr ())"
    using finish by blast
  then have "check_exit example_libs [''srv''] example_dir example_tick su = (su', Inr Finished)"
    by (simp add: check_exit_def example_tick_def start_kill_tolerant_def log_drain_limit_def)
  then have "supervise_tick example_libs [''srv''] example_dir example_spec example_tick su = (su', Inr Finished)"
    using drain poll stopped by (simp add: supervise_tick_def) (simp add: example_tick_def)
  then show ?thesis by blast
qed

lemma example_spawn:
  assumes "calm w" and "rd_status (rs_readiness st) = RdNotConfigured"
  shows "\<exists>ws su. spawn_process example_libs example_boot [''srv''] example_dir example_spec st alloc w = (ws, Inr su) \<and>
    calm (su_world su) \<and> rd_status (rs_readiness (su_state su)) = RdNotConfigured \<and>
    rl_runtime_deadline_at_ms (rs_limits (su_state su)) = None \<and> su_stopping su = None"
proof -
  have boot: "bt_spawn example_boot = Inr 8" "bt_logs_created example_boot = Inr ()" "sp_max_runtime_ms example_spec = None"
    by (simp_all add: example_boot_def example_spec_def)
  obtain st' alloc' where handoff: "handoff (bt_handoff_at_ms example_boot) alloc st = (alloc', st')"
    by (metis surj_pair)
  have "rs_readiness st' = rs_readiness st" using handoff by (auto simp: handoff_def set_port_leases_def)
  then have "rs_readiness (spawned example_boot example_spec 8 st') = rs_readiness st"
    "rl_runtime_deadline_at_ms (rs_limits (spawned example_boot example_spec 8 st')) = None"
    by (simp_all add: spawned_def record_spawn_def set_port_leases_def Let_def boot)
  then show ?thesis using assms
    by (simp add: spawn_process_def handoff boot calm_persist calm_put log_writer_create_def Let_def)
qed

lemma example_lock:
  "open_supervisor_lock example_dir example_start = Inr (example_dir @ [''supervisor.lock''])"
proof -
  let ?lock = "example_dir @ [''supervisor.lock'']"
  have "node_at example_start ?lock = Some (Regular [])"
    by (simp add: node_at_def example_start_def example_dir_def)
  moreover have "attempt example_start op q = Inr ()" for op q
    by (simp add: attempt_def example_start_def empty_world_def)
  ultimately show ?thesis
    by (simp add: open_supervisor_lock_def ensure_regular open_file_def Let_def)
qed

lemma example_whole: "whole_document example_libs example_dir example_start"
proof -
  have "status_rank (rs_status example_run) = 0" by (simp add: example_run_def)
  then show ?thesis
    by (auto simp: whole_document_def example_start_def node_at_def state_path_def example_dir_def
        example_libs_def status_codec_def intro: exI [of _ example_run])
qed

lemma example_ready:
  "\<exists>su w st alloc ws. begin_supervision example_libs example_boot example_dir (lock_node p example_start) =
       (w, Inr (example_spec, st, alloc)) \<and>
     spawn_process example_libs example_boot [''srv''] example_dir example_spec st alloc w = (ws, Inr su) \<and>
     (\<exists>su'. supervise_tick example_libs [''srv''] example_dir example_spec example_tick su = (su', Inr Finished))"
proof -
  obtain w st alloc where begun: "begin_supervision example_libs example_boot example_dir (lock_node p example_start) =
     (w, Inr (example_spec, st, alloc))" "calm w" "rd_status (rs_readiness st) = RdNotConfigured"
    using example_begin by blast
  obtain ws su where run: "spawn_process example_libs example_boot [''srv''] example_dir example_spec st alloc w =
      (ws, Inr su)" "calm (su_world su)" "rd_status (rs_readiness (su_state su)) = RdNotConfigured"
    "rl_runtime_deadline_at_ms (rs_limits (su_state su)) = None" "su_stopping su = None"
    using example_spawn [OF begun(2,3)] by blast
  obtain su' where "supervise_tick example_libs [''srv''] example_dir example_spec example_tick su = (su', Inr Finished)"
    using example_tick_finishes [OF run(2-5)] by blast
  then show ?thesis using begun(1) run(1) by blast
qed

text \<open>The run completes.\<close>

lemma example_completes:
  "\<exists>w sent. supervise example_libs example_boot [example_tick] 10 10 example_dir example_start =
     ((w, sent), Inr (Returned ()))"
proof -
  let ?w = "lock_node (example_dir @ [''supervisor.lock'']) example_start"
  obtain su w st alloc ws su' where
    run: "begin_supervision example_libs example_boot example_dir ?w = (w, Inr (example_spec, st, alloc))"
    "spawn_process example_libs example_boot [''srv''] example_dir example_spec st alloc w = (ws, Inr su)"
    "supervise_tick example_libs [''srv''] example_dir example_spec example_tick su = (su', Inr Finished)"
    using example_ready by blast
  have "butlast example_dir = [''srv'']" by (simp add: example_dir_def)
  with run have "\<exists>ws. supervise_locked example_libs example_boot [example_tick] example_dir ?w = (ws, Inr (Returned ()))"
    by (simp add: supervise_locked_def Let_def)
  then show ?thesis by (auto simp: supervise_def example_lock split: prod.split)
qed

lemma example_started: "process_started example_libs example_boot example_dir example_start"
proof -
  have "\<exists>w p. begin_supervision example_libs example_boot example_dir
      (lock_node (example_dir @ [''supervisor.lock'']) example_start) = (w, Inr p)"
    using example_ready by blast
  moreover have "bt_spawn example_boot = Inr 8" by (simp add: example_boot_def)
  ultimately show ?thesis by (auto simp: process_started_def example_lock)
qed

theorem no_child_left_witness:
  "\<exists>w sent. supervise example_libs example_boot [example_tick] 10 10 example_dir example_start =
     ((w, sent), Inr (Returned ())) \<and> sent \<noteq> [] \<and> List.last sent = Kill"
proof -
  obtain w sent where run: "supervise example_libs example_boot [example_tick] 10 10 example_dir example_start =
     ((w, sent), Inr (Returned ()))" using example_completes by blast
  have "no_child_runs example_libs example_boot example_dir example_start sent"
    by (rule no_child_left [OF run]) simp
  then show ?thesis using run example_started by (auto simp: no_child_runs_def)
qed

theorem completed_run_document_witness:
  "\<exists>w sent st info. supervise example_libs example_boot [example_tick] 10 10 example_dir example_start =
     ((w, sent), Inr (Returned ())) \<and>
     node_at w (state_path example_dir) = Some (Regular (js_write status_codec st @ [10])) \<and>
     rs_exit st = Some info \<and> ex_code info = Some 0 \<and> ex_signal info = None \<and> settled st"
proof -
  obtain w sent where run: "supervise example_libs example_boot [example_tick] 10 10 example_dir example_start =
     ((w, sent), Inr (Returned ()))" using example_completes by blast
  have lb: "lb_state example_libs = status_codec" by (simp add: example_libs_def)
  from completed_run_document [OF run] obtain st0 st i status where
    outcome: "node_at w (state_path example_dir) = Some (Regular (js_write status_codec st @ [10]))"
    "exited_at [example_tick] i status" "reports example_libs st0 sent status st" "settled st"
    unfolding lb by blast
  from outcome(2) have "status = \<lparr>es_code = Some 0, es_signal = None\<rparr>"
    by (auto simp: exited_at_def example_tick_def)
  then obtain info where "rs_exit st = Some info" "ex_code info = Some 0" "ex_signal info = None"
    using outcome(3) by (auto simp: reports_def)
  then show ?thesis using run outcome(1,4) by blast
qed

theorem every_run_ends_witness:
  "\<exists>w sent. supervise example_libs example_boot [example_tick] 10 10 example_dir example_start =
     ((w, sent), Inr (Returned ())) \<and> terminal_on_disk example_libs example_dir w"
proof -
  obtain w sent where run: "supervise example_libs example_boot [example_tick] 10 10 example_dir example_start =
     ((w, sent), Inr (Returned ()))" using example_completes by blast
  have "run_directory example_dir"
    by (simp add: run_directory_def example_dir_def example_run_def)
  moreover have "whole_document example_libs example_dir example_start" by (rule example_whole)
  moreover have "status_readable (lb_state example_libs)"
    by (simp add: example_libs_def status_codec_readable)
  moreover have "\<forall>tk\<in>set [example_tick]. quiet_tick example_dir tk"
    by (simp add: quiet_tick_def spares_def example_tick_def undisturbed_refl)
  ultimately have "terminal_on_disk example_libs example_dir w \<or> left_unrecorded example_libs 10 10 example_dir
      (example_dir @ [''supervisor.lock'']) w (Inr (Returned ()))"
    using every_run_ends [OF _ _ _ _ example_lock run] by blast
  then show ?thesis using run by (auto simp: left_unrecorded_def)
qed

theorem status_advances_witness:
  "\<exists>s u. sup_start s \<and> (sup_step example_libs [''srv''] example_dir example_spec)\<^sup>*\<^sup>* s u \<and>
     is_terminal (rs_status (su_state (fst u)))"
proof -
  obtain w st alloc ws su su' where
    spawn: "spawn_process example_libs example_boot [''srv''] example_dir example_spec st alloc w = (ws, Inr su)"
    and tick: "supervise_tick example_libs [''srv''] example_dir example_spec example_tick su = (su', Inr Finished)"
    using example_ready by blast
  have start: "sup_start (su, False)" using spawn_process_start [OF spawn] by blast
  have step: "(sup_step example_libs [''srv''] example_dir example_spec)\<^sup>*\<^sup>* (su, False) (su', True)"
    using ends [OF tick] by (rule r_into_rtranclp)
  from status_advances [OF start rtranclp.rtrancl_refl step] show ?thesis using start step by auto
qed

theorem drain_bounded_witness:
  "\<forall>su. \<exists>su'. drain_until_closed example_libs 5 [(1, Empty), (9, Empty)] su =
     (su', Inl (operational ''log_drain_timeout'' ''log capture did not close within the bounded drain period''))"
proof
  fix su
  obtain su' where "drain_until_closed example_libs 5 [(1, Empty), (9, Empty)] su = (su', Inr (Returned ())) \<or>
    drain_until_closed example_libs 5 [(1, Empty), (9, Empty)] su =
      (su', Inl (operational ''log_drain_timeout'' ''log capture did not close within the bounded drain period''))"
    using drain_bounded [of "[(1, Empty), (9, Empty)]" 5 example_libs su] by auto
  then show "\<exists>su'. drain_until_closed example_libs 5 [(1, Empty), (9, Empty)] su =
      (su', Inl (operational ''log_drain_timeout'' ''log capture did not close within the bounded drain period''))"
    by auto
qed

section \<open>A run that becomes ready\<close>

definition waiting_readiness :: readiness_state where
  "waiting_readiness = readiness_state_new [Log ''ok''] 1000 0"

definition example_sup :: "bytes sup" where
  "example_sup =
     \<lparr>su_world = example_start, su_sent = [], su_armed = True,
      su_state = example_run\<lparr>rs_status := Running, rs_readiness := waiting_readiness\<rparr>,
      su_alloc = leasing_allocation,
      su_logs = \<lparr>lw_file = [], lw_summary = log_summary_new 10, lw_stdout_digest = [], lw_stderr_digest = []\<rparr>,
      su_tracker = tracker_new, su_stopping = None, su_last_write = 0\<rparr>"

definition ok_chunk :: log_chunk where
  "ok_chunk = \<lparr>ch_stream = Stdout, ch_bytes = as_bytes ''ok''\<rparr>"

definition ok_tick :: tick where
  "ok_tick = example_tick\<lparr>tk_wait := [Inr None], tk_arrivals :=
     [\<lparr>ar_chunk = ok_chunk, ar_now = (\<lambda>_. 3), ar_finished_at = 3, ar_recorded_at = 3, ar_outcome = Written\<rparr>]\<rparr>"

lemma example_start_calm: "calm example_start"
  by (simp add: calm_def node_at_def example_start_def empty_world_def example_dir_def state_path_def
      stop_path_def example_run_def)

lemma ok_observed:
  "let (t, st, changed) = observe_log (\<lambda>_. 3) 3 Stdout (as_bytes ''ok'') tracker_new waiting_readiness in
   changed \<and> rd_status st = RdReady \<and> map ck_condition (rd_checks st) = [Log ''ok''] \<and>
   map ck_ready_at_ms (rd_checks st) = [Some 3]"
  by (simp add: observe_log_def waiting_readiness_def readiness_state_new_def readiness_check_new_def
      tracker_new_def observe_check_def contains_bytes_sublist finish_if_ready_def Let_def)

lemma ok_ticks:
  "\<exists>su. supervise_tick example_libs [''srv''] example_dir example_spec ok_tick example_sup = (su, Inr Again) \<and>
     map ck_condition (rd_checks (rs_readiness (su_state su))) = [Log ''ok''] \<and>
     map ck_ready_at_ms (rd_checks (rs_readiness (su_state su))) = [Some 3]"
proof -
  let ?a = "\<lparr>ar_chunk = ok_chunk, ar_now = (\<lambda>_. 3), ar_finished_at = 3, ar_recorded_at = 3, ar_outcome = Written\<rparr>"
  obtain t rd where ob: "observe_log (\<lambda>_. 3) 3 Stdout (as_bytes ''ok'') tracker_new waiting_readiness = (t, rd, True)"
    "rd_status rd = RdReady" "map ck_condition (rd_checks rd) = [Log ''ok'']" "map ck_ready_at_ms (rd_checks rd) = [Some 3]"
    using ok_observed by (auto simp: Let_def split: prod.splits)
  have room: "capturable_bytes (su_logs example_sup) ok_chunk = as_bytes ''ok''"
    by (simp add: capturable_bytes_def available_def example_sup_def log_summary_new_def ok_chunk_def
        unat_sat_sub as_bytes_def)
  have "chunk_observed ?a example_sup = (t, rd, True)"
    using ob(1) room by (simp add: example_sup_def ok_chunk_def)
  moreover obtain lg where "chunk_recorded example_libs ?a example_sup = (lg, Inr ())"
    by (simp add: record_log_done Let_def)
  ultimately obtain su1 where rec: "record_chunk example_libs ?a example_sup = (su1, Inr True)"
    and su1: "su1 = example_sup\<lparr>su_tracker := t, su_state := (su_state example_sup)\<lparr>rs_readiness := rd\<rparr>, su_logs := lg\<rparr>"
    by (simp add: record_chunk_eq)
  have drain: "drain_available example_libs [?a] example_sup =
      (su1, Inr \<lparr>dr_readiness_changed = True, dr_saturated = False\<rparr>)"
  proof -
    have chunks: "log_drain_batch_chunks = Suc 63" by (simp add: log_drain_batch_chunks_def)
    have "0 < (63 :: nat)" by simp
    then show ?thesis
      by (simp only: drain_available_def chunks drain_batch.simps rec thenW_simps drain_batch_none simp_thms)
  qed
  let ?st = "(su_state su1)\<lparr>rs_updated_at_ms := 9\<rparr>"
  let ?w = "put_node (state_path example_dir) (Regular (js_write (lb_state example_libs) ?st @ [10])) example_start"
  let ?su2 = "su1\<lparr>su_state := ?st, su_world := ?w, su_last_write := 0\<rparr>"
  have poll: "poll_readiness example_libs example_dir ok_tick True su1 = (?su2, Inr ())"
    using ob(2) by (simp add: poll_readiness_def su1 poll_idle on_state_def stamp_def persist_def in_world_def
        example_sup_def calm_persist [OF example_start_calm] ok_tick_def example_tick_def)
  have calm: "calm ?w" by (rule calm_put [OF example_start_calm])
  have stop: "read_stop_request example_libs example_dir example_spec id ?w = (?w, Inr None)"
    by (rule calm_no_stop [OF calm])
  have "rl_runtime_deadline_at_ms (rs_limits example_run) = None" by (simp add: example_run_def example_state_def)
  then have stopped: "check_stop example_libs example_dir example_spec ok_tick ?su2 = (?su2, Inr ())"
    using stop by (simp add: check_stop_def su1 example_sup_def in_world_def ok_tick_def example_tick_def past_deadline_def)
  have exits: "check_exit example_libs [''srv''] example_dir ok_tick ?su2 = (?su2, Inr Again)"
    by (simp add: check_exit_def ok_tick_def example_tick_def)
  have same: "example_sup\<lparr>su_world := tk_others ok_tick (su_world example_sup)\<rparr> = example_sup"
    by (simp add: ok_tick_def example_tick_def)
  have arrivals: "tk_arrivals ok_tick = [?a]" by (simp add: ok_tick_def)
  have "supervise_tick example_libs [''srv''] example_dir example_spec ok_tick example_sup = (?su2, Inr Again)"
    unfolding supervise_tick_def same arrivals drain thenW_simps drain_outcome.simps poll stopped by (rule exits)
  then show ?thesis using ob(3,4) by (auto simp: su1)
qed

lemma example_evidenced: "evidenced example_libs example_sup"
proof -
  have "get_tail tracker_new s = []" for s by (cases s) (simp_all add: tracker_new_def)
  then have backed: "backed (entry_stream []) tracker_new waiting_readiness"
    by (simp add: backed_def waiting_readiness_def readiness_check_new_def)
  have "log_writer_create raw_digest (Inr ()) 10 = Inr (su_logs example_sup)"
    by (simp add: log_writer_create_def example_sup_def raw_digest_def)
  then have "writer_holds (lb_log example_libs) (su_logs example_sup) []"
    "sm_max_bytes (lw_summary (su_logs example_sup)) = 10"
    using writer_holds_create by blast+
  then have "writer_keeps (lb_log example_libs) (su_logs example_sup) (entry_stream [])"
    by (auto simp: writer_keeps_def)
  moreover have "su_tracker example_sup = tracker_new" "rs_readiness (su_state example_sup) = waiting_readiness"
    by (simp_all add: example_sup_def)
  ultimately show ?thesis using backed unfolding evidenced_def by metis
qed

theorem readiness_evidence_retained_witness:
  "\<exists>su es s. (sup_step example_libs [''srv''] example_dir example_spec)\<^sup>*\<^sup>* (example_sup, False) (su, False) \<and>
     lw_file (su_logs su) = log_file standard_codec (records_of standard_codec es) \<and>
     sublist (as_bytes ''ok'') (entry_stream es s)"
proof -
  obtain su where tick: "supervise_tick example_libs [''srv''] example_dir example_spec ok_tick example_sup = (su, Inr Again)"
    and checks: "map ck_condition (rd_checks (rs_readiness (su_state su))) = [Log ''ok'']"
      "map ck_ready_at_ms (rd_checks (rs_readiness (su_state su))) = [Some 3]"
    using ok_ticks by (elim exE conjE)
  let ?cs = "rd_checks (rs_readiness (su_state su))"
  have "length ?cs = 1" using arg_cong [OF checks(1), of length] by simp
  then obtain c where one: "?cs = [c]" by (metis One_nat_def length_0_conv length_Suc_conv)
  have cs: "ck_condition c = Log ''ok''" using checks(1) unfolding one by simp
  have c: "c \<in> set ?cs" "ck_ready_at_ms c \<noteq> None"
    using checks(2) unfolding one by simp_all
  have step: "(sup_step example_libs [''srv''] example_dir example_spec)\<^sup>*\<^sup>* (example_sup, False) (su, False)"
    using goes_on [OF tick] by (rule r_into_rtranclp)
  have start: "sup_start (example_sup, False)" by (simp add: sup_start_def example_sup_def)
  note ev = example_evidenced
  have log: "lb_log example_libs = standard_codec" by (simp add: example_libs_def)
  obtain es s where es: "lw_file (su_logs su) = log_file standard_codec (records_of standard_codec es)"
    "sublist (as_bytes ''ok'') (entry_stream es s)"
    using readiness_evidence_retained [OF start ev step c(1) cs c(2), unfolded log] by (elim exE conjE)
  show ?thesis by (intro exI conjI) (rule step, rule es(1), rule es(2))
qed

section \<open>Stop requests\<close>

theorem stop_request_race_witness:
  "\<exists>su. check_stop example_libs example_dir example_spec
     (example_tick\<lparr>tk_meanwhile := put_node (stop_path example_dir) (Regular [10])\<rparr>) example_sup =
     (su, Inl (from_io no_entry))"
proof -
  let ?tk = "example_tick\<lparr>tk_meanwhile := put_node (stop_path example_dir) (Regular [10])\<rparr>"
  have "su_stopping example_sup = None" "su_world example_sup = example_start"
    by (simp_all add: example_sup_def)
  moreover have "healthy example_start (stop_path example_dir)" "node_at example_start (stop_path example_dir) = None"
    using example_start_calm by (simp_all add: calm_def healthy_def)
  moreover have "path_exists (put_node (stop_path example_dir) (Regular [10]) example_start) (stop_path example_dir)"
    by (simp add: path_exists_def calm_attempt [OF example_start_calm])
  ultimately show ?thesis using stop_request_race [of example_sup example_dir ?tk example_libs example_spec] by simp
qed

lemma example_stop_read:
  "\<exists>w request. read_stop_request example_libs example_dir example_spec id
     (put_node (stop_path example_dir) (Regular [10]) example_start) = (w, Inr (Some request))"
proof -
  let ?w = "put_node (stop_path example_dir) (Regular [10]) example_start"
  have ok: "attempt ?w op q = Inr ()" for op q by (simp add: calm_attempt [OF example_start_calm])
  let ?request = "\<lparr>sq_schema_version = ''procherd.stop-request.v1'', sq_run_id = rs_run_id example_run,
    sq_owner_token = ''token'', sq_requested_at_ms = 5, sq_grace_ms = 0\<rparr>"
  have "read_json (lb_stop example_libs) ?w (stop_path example_dir) = Inr ?request"
    by (rule read_faultless [of _ _ "[10]"])
      (use example_start_calm in \<open>simp_all add: calm_def example_libs_def example_codec_def\<close>)
  then have "\<exists>w. read_stop_request example_libs example_dir example_spec id ?w = (w, Inr (Some ?request))"
    by (simp add: read_stop_request_def example_spec_def remove_file_def attempt_def example_start_def empty_world_def)
  then show ?thesis by blast
qed

theorem stop_request_authentic_witness:
  "\<exists>w request. read_stop_request example_libs example_dir example_spec id
       (put_node (stop_path example_dir) (Regular [10]) example_start) = (w, Inr (Some request)) \<and>
     sq_owner_token request = sp_owner_token example_spec \<and> node_at w (stop_path example_dir) = None"
proof -
  obtain w request where run: "read_stop_request example_libs example_dir example_spec id
      (put_node (stop_path example_dir) (Regular [10]) example_start) = (w, Inr (Some request))"
    using example_stop_read by blast
  show ?thesis using stop_request_authentic [OF run] run by auto
qed

text \<open>A run that is asked to stop.\<close>

definition stop_tick :: tick where
  "stop_tick = example_tick\<lparr>tk_wait := [Inr None], tk_others := put_node (stop_path example_dir) (Regular [10])\<rparr>"

definition plain_sup :: "bytes sup" where
  "plain_sup = example_sup\<lparr>su_state := example_run\<lparr>rs_status := Running\<rparr>\<rparr>"

lemma stop_read:
  "\<exists>request. read_stop_request example_libs example_dir example_spec id
       (put_node (stop_path example_dir) (Regular [10]) example_start) =
     (remove_node (stop_path example_dir) (put_node (stop_path example_dir) (Regular [10]) example_start), Inr (Some request))"
proof -
  obtain w request where run: "read_stop_request example_libs example_dir example_spec id
      (put_node (stop_path example_dir) (Regular [10]) example_start) = (w, Inr (Some request))"
    using example_stop_read by blast
  then show ?thesis using stop_request_authentic [OF run] by blast
qed

lemma stop_ticks:
  "\<exists>su. supervise_tick example_libs [''srv''] example_dir example_spec stop_tick plain_sup = (su, Inr Again) \<and>
     rs_status (su_state su) = Stopping"
proof -
  let ?w = "put_node (stop_path example_dir) (Regular [10]) example_start"
  let ?v = "remove_node (stop_path example_dir) ?w"
  let ?su = "plain_sup\<lparr>su_world := ?w\<rparr>"
  obtain request where request: "read_stop_request example_libs example_dir example_spec id ?w = (?v, Inr (Some request))"
    using stop_read by blast
  have drain: "drain_available example_libs [] ?su = (?su, Inr \<lparr>dr_readiness_changed = False, dr_saturated = False\<rparr>)"
    by (simp add: drain_available_def log_drain_batch_chunks_def drain_batch_none)
  have "rd_status (rs_readiness (su_state ?su)) \<noteq> RdPending"
    by (simp add: plain_sup_def example_names readiness_state_new_def)
  then have poll: "poll_readiness example_libs example_dir stop_tick False ?su = (?su, Inr ())"
    by (simp add: poll_readiness_def poll_idle on_state_def)
  have calm: "calm ?v"
    using example_start_calm by (auto simp: calm_def stop_path_def state_path_def example_dir_def)
  have plain: "su_stopping ?su = None" "tk_meanwhile stop_tick = id" "tk_signal stop_tick = Inr ()" "lb_windows example_libs = False"
    by (simp_all add: plain_sup_def example_sup_def stop_tick_def example_tick_def example_libs_def)
  have "\<exists>su. check_stop example_libs example_dir example_spec stop_tick ?su = (su, Inr ()) \<and>
      rs_status (su_state su) = Stopping \<and> su_last_write su = 0"
    using request plain
    by (simp add: check_stop_def in_world_def begin_stop_def request_stop_def persist_def send_signal_def on_cleanup_def
        on_state_def Let_def)
      (simp add: plain_sup_def example_sup_def stop_requested_def calm_persist [OF calm])
  then obtain su where stop: "check_stop example_libs example_dir example_spec stop_tick ?su = (su, Inr ())"
    "rs_status (su_state su) = Stopping" "su_last_write su = 0" by blast
  have exits: "check_exit example_libs [''srv''] example_dir stop_tick su = (su, Inr Again)"
    using stop(3) by (simp add: check_exit_def stop_tick_def example_tick_def)
  have start: "plain_sup\<lparr>su_world := tk_others stop_tick (su_world plain_sup)\<rparr> = ?su" "tk_arrivals stop_tick = []"
    by (simp_all add: stop_tick_def plain_sup_def example_sup_def example_tick_def)
  have "supervise_tick example_libs [''srv''] example_dir example_spec stop_tick plain_sup = (su, Inr Again)"
    unfolding supervise_tick_def start drain thenW_simps drain_outcome.simps poll stop(1) by (rule exits)
  then show ?thesis using stop(2) by blast
qed

theorem stop_has_cause_witness:
  "\<exists>su. (sup_step example_libs [''srv''] example_dir example_spec)\<^sup>*\<^sup>* (plain_sup, False) (su, False) \<and>
     rs_status (su_state su) = Stopping \<and>
     (stop_asked example_libs [''srv''] example_dir example_spec plain_sup \<or>
      time_over example_libs [''srv''] example_dir example_spec plain_sup)"
proof -
  obtain su where tick: "supervise_tick example_libs [''srv''] example_dir example_spec stop_tick plain_sup = (su, Inr Again)"
    and status: "rs_status (su_state su) = Stopping" using stop_ticks by blast
  have step: "(sup_step example_libs [''srv''] example_dir example_spec)\<^sup>*\<^sup>* (plain_sup, False) (su, False)"
    using goes_on [OF tick] by (rule r_into_rtranclp)
  have "sup_start (plain_sup, False)" by (simp add: sup_start_def plain_sup_def example_sup_def)
  from stop_has_cause [OF this step] show ?thesis using step status by blast
qed

end
