(* ===== verification/Observed_Runs.thy ===== *)
theory Observed_Runs
  imports Waiting Supervised_Example
begin

text \<open>
  The command line and the supervisor together: what a command sees of a run whose supervisor ends at the
  same time. The supervisor persists a terminal state before it lets go of its lock, and the observation
  reads the state again when it finds the lock free, so the two never meet in an orphaned run.
\<close>

lemma read_json_small:
  "read_json J w p = Inr x \<Longrightarrow>
   \<exists>bs. node_at w p = Some (Regular bs) \<and> length bs \<le> document_limit \<and> js_read J bs = Inr x"
  by (auto simp: read_json_def res_simps ensure_regular_file_Inr open_file_def split: if_splits sum.splits)

lemma terminal_on_disk_undisturbed:
  "terminal_on_disk lb dir w \<Longrightarrow> spares dir f \<Longrightarrow> terminal_on_disk lb dir (f w)"
  by (auto simp: terminal_on_disk_def spares_def undisturbed_def)

text \<open>Whoever reads a terminal document gets a terminal state.\<close>

lemma terminal_state_of:
  assumes "terminal_on_disk lb (root @ [run_id]) w" and "status_readable (lb_state lb)"
    and "state_of lb root w run_id = Inr st"
  shows "is_terminal (rs_status st)"
proof -
  obtain dir where dir: "run_dir (lb_ulid lb) root w run_id = Inr dir"
    and read: "read_json (lb_state lb) w (dir @ [''state.json'']) = Inr st"
    using assms(3) by (auto simp: state_of_def read_state_def res_simps split: if_splits)
  have "dir = root @ [run_id]" using dir by (simp add: run_dir_Inr)
  with read_json_small [OF read] obtain bs where bs: "node_at w (root @ [run_id, ''state.json'']) = Some (Regular bs)"
    "js_read (lb_state lb) bs = Inr st"
    by auto
  from assms(1) obtain st0 where st0: "bs = js_write (lb_state lb) st0 @ [10]" "is_terminal (rs_status st0)"
    using bs(1) by (auto simp: terminal_on_disk_def state_path_def)
  from assms(2) obtain st' where "js_read (lb_state lb) (js_write (lb_state lb) st0 @ [10]) = Inr st'"
    "rs_status st' = rs_status st0"
    unfolding status_readable_def by blast
  with st0 bs(2) show ?thesis by simp
qed

text \<open>
  C6: a run that ends while it is observed is not called orphaned. The supervisor may end at any point
  between the first read of the state and the look at the lock, with success or with any error, also of
  the operations on the run document; the view is then consistent, and terminal unless somebody else holds
  the lock, whatever the first read saw. The one exception is a supervisor that failed and could not
  record it, because reading or writing the run document failed once more: only such a run may be seen as
  orphaned after its supervisor has ended.
\<close>

theorem ended_run_not_orphaned:
  assumes "run_directory (root @ [run_id])" and "whole_document lb (root @ [run_id]) w0"
    and "status_readable (lb_state lb)"
    and "\<forall>tk\<in>set ticks. quiet_tick (root @ [run_id]) tk" and "open_supervisor_lock (root @ [run_id]) w0 = Inr lock"
    and "supervise lb bt ticks failed_at failed_exit_at (root @ [run_id]) w0 = ((w1, sent), r)" and "r \<noteq> Inr Waiting"
    and "spares (root @ [run_id]) f" and "mw_lock mw (mw_first mw w) = f w1" and "spares (root @ [run_id]) (mw_again mw)"
    and "load_view lb root run_id mw w = (w', Inr view)"
  shows "(rv_observed_status view = Consistent \<and>
      (rv_supervisor_active view \<or> is_terminal (rs_status (rv_state view)))) \<or>
    left_unrecorded lb failed_at failed_exit_at (root @ [run_id]) lock w1 r"
proof (cases "left_unrecorded lb failed_at failed_exit_at (root @ [run_id]) lock w1 r")
  case False
  then have "terminal_on_disk lb (root @ [run_id]) w1" using supervisor_leaves_terminal [OF assms(1-7)] by blast
  then have again: "terminal_on_disk lb (root @ [run_id]) (mw_again mw (mw_lock mw (mw_first mw w)))"
    unfolding assms(9)
    by (rule terminal_on_disk_undisturbed [OF terminal_on_disk_undisturbed [OF _ assms(8)] assms(10)])
  have "rv_observed_status view = Consistent \<and> (rv_supervisor_active view \<or> is_terminal (rs_status (rv_state view)))"
    by (rule ended_run_consistent [OF assms(11)]) (use terminal_state_of [OF again assms(3)] in blast)
  then show ?thesis ..
qed simp

text \<open>A supervisor that fails on its specification, observed from before its start until after its end.\<close>

definition broken_libs :: "(128 word, bytes) libs" where
  "broken_libs = example_libs\<lparr>lb_spec := \<lparr>js_write = (\<lambda>_. []), js_read = (\<lambda>_. Inl ''EOF'')\<rparr>\<rparr>"

definition example_failed :: world where
  "example_failed = put_node (state_path example_dir) (Regular [5, 10]) example_start"

lemma example_start_nodes:
  "node_at example_start example_dir = Some Directory"
  "node_at example_start (example_dir @ [''spec.json'']) = Some (Regular [10])"
  "node_at example_start (state_path example_dir) = Some (Regular [0, 10])"
  "node_at example_start (example_dir @ [''supervisor.lock'']) = Some (Regular [])"
  by (simp_all add: node_at_def example_start_def example_dir_def state_path_def)

lemma example_start_attempt: "attempt example_start op p = Inr ()"
  by (simp add: attempt_def example_start_def empty_world_def)

lemma lock_node_frame:
  "node_at (lock_node l w) p = node_at w p" "attempt (lock_node l w) op p = attempt w op p"
  "unlock_node l (put_node p n (lock_node l w)) = put_node p n w"
  by (simp_all add: lock_node_def unlock_node_def node_at_def attempt_def put_node_def)

lemma broken_supervise:
  "\<exists>e. supervise broken_libs example_boot [] 10 10 example_dir example_start = ((example_failed, []), Inl e)"
proof -
  let ?lock = "example_dir @ [''supervisor.lock'']"
  let ?w = "lock_node ?lock example_start"
  have spec: "\<exists>e. load_documents broken_libs example_dir ?w = Inl e"
    by (simp add: load_documents_def read_json_def ensure_regular_file_def symlink_metadata_def open_file_def
        lock_node_frame example_start_attempt example_start_nodes broken_libs_def)
  then obtain e where "load_documents broken_libs example_dir ?w = Inl e" ..
  then have locked: "supervise_locked broken_libs example_boot [] example_dir ?w = ((?w, []), Inl e)"
    by (simp add: supervise_locked_def begin_supervision_def)
  have "read_json (lb_state broken_libs) ?w (state_path example_dir) = Inr (example_run\<lparr>rs_status := Created\<rparr>)"
    by (simp add: read_json_def ensure_regular_file_def symlink_metadata_def open_file_def lock_node_frame
        example_start_attempt example_start_nodes broken_libs_def example_libs_def status_codec_def
        status_of_rank_def document_limit_def)
  moreover have "parent_dir ?w (state_path example_dir) = Inr ()"
    by (simp add: parent_dir_def state_path_def lock_node_frame example_start_nodes)
  ultimately have "mark_supervisor_failed broken_libs 10 10 example_dir e ?w =
      put_node (state_path example_dir) (Regular [5, 10]) ?w"
    by (simp add: mark_supervisor_failed_def persist_state_def atomic_write_json_def lock_node_frame
        example_start_attempt example_start_nodes)
      (simp add: broken_libs_def example_libs_def status_codec_def supervisor_failed_def)
  then show ?thesis
    using locked example_lock by (simp add: supervise_def lock_node_frame example_failed_def)
qed

lemma example_failed_recorded: "\<not> left_unrecorded lb at exit_at example_dir lock example_failed r"
proof
  assume "left_unrecorded lb at exit_at example_dir lock example_failed r"
  then obtain v where v: "example_failed = unlock_node lock v" "out_of_reach example_dir v"
    by (auto simp: left_unrecorded_def)
  have "node_at v p = node_at example_failed p" "w_faults v = w_faults example_failed" for p
    by (simp_all add: v(1)) (simp add: unlock_node_def)
  moreover have "node_at example_failed example_dir = Some Directory"
    "node_at example_failed (state_path example_dir) = Some (Regular [5, 10])" "w_faults example_failed = (\<lambda>_ _. None)"
    using example_start_nodes
    by (simp_all add: example_failed_def state_path_ne) (simp add: example_start_def empty_world_def)
  ultimately show False using v(2) by (simp add: out_of_reach_def healthy_def document_limit_def)
qed

theorem ended_run_not_orphaned_witness:
  "\<exists>mw view. mw_first mw example_start = example_start \<and>
     state_of broken_libs [''srv''] example_start (rs_run_id example_run) = Inr (example_run\<lparr>rs_status := Created\<rparr>) \<and>
     load_view broken_libs [''srv''] (rs_run_id example_run) mw example_start = (example_failed, Inr view) \<and>
     rv_observed_status view = Consistent"
proof -
  let ?id = "rs_run_id example_run" and ?lb = broken_libs
  let ?mw = "\<lparr>mw_first = (\<lambda>w. w), mw_lock = (\<lambda>_. example_failed), mw_again = (\<lambda>w. w)\<rparr>"
  have dir: "[''srv''] @ [?id] = example_dir" by (simp add: example_dir_def)
  have attempts: "attempt example_failed op p = Inr ()" for op p
    by (simp add: example_failed_def example_start_attempt)
  have lb: "lb_ulid ?lb = crockford" "lb_state ?lb = status_codec"
    by (simp_all add: broken_libs_def example_libs_def)
  have valid: "validate_persisted_run_state crockford (example_run\<lparr>rs_status := s\<rparr>) = Inr ()" for s
    using example_run_valid(2) by (auto simp: validate_persisted_run_state_def res_simps split: if_splits)
  have at: "state_of ?lb [''srv''] w ?id = Inr (example_run\<lparr>rs_status := status_of_rank (unat b)\<rparr>)"
    if nodes: "node_at w example_dir = Some Directory" "node_at w (state_path example_dir) = Some (Regular [b, 10])"
      and ok: "\<And>op p. attempt w op p = Inr ()" for w b
  proof -
    have "run_dir crockford [''srv''] w ?id = Inr example_dir"
      using nodes(1) ok example_run_valid(1) by (simp add: run_dir_Inr example_dir_def)
    moreover have "read_json status_codec w (example_dir @ [''state.json'']) =
        Inr (example_run\<lparr>rs_status := status_of_rank (unat b)\<rparr>)"
      using nodes(2) ok
      by (simp add: state_path_def read_json_def ensure_regular_file_def symlink_metadata_def open_file_def
          status_codec_def document_limit_def)
    ultimately show ?thesis by (simp add: state_of_def read_state_def lb valid)
  qed
  have first: "state_of ?lb [''srv''] example_start ?id = Inr (example_run\<lparr>rs_status := Created\<rparr>)"
    using at [OF example_start_nodes(1,3) example_start_attempt] by (simp add: status_of_rank_def)
  have again: "state_of ?lb [''srv''] example_failed ?id = Inr (example_run\<lparr>rs_status := Failed\<rparr>)"
    using at [of example_failed 5] attempts example_start_nodes(1)
    by (simp add: example_failed_def status_of_rank_def state_path_def example_dir_def)
  have "node_at example_failed (example_dir @ [''supervisor.lock'']) = Some (Regular [])"
    "node_at example_failed example_dir = Some Directory" "w_locked example_failed = []"
    using example_start_nodes by (simp_all add: example_failed_def state_path_def) (simp add: example_start_def empty_world_def)
  then have active: "supervisor_active (lb_ulid ?lb) [''srv''] example_failed ?id = Inr False"
  proof -
    assume nodes: "node_at example_failed (example_dir @ [''supervisor.lock'']) = Some (Regular [])"
      "node_at example_failed example_dir = Some Directory" "w_locked example_failed = []"
    have "run_dir crockford [''srv''] example_failed ?id = Inr example_dir"
      using nodes(2) attempts example_run_valid(1) by (simp add: run_dir_Inr example_dir_def)
    then show ?thesis
      using nodes
      by (simp add: supervisor_active_def lb attempts Let_def ensure_regular_file_def symlink_metadata_def
          open_file_def try_lock_def)
  qed
  have view: "load_view ?lb [''srv''] ?id ?mw example_start =
      (example_failed, Inr (run_view_new (example_run\<lparr>rs_status := Failed\<rparr>) False))"
    unfolding load_view_Inr using first again active by (auto simp: Let_def intro!: exI [of _ False])
  obtain e where run: "supervise ?lb example_boot [] 10 10 ([''srv''] @ [?id]) example_start = ((example_failed, []), Inl e)"
    using broken_supervise unfolding dir by blast
  have lock: "open_supervisor_lock ([''srv''] @ [?id]) example_start = Inr (example_dir @ [''supervisor.lock''])"
    unfolding dir by (rule example_lock)
  have "whole_document ?lb ([''srv''] @ [?id]) example_start"
    unfolding dir using example_whole by (simp add: whole_document_def broken_libs_def)
  moreover have "run_directory ([''srv''] @ [?id])" by (simp add: run_directory_def example_run_def)
  moreover have "\<not> left_unrecorded ?lb 10 10 ([''srv''] @ [?id]) (example_dir @ [''supervisor.lock'']) example_failed (Inl e)"
    unfolding dir by (rule example_failed_recorded)
  ultimately have "rv_observed_status (run_view_new (example_run\<lparr>rs_status := Failed\<rparr>) False) = Consistent"
    using ended_run_not_orphaned [OF _ _ _ _ lock run _ _ _ _ view, of "\<lambda>w. w"]
    by (simp add: lb status_codec_readable spares_def undisturbed_refl)
  then show ?thesis using first view by (intro exI [of _ ?mw]) auto
qed

end
