(* ===== verification/Net_Addr.thy ===== *)
theory Net_Addr
  imports Strings
begin

text \<open>
  The network addresses of Rust's standard library, as \<^verbatim>\<open>src/readiness.rs\<close> uses them: the parsers
  of \<open>IpAddr\<close> and \<open>SocketAddr\<close>, their loopback test and their display. A parser takes its value off
  the front of the text. The lemmas say which texts are no address.
\<close>

section \<open>Addresses\<close>

datatype ip_addr = V4 u8 u8 u8 u8 | V6 "u16 list"

record socket_addr =
  sa_ip :: ip_addr
  sa_port :: u16
  sa_scope :: u32

fun is_loopback :: "ip_addr \<Rightarrow> bool" where
  "is_loopback (V4 a b c d) \<longleftrightarrow> a = 127"
| "is_loopback (V6 groups) \<longleftrightarrow> groups = [0, 0, 0, 0, 0, 0, 0, 1]"

definition localhost_v4 :: ip_addr where
  "localhost_v4 = V4 127 0 0 1"

definition localhost_v6 :: ip_addr where
  "localhost_v6 = V6 [0, 0, 0, 0, 0, 0, 0, 1]"

definition socket_addr_new :: "ip_addr \<Rightarrow> u16 \<Rightarrow> socket_addr" where
  "socket_addr_new ip port = \<lparr>sa_ip = ip, sa_port = port, sa_scope = 0\<rparr>"

section \<open>Parsing\<close>

definition digit_of :: "nat \<Rightarrow> char \<Rightarrow> nat option" where
  "digit_of radix c =
     (let n = char_code c;
          d = (if 48 \<le> n \<and> n \<le> 57 then n - 48
               else if 97 \<le> n \<and> n \<le> 122 then n - 87
               else if 65 \<le> n \<and> n \<le> 90 then n - 55 else radix) in
      if d < radix then Some d else None)"

definition read_char :: "char \<Rightarrow> string \<Rightarrow> (unit \<times> string) option" where
  "read_char c s = (case s of [] \<Rightarrow> None | d # r \<Rightarrow> if d = c then Some ((), r) else None)"

definition read_digits :: "nat \<Rightarrow> nat option \<Rightarrow> bool \<Rightarrow> nat \<Rightarrow> string \<Rightarrow> (nat \<times> string) option" where
  "read_digits radix max_digits allow_zero_prefix bound s =
     (let ds = takeWhile (\<lambda>c. digit_of radix c \<noteq> None) s;
          n = foldl (\<lambda>n c. n * radix + the (digit_of radix c)) 0 ds in
      if (case max_digits of None \<Rightarrow> False | Some m \<Rightarrow> m < length ds) then None
      else if bound \<le> n \<or> ds = [] \<or> \<not> allow_zero_prefix \<and> hd ds = CHR ''0'' \<and> 1 < length ds
      then None
      else Some (n, drop (length ds) s))"

text \<open>A parser after another one, on what it left.\<close>

definition then_read ::
  "('a \<times> string) option \<Rightarrow> ('a \<Rightarrow> string \<Rightarrow> ('b \<times> string) option) \<Rightarrow> ('b \<times> string) option" where
  "then_read m f = Option.bind m (\<lambda>(x, r). f x r)"

definition read_octet :: "string \<Rightarrow> (u8 \<times> string) option" where
  "read_octet s = map_option (\<lambda>(n, r). (of_nat n, r)) (read_digits 10 (Some 3) False 256 s)"

definition read_ipv4 :: "string \<Rightarrow> ((u8 \<times> u8 \<times> u8 \<times> u8) \<times> string) option" where
  "read_ipv4 s =
     then_read (read_octet s) (\<lambda>a s. then_read (read_char CHR ''.'' s) (\<lambda>_ s.
     then_read (read_octet s) (\<lambda>b s. then_read (read_char CHR ''.'' s) (\<lambda>_ s.
     then_read (read_octet s) (\<lambda>c s. then_read (read_char CHR ''.'' s) (\<lambda>_ s.
     then_read (read_octet s) (\<lambda>d s. Some ((a, b, c, d), s))))))))"

definition group_of :: "u8 \<Rightarrow> u8 \<Rightarrow> u16" where
  "group_of hi lo = of_nat (unat hi * 256 + unat lo)"

text \<open>At most \<open>limit\<close> groups; the flag tells whether an embedded IPv4 address ended them.\<close>

fun read_groups :: "nat \<Rightarrow> bool \<Rightarrow> string \<Rightarrow> u16 list \<times> bool \<times> string" where
  "read_groups 0 at_start s = ([], False, s)"
| "read_groups (Suc limit) at_start s =
     (let at = (if at_start then Some ((), s) else read_char CHR '':'' s) in
      case (if 0 < limit then then_read at (\<lambda>_. read_ipv4) else None) of
        Some ((a, b, c, d), r) \<Rightarrow> ([group_of a b, group_of c d], True, r)
      | None \<Rightarrow>
          (case then_read at (\<lambda>_. read_digits 16 (Some 4) True 65536) of
             None \<Rightarrow> ([], False, s)
           | Some (g, r) \<Rightarrow>
               (let (groups, v4, r) = read_groups limit False r in (of_nat g # groups, v4, r))))"

definition read_ipv6 :: "string \<Rightarrow> (u16 list \<times> string) option" where
  "read_ipv6 s =
     (let (head, head_v4, r) = read_groups 8 True s in
      if length head = 8 then Some (head, r)
      else if head_v4 then None
      else then_read (read_char CHR '':'' r) (\<lambda>_ r. then_read (read_char CHR '':'' r) (\<lambda>_ r.
        let (tail, _, r) = read_groups (8 - (length head + 1)) True r in
        Some (head @ replicate (8 - length head - length tail) 0 @ tail, r))))"

definition whole :: "('a \<times> string) option \<Rightarrow> 'a option" where
  "whole m = (case m of Some (x, []) \<Rightarrow> Some x | _ \<Rightarrow> None)"

definition read_ip :: "string \<Rightarrow> (ip_addr \<times> string) option" where
  "read_ip s =
     (case read_ipv4 s of
        Some ((a, b, c, d), r) \<Rightarrow> Some (V4 a b c d, r)
      | None \<Rightarrow> map_option (\<lambda>(groups, r). (V6 groups, r)) (read_ipv6 s))"

definition parse_ip_addr :: "string \<Rightarrow> ip_addr option" where
  "parse_ip_addr s = whole (read_ip s)"

definition read_port :: "string \<Rightarrow> (u16 \<times> string) option" where
  "read_port s =
     then_read (read_char CHR '':'' s) (\<lambda>_ s.
       map_option (\<lambda>(n, r). (of_nat n, r)) (read_digits 10 None True 65536 s))"

definition read_socket_v4 :: "string \<Rightarrow> (socket_addr \<times> string) option" where
  "read_socket_v4 s =
     then_read (read_ipv4 s) (\<lambda>(a, b, c, d) s.
     then_read (read_port s) (\<lambda>port s. Some (socket_addr_new (V4 a b c d) port, s)))"

definition read_scope :: "string \<Rightarrow> u32 \<times> string" where
  "read_scope s =
     (case then_read (read_char CHR ''%'' s) (\<lambda>_. read_digits 10 None True (2 ^ 32)) of
        None \<Rightarrow> (0, s)
      | Some (n, r) \<Rightarrow> (of_nat n, r))"

definition read_socket_v6 :: "string \<Rightarrow> (socket_addr \<times> string) option" where
  "read_socket_v6 s =
     then_read (read_char CHR ''['' s) (\<lambda>_ s.
     then_read (read_ipv6 s) (\<lambda>groups s.
     let (scope, s) = read_scope s in
     then_read (read_char CHR '']'' s) (\<lambda>_ s.
     then_read (read_port s) (\<lambda>port s.
       Some (\<lparr>sa_ip = V6 groups, sa_port = port, sa_scope = scope\<rparr>, s)))))"

definition parse_socket_addr :: "string \<Rightarrow> socket_addr option" where
  "parse_socket_addr s =
     whole (case read_socket_v4 s of Some x \<Rightarrow> Some x | None \<Rightarrow> read_socket_v6 s)"

section \<open>Display\<close>

fun join :: "string \<Rightarrow> string list \<Rightarrow> string" where
  "join sep [] = []"
| "join sep [s] = s"
| "join sep (s # ss) = s @ sep @ join sep ss"

fun show_hex :: "nat \<Rightarrow> string" where
  "show_hex n = (if n < 16 then [''0123456789abcdef'' ! n]
     else show_hex (n div 16) @ [''0123456789abcdef'' ! (n mod 16)])"

declare show_hex.simps [simp del]

text \<open>The first longest run of zero groups: its start and its length.\<close>

fun zero_run :: "nat \<Rightarrow> nat \<times> nat \<Rightarrow> nat \<times> nat \<Rightarrow> u16 list \<Rightarrow> nat \<times> nat" where
  "zero_run i longest current [] = longest"
| "zero_run i longest current (g # gs) =
     (if g = 0 then
        (let current = (if snd current = 0 then i else fst current, snd current + 1) in
         zero_run (i + 1) (if snd longest < snd current then current else longest) current gs)
      else zero_run (i + 1) longest (0, 0) gs)"

definition show_groups :: "u16 list \<Rightarrow> string" where
  "show_groups groups = join '':'' (map (\<lambda>g. show_hex (unat g)) groups)"

fun show_ip_addr :: "ip_addr \<Rightarrow> string" where
  "show_ip_addr (V4 a b c d) = join ''.'' (map show_word [a, b, c, d])"
| "show_ip_addr (V6 groups) =
     (if length groups = 8 \<and> take 6 groups = [0, 0, 0, 0, 0, 0xFFFF]
      then ''::ffff:'' @ join ''.'' (map show_nat
        [unat (groups ! 6) div 256, unat (groups ! 6) mod 256, unat (groups ! 7) div 256, unat (groups ! 7) mod 256])
      else
        (let (start, len) = zero_run 0 (0, 0) (0, 0) groups in
         if 1 < len then show_groups (take start groups) @ ''::'' @ show_groups (drop (start + len) groups)
         else show_groups groups))"

definition show_socket_addr :: "socket_addr \<Rightarrow> string" where
  "show_socket_addr a =
     (case sa_ip a of
        V4 _ _ _ _ \<Rightarrow> show_ip_addr (sa_ip a) @ '':'' @ show_word (sa_port a)
      | V6 _ \<Rightarrow> ''['' @ show_ip_addr (sa_ip a) @
          (if sa_scope a = 0 then [] else ''%'' @ show_word (sa_scope a)) @ '']:'' @ show_word (sa_port a))"

section \<open>Facts about the parsers\<close>

lemma loopback_localhost [simp]: "is_loopback localhost_v4" "is_loopback localhost_v6"
  by (simp_all add: localhost_v4_def localhost_v6_def)

lemma sa_ip_new [simp]: "sa_ip (socket_addr_new ip port) = ip" "sa_port (socket_addr_new ip port) = port"
  by (simp_all add: socket_addr_new_def)

lemma read_digits_head:
  "digit_of radix c = None \<Longrightarrow> read_digits radix m z b (c # s) = None"
  by (simp add: read_digits_def Let_def)

lemma read_ipv4_head: "digit_of 10 c = None \<Longrightarrow> read_ipv4 (c # s) = None"
  by (simp add: read_ipv4_def read_octet_def read_digits_head then_read_def)

lemma read_groups_head:
  "digit_of 10 c = None \<Longrightarrow> digit_of 16 c = None \<Longrightarrow> read_groups n True (c # s) = ([], False, c # s)"
  by (cases n) (simp_all add: read_ipv4_head read_digits_head then_read_def Let_def)

text \<open>A text that starts neither like a number nor with a colon is no IP address.\<close>

lemma parse_ip_addr_head:
  assumes "digit_of 10 c = None" and "digit_of 16 c = None" and "c \<noteq> CHR '':''"
  shows "parse_ip_addr (c # s) = None"
  using assms
  by (simp add: parse_ip_addr_def read_ip_def read_ipv4_head read_ipv6_def read_groups_head whole_def
      then_read_def read_char_def)

text \<open>An address has eight groups.\<close>

lemma length_read_groups: "length (fst (read_groups n start s)) \<le> n"
proof (induction n start s rule: read_groups.induct)
  case (2 limit start s)
  then show ?case
    by (auto simp: Let_def split: option.splits prod.splits if_splits)
qed simp

lemma length_read_ipv6: "read_ipv6 s = Some (groups, r) \<Longrightarrow> length groups = 8"
proof -
  assume s: "read_ipv6 s = Some (groups, r)"
  obtain h v q where h: "read_groups 8 True s = (h, v, q)" by (metis prod_cases3)
  have "length h \<le> 8" using length_read_groups [of 8 True s] h by simp
  show ?thesis
  proof (cases "length h = 8")
    case False
    then obtain q' where "groups = h @ replicate (8 - length h - length (fst (read_groups (8 - (length h + 1)) True q'))) 0
        @ fst (read_groups (8 - (length h + 1)) True q')"
      using s h
      by (auto simp: read_ipv6_def then_read_def Let_def bind_eq_Some_conv case_prod_unfold split: if_splits)
    then show ?thesis
      using False \<open>length h \<le> 8\<close> length_read_groups [of "8 - (length h + 1)" True q'] by simp
  qed (use s h in \<open>simp add: read_ipv6_def\<close>)
qed

end
