(* ===== verification/Readiness_Conditions.thy ===== *)
theory Readiness_Conditions
  imports Readiness_Tracker Net_Addr
begin

text \<open>
  The readiness conditions of \<^verbatim>\<open>src/readiness.rs\<close>: how they are built from the command line, and
  the probes that test them. The URL library is the parameter \<open>parse_url\<close>, with a record of what
  the code reads of a URL; the network and the file system are the arguments of the probes: which
  addresses accept a connection, what a connection takes and delivers, the length of a regular file.
  Paths are Unix paths. The lemmas show that only loopback addresses are accepted and probed, and
  that the HTTP status does not depend on how the response is cut into reads.
\<close>

section \<open>Addresses and URLs\<close>

record url =
  ur_scheme :: string
  ur_username :: string
  ur_password :: "string option"
  ur_host :: "string option"
  ur_port :: "u16 option"
  ur_port_or_known_default :: "u16 option"
  ur_path :: string
  ur_query :: "string option"

type_synonym url_parser = "string \<Rightarrow> string + url"

definition local_socket_addresses :: "string \<Rightarrow> socket_addr list option" where
  "local_socket_addresses s =
     (case parse_socket_addr s of
        Some address \<Rightarrow> if is_loopback (sa_ip address) then Some [address] else None
      | None \<Rightarrow>
          Option.bind (Option.bind (strip_prefix ''localhost:'' s) parse_u16) (\<lambda>port.
            Some [socket_addr_new localhost_v4 port, socket_addr_new localhost_v6 port]))"

definition http_host_error :: app_error where
  "http_host_error = usage ''readiness HTTP host must be localhost or a loopback IP address''"

definition validate_http_url :: "url_parser \<Rightarrow> string \<Rightarrow> app_error + url \<times> socket_addr list" where
  "validate_http_url parse_url s =
     bindE (map_err (\<lambda>e. usage (''invalid readiness HTTP URL: '' @ e)) (parse_url s)) (\<lambda>url.
       if ur_scheme url \<noteq> ''http''
       then Inl (usage ''version 0.1 readiness HTTP URLs must use http://'')
       else if ur_username url \<noteq> [] \<or> ur_password url \<noteq> None
       then Inl (usage ''readiness HTTP URLs must not contain credentials'')
       else
         bindE (ok_or (ur_host url) (usage ''readiness HTTP URL has no host'')) (\<lambda>host.
         bindE (ok_or (ur_port_or_known_default url) (usage ''readiness HTTP URL has no port'')) (\<lambda>port.
         bindE (if map to_ascii_upper host = ''LOCALHOST''
                then Inr [socket_addr_new localhost_v4 port, socket_addr_new localhost_v6 port]
                else
                  bindE (ok_or (parse_ip_addr host) http_host_error) (\<lambda>ip.
                    if \<not> is_loopback ip then Inl http_host_error
                    else Inr [socket_addr_new ip port]))
           (\<lambda>addresses. Inr (url, addresses)))))"

section \<open>Building the conditions\<close>

definition max_conditions :: nat where
  "max_conditions = 16"

text \<open>The components of a Unix path are the parts between the slashes.\<close>

fun path_parts :: "string \<Rightarrow> string list" where
  "path_parts [] = [[]]"
| "path_parts (c # s) =
     (if c = CHR ''/'' then [] # path_parts s
      else (c # hd (path_parts s)) # tl (path_parts s))"

definition is_absolute :: "string \<Rightarrow> bool" where
  "is_absolute p \<longleftrightarrow> p \<noteq> [] \<and> hd p = CHR ''/''"

definition join_path :: "string \<Rightarrow> string \<Rightarrow> string" where
  "join_path dir p =
     (if dir = [] \<or> List.last dir = CHR ''/'' then dir @ p else dir @ ''/'' @ p)"

definition readiness_path :: "string \<Rightarrow> string \<Rightarrow> app_error + string" where
  "readiness_path working_directory p =
     (if p = [] then Inl (usage ''readiness file path must not be empty'')
      else if ''..'' \<in> set (path_parts p) \<and> \<not> is_absolute p
      then Inl (usage ''relative readiness file paths must not contain parent traversal'')
      else Inr (if is_absolute p then p else join_path working_directory p))"

definition tcp_condition :: "string \<Rightarrow> app_error + readiness_condition" where
  "tcp_condition address =
     bindE (ok_or (local_socket_addresses address)
       (usage ''readiness TCP address must be localhost:PORT or a loopback IP socket address''))
       (\<lambda>_. Inr (Tcp address))"

definition log_condition :: "string \<Rightarrow> app_error + readiness_condition" where
  "log_condition literal =
     (if literal = [] \<or> max_log_literal_bytes < length literal
      then Inl (usage (''readiness log literals must contain 1 to '' @ show_nat max_log_literal_bytes @ '' UTF-8 bytes''))
      else Inr (Log literal))"

definition port_condition :: "string list \<Rightarrow> string \<Rightarrow> app_error + readiness_condition" where
  "port_condition leased_ports name =
     (if name \<notin> set leased_ports
      then Inl (usage (''readiness port '' @ debug_str name @ '' does not name a requested port lease''))
      else Inr (PortLease name))"

definition build_conditions ::
  "url_parser \<Rightarrow> string list \<Rightarrow> string list \<Rightarrow> string list \<Rightarrow> string list \<Rightarrow> string list \<Rightarrow> string list \<Rightarrow>
   string \<Rightarrow> app_error + readiness_condition list" where
  "build_conditions parse_url tcp http files log_literals ready_ports leased_ports working_directory =
     (if max_conditions < length tcp + length http + length files + length log_literals + length ready_ports
      then Inl (usage (''at most '' @ show_nat max_conditions @ '' readiness conditions may be configured''))
      else
        bindE (mapE tcp_condition tcp) (\<lambda>tcp.
        bindE (mapE (\<lambda>s. bindE (validate_http_url parse_url s) (\<lambda>_. Inr (Http s))) http) (\<lambda>http.
        bindE (mapE (\<lambda>p. bindE (readiness_path working_directory p) (\<lambda>p. Inr (File p))) files) (\<lambda>files.
        bindE (mapE log_condition log_literals) (\<lambda>logs.
        bindE (mapE (port_condition leased_ports) ready_ports) (\<lambda>ports.
          Inr (tcp @ http @ files @ logs @ ports)))))))"

section \<open>Probes\<close>

definition probe_tcp :: "(socket_addr \<Rightarrow> bool) \<Rightarrow> string \<Rightarrow> string option" where
  "probe_tcp connects s =
     Option.bind (local_socket_addresses s) (\<lambda>addresses.
       map_option (\<lambda>a. ''connected to '' @ show_socket_addr a) (find connects addresses))"

text \<open>UTF-8, as \<open>str::from_utf8\<close> checks it.\<close>

definition in_range :: "nat \<Rightarrow> nat \<Rightarrow> u8 \<Rightarrow> bool" where
  "in_range lo hi b \<longleftrightarrow> lo \<le> unat b \<and> unat b \<le> hi"

fun utf8_valid :: "bytes \<Rightarrow> bool" where
  "utf8_valid [] = True"
| "utf8_valid (a # r) =
     (if in_range 0 0x7F a then utf8_valid r
      else if in_range 0xC2 0xDF a
      then 1 \<le> length r \<and> in_range 0x80 0xBF (r ! 0) \<and> utf8_valid (drop 1 r)
      else if in_range 0xE0 0xEF a
      then 2 \<le> length r \<and>
        in_range (if unat a = 0xE0 then 0xA0 else 0x80) (if unat a = 0xED then 0x9F else 0xBF) (r ! 0) \<and>
        in_range 0x80 0xBF (r ! 1) \<and> utf8_valid (drop 2 r)
      else if in_range 0xF0 0xF4 a
      then 3 \<le> length r \<and>
        in_range (if unat a = 0xF0 then 0x90 else 0x80) (if unat a = 0xF4 then 0x8F else 0xBF) (r ! 0) \<and>
        in_range 0x80 0xBF (r ! 1) \<and> in_range 0x80 0xBF (r ! 2) \<and> utf8_valid (drop 3 r)
      else False)"

definition is_ascii_whitespace :: "char \<Rightarrow> bool" where
  "is_ascii_whitespace c \<longleftrightarrow> char_code c \<in> {9, 10, 12, 13, 32}"

function split_ascii_whitespace :: "string \<Rightarrow> string list" where
  "split_ascii_whitespace s =
     (let s = dropWhile is_ascii_whitespace s in
      if s = [] then []
      else takeWhile (\<lambda>c. \<not> is_ascii_whitespace c) s
             # split_ascii_whitespace (dropWhile (\<lambda>c. \<not> is_ascii_whitespace c) s))"
  by pat_completeness auto
termination
proof (relation "measure length", goal_cases)
  case (2 s t)
  then obtain c r where t: "t = c # r" "\<not> is_ascii_whitespace c"
    by (metis hd_dropWhile list.exhaust list.sel(1))
  have "length (dropWhile (\<lambda>c. \<not> is_ascii_whitespace c) t) \<le> length r"
    using t by (simp add: length_dropWhile_le)
  also have "\<dots> < length t" by (simp add: t)
  also have "length t \<le> length s" unfolding 2(1) by (rule length_dropWhile_le)
  finally show ?case by simp
qed simp

declare split_ascii_whitespace.simps [simp del]

text \<open>
  The reads of a connection: \<open>None\<close> is a read that fails, such as one that times out, and no bytes
  are the end of the response. What a read does not take is left for the next one.
\<close>

definition max_http_status_bytes :: nat where
  "max_http_status_bytes = 1024"

function read_response :: "bytes \<Rightarrow> bytes option list \<Rightarrow> bytes option" where
  "read_response response reads =
     (if length response < max_http_status_bytes then
        (case reads of
           [] \<Rightarrow> None
         | None # _ \<Rightarrow> None
         | Some bs # later \<Rightarrow>
             (let limit = min (max_http_status_bytes - length response) 128;
                  got = take limit bs in
              if got = [] then Some response
              else if 10 \<in> set (response @ got) then Some (response @ got)
              else read_response (response @ got)
                (if drop limit bs = [] then later else Some (drop limit bs) # later)))
      else Some response)"
  by pat_completeness auto
termination
  by (relation "measure (\<lambda>(response, _). max_http_status_bytes - length response)")
    (auto simp: max_http_status_bytes_def neq_Nil_conv)

declare read_response.simps [simp del]

definition status_of :: "bytes \<Rightarrow> u16 option" where
  "status_of response =
     (let line = takeWhile (\<lambda>b. b \<noteq> 10) response in
      if \<not> utf8_valid line then None
      else
        (case split_ascii_whitespace (of_bytes line) of
           [] \<Rightarrow> None
         | protocol # later \<Rightarrow>
             if strip_prefix ''HTTP/1.'' protocol = None then None
             else (case later of [] \<Rightarrow> None | code # _ \<Rightarrow> parse_u16 code)))"

definition read_http_status :: "bytes option list \<Rightarrow> u16 option" where
  "read_http_status reads = Option.bind (read_response [] reads) status_of"

text \<open>A connection: whether it takes the request, and its reads.\<close>

record connection =
  cn_accepts :: "string \<Rightarrow> bool"
  cn_reads :: "bytes option list"

definition http_request :: "url \<Rightarrow> string \<Rightarrow> string" where
  "http_request url host =
     (let target = (if ur_path url = [] then ''/'' else ur_path url)
            @ (case ur_query url of None \<Rightarrow> [] | Some query \<Rightarrow> ''?'' @ query);
          host = (if CHR '':'' \<in> set host then ''['' @ host @ '']'' else host);
          host_header = (case ur_port url of
              Some port \<Rightarrow> if port \<noteq> 80 then host @ '':'' @ show_word port else host
            | None \<Rightarrow> host);
          crlf = [CHR 0x0D, CHR 0x0A] in
      ''GET '' @ target @ '' HTTP/1.1'' @ crlf @ ''Host: '' @ host_header @ crlf @ ''Connection: close''
        @ crlf @ crlf)"

fun probe_addresses ::
  "(socket_addr \<Rightarrow> connection option) \<Rightarrow> string \<Rightarrow> url \<Rightarrow> socket_addr list \<Rightarrow> string option" where
  "probe_addresses net s url [] = None"
| "probe_addresses net s url (address # addresses) =
     (case net address of
        None \<Rightarrow> probe_addresses net s url addresses
      | Some conn \<Rightarrow>
          (case ur_host url of
             None \<Rightarrow> None
           | Some host \<Rightarrow>
               if \<not> cn_accepts conn (http_request url host) then probe_addresses net s url addresses
               else
                 (case read_http_status (cn_reads conn) of
                    None \<Rightarrow> probe_addresses net s url addresses
                  | Some code \<Rightarrow>
                      if 200 \<le> code \<and> code < 400 then Some (''HTTP '' @ show_word code @ '' from '' @ s)
                      else probe_addresses net s url addresses)))"

definition probe_http ::
  "url_parser \<Rightarrow> (socket_addr \<Rightarrow> connection option) \<Rightarrow> string \<Rightarrow> string option" where
  "probe_http parse_url net s =
     (case validate_http_url parse_url s of
        Inl _ \<Rightarrow> None
      | Inr (url, addresses) \<Rightarrow> probe_addresses net s url addresses)"

definition probe_file :: "(string \<Rightarrow> nat option) \<Rightarrow> string \<Rightarrow> string option" where
  "probe_file regular_length p =
     map_option (\<lambda>n. ''regular file exists ('' @ show_nat n @ '' bytes)'') (regular_length p)"

fun probe_condition ::
  "url_parser \<Rightarrow> (socket_addr \<Rightarrow> connection option) \<Rightarrow> (string \<Rightarrow> nat option) \<Rightarrow>
   readiness_condition \<Rightarrow> string option" where
  "probe_condition parse_url net regular_length (Tcp address) = probe_tcp (\<lambda>a. net a \<noteq> None) address"
| "probe_condition parse_url net regular_length (Http s) = probe_http parse_url net s"
| "probe_condition parse_url net regular_length (File p) = probe_file regular_length p"
| "probe_condition parse_url net regular_length (Log _) = None"
| "probe_condition parse_url net regular_length (PortLease _) = None"

section \<open>What is accepted is local\<close>

lemma local_addresses_loopback:
  "local_socket_addresses s = Some as \<Longrightarrow> a \<in> set as \<Longrightarrow> is_loopback (sa_ip a)"
  by (auto simp: local_socket_addresses_def bind_eq_Some_conv split: option.splits if_splits)

lemma http_addresses_loopback:
  "validate_http_url parse_url s = Inr (url, as) \<Longrightarrow> a \<in> set as \<Longrightarrow> is_loopback (sa_ip a)"
  by (auto simp: validate_http_url_def res_simps split: if_splits)

lemma http_url_plain:
  "validate_http_url parse_url s = Inr (url, as) \<Longrightarrow>
   parse_url s = Inr url \<and> ur_scheme url = ''http'' \<and> ur_username url = [] \<and> ur_password url = None"
  by (auto simp: validate_http_url_def res_simps split: if_splits)

text \<open>A condition that may be configured: what it names is local and bounded.\<close>

fun admissible :: "url_parser \<Rightarrow> string list \<Rightarrow> string \<Rightarrow> readiness_condition \<Rightarrow> bool" where
  "admissible parse_url leased dir (Tcp s) \<longleftrightarrow>
     (\<exists>as. local_socket_addresses s = Some as \<and> (\<forall>a\<in>set as. is_loopback (sa_ip a)))"
| "admissible parse_url leased dir (Http s) \<longleftrightarrow>
     (\<exists>url as. validate_http_url parse_url s = Inr (url, as) \<and> ur_scheme url = ''http'' \<and>
        ur_username url = [] \<and> ur_password url = None \<and> (\<forall>a\<in>set as. is_loopback (sa_ip a)))"
| "admissible parse_url leased dir (File p) \<longleftrightarrow>
     is_absolute p \<or> (\<exists>q. p = join_path dir q \<and> q \<noteq> [] \<and> \<not> is_absolute q \<and> ''..'' \<notin> set (path_parts q))"
| "admissible parse_url leased dir (Log literal) \<longleftrightarrow>
     literal \<noteq> [] \<and> length literal \<le> max_log_literal_bytes"
| "admissible parse_url leased dir (PortLease name) \<longleftrightarrow> name \<in> set leased"

lemma mapE_all:
  "mapE f xs = Inr ys \<Longrightarrow> (\<And>x y. f x = Inr y \<Longrightarrow> P y) \<Longrightarrow> list_all P ys"
  by (induction xs arbitrary: ys) (auto simp: res_simps)

lemma mapE_map: "mapE f xs = Inr ys \<Longrightarrow> (\<And>x y. f x = Inr y \<Longrightarrow> y = g x) \<Longrightarrow> ys = map g xs"
  by (induction xs arbitrary: ys) (auto simp: res_simps)

lemma condition_admissible:
  "tcp_condition s = Inr c \<Longrightarrow> admissible parse_url leased dir c \<and> c = Tcp s"
  "bindE (validate_http_url parse_url s) (\<lambda>_. Inr (Http s)) = Inr c \<Longrightarrow>
     admissible parse_url leased dir c \<and> c = Http s"
  "bindE (readiness_path dir s) (\<lambda>p. Inr (File p)) = Inr c \<Longrightarrow>
     admissible parse_url leased dir c \<and> c = File (if is_absolute s then s else join_path dir s)"
  "log_condition s = Inr c \<Longrightarrow> admissible parse_url leased dir c \<and> c = Log s"
  "port_condition leased s = Inr c \<Longrightarrow> admissible parse_url leased dir c \<and> c = PortLease s"
  by (auto simp: tcp_condition_def res_simps local_addresses_loopback log_condition_def port_condition_def
      readiness_path_def split: if_splits dest: http_url_plain http_addresses_loopback)

lemma built_conditions:
  assumes "build_conditions parse_url tcp http files literals ports leased dir = Inr cs"
  shows "cs = map Tcp tcp @ map Http http
      @ map (\<lambda>p. File (if is_absolute p then p else join_path dir p)) files
      @ map Log literals @ map PortLease ports \<and>
    list_all (admissible parse_url leased dir) cs \<and> length cs \<le> 16"
proof -
  note ok = condition_admissible [where parse_url = parse_url and leased = leased and dir = dir]
  obtain c1 c2 c3 c4 c5 where
    c: "mapE tcp_condition tcp = Inr c1"
      "mapE (\<lambda>s. bindE (validate_http_url parse_url s) (\<lambda>_. Inr (Http s))) http = Inr c2"
      "mapE (\<lambda>p. bindE (readiness_path dir p) (\<lambda>p. Inr (File p))) files = Inr c3"
      "mapE log_condition literals = Inr c4" "mapE (port_condition leased) ports = Inr c5"
    and cs: "cs = c1 @ c2 @ c3 @ c4 @ c5"
    and count: "length tcp + length http + length files + length literals + length ports \<le> max_conditions"
  proof -
    show thesis
    proof (cases "max_conditions < length tcp + length http + length files + length literals + length ports")
      case False
      show thesis
        using assms unfolding build_conditions_def if_not_P [OF False] bindE_Inr sum.inject
        by (elim exE conjE) (rule that, (assumption | rule sym | simp add: False [unfolded not_less])+)
    qed (use assms in \<open>simp add: build_conditions_def\<close>)
  qed
  have eq: "c1 = map Tcp tcp" "c2 = map Http http"
    "c3 = map (\<lambda>p. File (if is_absolute p then p else join_path dir p)) files"
    "c4 = map Log literals" "c5 = map PortLease ports"
    by (rule mapE_map [OF c(1)], erule ok(1) [THEN conjunct2])
      (rule mapE_map [OF c(2)], erule ok(2) [THEN conjunct2],
       rule mapE_map [OF c(3)], erule ok(3) [THEN conjunct2],
       rule mapE_map [OF c(4)], erule ok(4) [THEN conjunct2],
       rule mapE_map [OF c(5)], erule ok(5) [THEN conjunct2])
  have "list_all (admissible parse_url leased dir) c1" "list_all (admissible parse_url leased dir) c2"
    "list_all (admissible parse_url leased dir) c3" "list_all (admissible parse_url leased dir) c4"
    "list_all (admissible parse_url leased dir) c5"
    by (rule mapE_all [OF c(1)], erule ok(1) [THEN conjunct1])
      (rule mapE_all [OF c(2)], erule ok(2) [THEN conjunct1],
       rule mapE_all [OF c(3)], erule ok(3) [THEN conjunct1],
       rule mapE_all [OF c(4)], erule ok(4) [THEN conjunct1],
       rule mapE_all [OF c(5)], erule ok(5) [THEN conjunct1])
  then show ?thesis using count by (simp add: cs eq max_conditions_def)
qed

text \<open>
  C38: the conditions of a run are the ones that were asked for, in the order of the options, and every
  one is admissible: a TCP or HTTP condition resolves to loopback addresses only and its URL has no
  credentials, a relative file stays in the working directory, a log literal has 1 to 1024 bytes, a
  port is one the run leases. There are at most 16.
\<close>

theorem conditions_admissible:
  assumes "build_conditions parse_url tcp http files literals ports leased dir = Inr cs"
  shows "cs = map Tcp tcp @ map Http http
      @ map (\<lambda>p. File (if is_absolute p then p else join_path dir p)) files
      @ map Log literals @ map PortLease ports \<and>
    list_all (admissible parse_url leased dir) cs \<and> length cs \<le> 16"
  by (rule built_conditions [OF assms])

theorem conditions_admissible_witness:
  "\<exists>cs. build_conditions (\<lambda>_. Inl []) [''localhost:80''] [] [''ok''] [''up''] [''web''] [''web''] ''/srv'' = Inr cs \<and>
     cs = [Tcp ''localhost:80'', File ''/srv/ok'', Log ''up'', PortLease ''web'']"
proof -
  have "local_socket_addresses ''localhost:80'' \<noteq> None"
    by (simp add: local_socket_addresses_def parse_socket_addr_def read_socket_v4_def read_socket_v6_def read_ipv4_def
        read_octet_def read_digits_def then_read_def read_char_def digit_of_def char_code_def whole_def
        parse_u16_def parse_unsigned_def unsigned_digits_def is_ascii_digit_def digits_value_def)
  then have tcp: "tcp_condition ''localhost:80'' = Inr (Tcp ''localhost:80'')"
    by (auto simp: tcp_condition_def)
  have "\<exists>cs. build_conditions (\<lambda>_. Inl []) [''localhost:80''] [] [''ok''] [''up''] [''web''] [''web''] ''/srv'' = Inr cs"
    by (simp add: build_conditions_def max_conditions_def tcp readiness_path_def is_absolute_def
        log_condition_def max_log_literal_bytes_def port_condition_def)
  then obtain cs where cs:
    "build_conditions (\<lambda>_. Inl []) [''localhost:80''] [] [''ok''] [''up''] [''web''] [''web''] ''/srv'' = Inr cs" ..
  show ?thesis
    using cs conditions_admissible [OF cs] by (auto simp: is_absolute_def join_path_def)
qed

section \<open>Probes stay local\<close>

lemma find_cong_set: "(\<And>x. x \<in> set xs \<Longrightarrow> P x = Q x) \<Longrightarrow> find P xs = find Q xs"
  by (induction xs) auto

lemma probe_addresses_cong:
  "(\<And>a. a \<in> set as \<Longrightarrow> net a = net' a) \<Longrightarrow> probe_addresses net s url as = probe_addresses net' s url as"
  by (induction as) (auto split: option.splits)

text \<open>
  C39: no probe leaves the machine. Whatever condition a run document holds, the outcome of its probe
  depends on the loopback endpoints only: two networks that agree on them give the same outcome.
\<close>

theorem probes_stay_local:
  assumes "\<And>a. is_loopback (sa_ip a) \<Longrightarrow> net a = net' a"
  shows "probe_condition parse_url net files c = probe_condition parse_url net' files c"
proof (cases c)
  case (Tcp s)
  have "find (\<lambda>a. net a \<noteq> None) as = find (\<lambda>a. net' a \<noteq> None) as" if "local_socket_addresses s = Some as" for as
    by (rule find_cong_set) (use that assms local_addresses_loopback in auto)
  then show ?thesis
    by (cases "local_socket_addresses s") (simp_all add: Tcp probe_tcp_def)
next
  case (Http s)
  have "probe_addresses net s url as = probe_addresses net' s url as"
    if "validate_http_url parse_url s = Inr (url, as)" for url as
    by (rule probe_addresses_cong) (use that assms http_addresses_loopback in blast)
  then show ?thesis by (auto simp: Http probe_http_def split: sum.splits)
qed simp_all

theorem probes_stay_local_witness:
  "probe_condition (\<lambda>_. Inl []) (\<lambda>a. if is_loopback (sa_ip a) then None else Some \<lparr>cn_accepts = \<lambda>_. True, cn_reads = []\<rparr>)
     (\<lambda>_. None) (Tcp ''8.8.8.8:53'') =
   probe_condition (\<lambda>_. Inl []) (\<lambda>_. None) (\<lambda>_. None) (Tcp ''8.8.8.8:53'')"
  by (rule probes_stay_local) simp

section \<open>IPv6 hosts\<close>

text \<open>
  A URL whose host is an IPv6 address is refused, also the loopback address \<open>::1\<close>: the URL library
  gives such a host between brackets (the documentation of \<open>host_str\<close> says so), and the parser of an
  IP address does not take brackets. The error says that the host is no loopback address.
\<close>

theorem ipv6_url_refused:
  assumes "parse_url s = Inr url" and "ur_host url = Some (''['' @ h)"
    and "ur_scheme url = ''http''" and "ur_username url = []" and "ur_password url = None"
    and "ur_port_or_known_default url = Some port"
  shows "validate_http_url parse_url s = Inl http_host_error \<and>
    probe_http parse_url net s = None"
proof -
  have "parse_ip_addr (''['' @ h) = None"
    by (simp add: parse_ip_addr_head digit_of_def char_code_def)
  moreover have "map to_ascii_upper (''['' @ h) \<noteq> ''LOCALHOST''"
    by (simp add: to_ascii_upper_def is_ascii_lower_def char_code_def)
  ultimately have "validate_http_url parse_url s = Inl http_host_error"
    using assms by (simp add: validate_http_url_def)
  then show ?thesis by (simp add: probe_http_def)
qed

definition ipv6_url :: url where
  "ipv6_url = \<lparr>ur_scheme = ''http'', ur_username = [], ur_password = None, ur_host = Some ''[::1]'',
     ur_port = Some 3000, ur_port_or_known_default = Some 3000, ur_path = ''/health'', ur_query = None\<rparr>"

theorem ipv6_url_refused_witness:
  "validate_http_url (\<lambda>_. Inr ipv6_url) ''http://[::1]:3000/health'' = Inl http_host_error \<and>
   parse_ip_addr ''::1'' = Some localhost_v6"
proof -
  have head: "read_ipv4 ''::1'' = None" "read_groups 8 True ''::1'' = ([], False, ''::1'')"
    by (simp_all add: read_ipv4_head read_groups_head digit_of_def char_code_def)
  have "read_groups 6 False [] = ([], False, [])"
    using read_groups.simps(2) [of 5 False "[]"] by (simp add: then_read_def read_char_def)
  then have "read_groups 7 True ''1'' = ([1], False, [])"
    using read_groups.simps(2) [of 6 True "''1''"]
    by (simp add: read_ipv4_def read_octet_def read_digits_def then_read_def read_char_def digit_of_def
        char_code_def)
  moreover have "replicate 7 (0 :: u16) = [0, 0, 0, 0, 0, 0, 0]" by (simp add: eval_nat_numeral)
  ultimately have "parse_ip_addr ''::1'' = Some localhost_v6"
    by (simp add: parse_ip_addr_def read_ip_def read_ipv6_def head then_read_def read_char_def whole_def
        localhost_v6_def)
  then show ?thesis
    using ipv6_url_refused [of "\<lambda>_. Inr ipv6_url" "''http://[::1]:3000/health''" ipv6_url "''::1]''" 3000]
    by (simp add: ipv6_url_def)
qed

section \<open>The status line\<close>

lemma status_of_line:
  "takeWhile (\<lambda>b. b \<noteq> 10) r = takeWhile (\<lambda>b. b \<noteq> 10) r' \<Longrightarrow> status_of r = status_of r'"
  by (simp add: status_of_def)

lemma takeWhile_line: "(10 :: u8) \<in> set r \<Longrightarrow>
    takeWhile (\<lambda>b. b \<noteq> 10) (r @ s) = takeWhile (\<lambda>b. b \<noteq> 10) r"
  by (induction r) auto

lemma take_append_le: "length r \<le> n \<Longrightarrow> take n (r @ s) = r @ take (n - length r) s"
  by simp

lemma read_response_step:
  assumes "length r < 1024" and "bs \<noteq> []" and "n = min (1024 - length r) 128"
  shows "read_response r (map Some (bs # rest) @ tail) =
    (if 10 \<in> set (r @ take n bs) then Some (r @ take n bs)
     else read_response (r @ take n bs) (map Some (if drop n bs = [] then rest else drop n bs # rest) @ tail))"
proof -
  have "take n bs \<noteq> []" using assms by simp
  then show ?thesis
    using assms(1) unfolding assms(3)
    by (subst read_response.simps) (simp add: max_http_status_bytes_def Let_def del: take_eq_Nil take_eq_Nil2)
qed

lemma read_response_chunks:
  assumes "[] \<notin> set chunks" and "length r \<le> 1024" and "10 \<notin> set r"
  shows "\<exists>r'. read_response r (map Some chunks @ [Some []]) = Some r' \<and>
    takeWhile (\<lambda>b. b \<noteq> 10) r' = takeWhile (\<lambda>b. b \<noteq> 10) (take 1024 (r @ concat chunks))"
  using assms
proof (induction "1024 - length r" arbitrary: r chunks rule: less_induct)
  case less
  consider "length r = 1024" | "length r < 1024" "chunks = []" |
    bs rest where "length r < 1024" "chunks = bs # rest"
    using less.prems(2) by (cases chunks) fastforce+
  then show ?case
  proof cases
    case 1
    then show ?thesis by (subst read_response.simps) (simp add: max_http_status_bytes_def)
  next
    case 2
    then show ?thesis by (subst read_response.simps) (simp add: max_http_status_bytes_def)
  next
    case (3 bs rest)
    obtain n where n: "n = min (1024 - length r) 128" by simp
    obtain got where got: "got = take n bs" by simp
    obtain later where later: "later = (if drop n bs = [] then rest else drop n bs # rest)" by simp
    have "bs \<noteq> []" using 3 less.prems(1) by auto
    then have pos: "0 < length got" using 3 by (simp add: got n)
    have whole: "concat chunks = got @ concat later" by (simp add: 3 later got flip: append_assoc)
    have len: "length (r @ got) \<le> 1024" using 3 by (simp add: got n)
    note read = read_response_step [OF 3(1) \<open>bs \<noteq> []\<close> n, of rest "[Some []]", folded got later 3(2)]
    have take: "take 1024 (r @ concat chunks) = (r @ got) @ take (1024 - length (r @ got)) (concat later)"
      unfolding whole append_assoc [symmetric] by (rule take_append_le [OF len])
    show ?thesis
    proof (cases "10 \<in> set (r @ got)")
      case True
      then show ?thesis unfolding read take takeWhile_line [OF True] by simp
    next
      case False
      have smaller: "1024 - length (r @ got) < 1024 - length r" using 3(1) pos by (simp only: length_append diff_less_mono2 less_add_same_cancel1)
      have "[] \<notin> set later" using less.prems(1) 3 by (auto simp: later)
      from less.hyps [OF smaller this len False] show ?thesis
        unfolding read whole append_assoc using False by (simp only: if_False append_assoc)
    qed
  qed
qed

text \<open>
  C40: the HTTP status that a probe sees is the one of the first line of the first 1024 bytes, however
  the connection cuts the response into reads; it is never read from beyond them.
\<close>

theorem status_independent_of_reads:
  assumes "[] \<notin> set chunks"
  shows "read_http_status (map Some chunks @ [Some []]) = status_of (take 1024 (concat chunks))"
proof -
  obtain r where "read_response [] (map Some chunks @ [Some []]) = Some r"
    "takeWhile (\<lambda>b. b \<noteq> 10) r = takeWhile (\<lambda>b. b \<noteq> 10) (take 1024 (concat chunks))"
    using read_response_chunks [OF assms, of "[]"] by auto
  then show ?thesis by (simp add: read_http_status_def status_of_line [of r])
qed

theorem status_independent_of_reads_witness:
  "read_http_status (map Some [as_bytes ''HTT'', as_bytes ''P/1.1 204 No''] @ [Some []]) = Some 204"
proof -
  let ?line = "as_bytes ''HTTP/1.1 204 No''"
  have flat: "take 1024 (concat [as_bytes ''HTT'', as_bytes ''P/1.1 204 No'']) = ?line"
    by (simp add: as_bytes_def)
  have line: "takeWhile (\<lambda>b. b \<noteq> 10) ?line = ?line" "utf8_valid ?line"
    by (simp_all add: as_bytes_def in_range_def)
  have "status_of ?line = Some 204"
    unfolding status_of_def line(1) Let_def of_bytes_as_bytes using line(2)
    by (simp add: split_ascii_whitespace.simps is_ascii_whitespace_def char_code_def parse_u16_def
        parse_unsigned_def unsigned_digits_def is_ascii_digit_def digits_value_def)
  then show ?thesis
    using status_independent_of_reads [of "[as_bytes ''HTT'', as_bytes ''P/1.1 204 No'']"] unfolding flat
    by (simp add: as_bytes_def)
qed

end
