(* ===== verification/Durations.thy ===== *)
theory Durations
  imports Model
begin

text \<open>
  The durations of the command line, \<open>parse_duration\<close> of \<^verbatim>\<open>src/cli.rs\<close>: a decimal number with
  one of five suffixes, multiplied into milliseconds with the overflow checked. A \<open>Duration\<close>
  is its number of milliseconds, which is what \<open>Duration::from_millis\<close> is given.
\<close>

definition scale_duration :: "string \<Rightarrow> string \<Rightarrow> u64 \<Rightarrow> app_error + u64" where
  "scale_duration value number multiplier =
     bindE (ok_or (parse_u64 number) (usage (''invalid duration: '' @ value))) (\<lambda>number.
     bindE (ok_or (checked_mul number multiplier) (usage ''duration is too large'')) (\<lambda>millis.
     Inr millis))"

definition parse_duration :: "string \<Rightarrow> app_error + u64" where
  "parse_duration value =
     (case strip_suffix ''ms'' value of
        Some number \<Rightarrow> scale_duration value number 1
      | None \<Rightarrow>
     (case strip_suffix ''s'' value of
        Some number \<Rightarrow> scale_duration value number 1000
      | None \<Rightarrow>
     (case strip_suffix ''m'' value of
        Some number \<Rightarrow> scale_duration value number 60000
      | None \<Rightarrow>
     (case strip_suffix ''h'' value of
        Some number \<Rightarrow> scale_duration value number 3600000
      | None \<Rightarrow>
     (case strip_suffix ''d'' value of
        Some number \<Rightarrow> scale_duration value number 86400000
      | None \<Rightarrow> Inl (usage ''duration must have an ms, s, m, h, or d suffix''))))))"

text \<open>The units and their length in milliseconds.\<close>

definition duration_units :: "(string \<times> nat) list" where
  "duration_units =
     [(''ms'', 1), (''s'', 1000), (''m'', 60000), (''h'', 3600000), (''d'', 86400000)]"

lemma scale_duration_Inr:
  "scale_duration value number multiplier = Inr d \<longleftrightarrow>
     (\<exists>n. parse_unsigned 64 number = Some n \<and> n * unat multiplier < 2 ^ 64 \<and>
       unat d = n * unat multiplier)"
proof -
  have "checked_mul (of_nat n :: u64) multiplier = Some d \<longleftrightarrow>
      n * unat multiplier < 2 ^ 64 \<and> unat d = n * unat multiplier"
    if "parse_unsigned 64 number = Some n" for n
  proof -
    have "n < 18446744073709551616" using parse_unsigned_bound [OF that] by simp
    then have n: "unat (of_nat n :: u64) = n" by (rule of_nat_unat_u64)
    have "of_nat n * multiplier = d \<longleftrightarrow> unat d = n * unat multiplier"
      if "n * unat multiplier < 2 ^ 64"
      using that n by (auto simp: unat_word_ariths word_unat_eq_iff)
    then show ?thesis using n by (auto simp: checked_mul_def)
  qed
  then show ?thesis
    unfolding scale_duration_def parse_u64_def
    by (cases "parse_unsigned 64 number") (auto simp: res_simps)
qed

lemma scale_duration_Inl: "scale_duration value number multiplier = Inl e \<Longrightarrow> err_code e = 2"
  by (auto simp: scale_duration_def res_simps)

lemma strip_suffix_other:
  "v \<noteq> [] \<Longrightarrow> u \<noteq> [] \<Longrightarrow> last v \<noteq> last u \<Longrightarrow> strip_suffix v (num @ u) = None"
  by (metis last_appendR not_None_eq strip_suffix_Some)

lemma parse_unsigned_suffix:
  "parse_unsigned w (s @ [c]) = Some n \<Longrightarrow> is_ascii_digit c"
  by (cases s)
    (auto simp: parse_unsigned_def Let_def unsigned_digits_def split: if_splits option.splits)

lemma unit_no_digit:
  "\<not> is_ascii_digit CHR ''m''" "\<not> is_ascii_digit CHR ''s''"
  by (simp_all add: is_ascii_digit_def char_code_def)

text \<open>A result of the parser, error or not, comes from scaling under one of the units.\<close>

lemma parse_duration_cases:
  assumes "parse_duration s = Inr d"
  obtains u num mult where "(u, unat (mult :: u64)) \<in> set duration_units"
    "strip_suffix u s = Some num" "scale_duration s num mult = Inr d"
proof -
  have units: "(''ms'', unat (1 :: u64)) \<in> set duration_units"
    "(''s'', unat (1000 :: u64)) \<in> set duration_units"
    "(''m'', unat (60000 :: u64)) \<in> set duration_units"
    "(''h'', unat (3600000 :: u64)) \<in> set duration_units"
    "(''d'', unat (86400000 :: u64)) \<in> set duration_units"
    by (simp_all add: duration_units_def)
  from assms show ?thesis
    unfolding parse_duration_def
    by (auto split: option.splits intro: that units)
qed

text \<open>
  A duration is accepted exactly when it is a 64-bit unsigned number followed by one of the
  five units and the product fits in 64 bits; the result is that product, and the suffix \<open>ms\<close>
  is never read as a number of minutes and a stray \<open>s\<close>.
\<close>

theorem parse_duration_correct:
  "parse_duration s = Inr d \<longleftrightarrow>
     (\<exists>num u m n. (u, m) \<in> set duration_units \<and> s = num @ u \<and>
        parse_unsigned 64 num = Some n \<and> n * m < 2 ^ 64 \<and> unat d = n * m)"
    (is "?lhs \<longleftrightarrow> ?rhs")
proof
  assume ?lhs
  then obtain u num mult where u: "(u, unat mult) \<in> set duration_units"
    and s: "strip_suffix u s = Some num" and r: "scale_duration s num mult = Inr d"
    by (rule parse_duration_cases)
  from s have "s = num @ u" by (simp add: strip_suffix_Some)
  moreover from r obtain n where "parse_unsigned 64 num = Some n" "n * unat mult < 2 ^ 64"
    "unat d = n * unat mult" unfolding scale_duration_Inr by blast
  ultimately show ?rhs using u by blast
next
  assume ?rhs
  then obtain num u m n where u: "(u, m) \<in> set duration_units" and s: "s = num @ u"
    and n: "parse_unsigned 64 num = Some n" "n * m < 2 ^ 64" "unat d = n * m" by blast
  have none: "strip_suffix ''ms'' s = None" if "u = ''s''"
  proof (rule ccontr)
    assume "strip_suffix ''ms'' s \<noteq> None"
    then obtain t where "s = t @ ''ms''" by (auto simp: strip_suffix_Some)
    then have "num @ ''s'' = (t @ ''m'') @ ''s''" using s that by simp
    then have "num = t @ ''m''" by (simp only: append_same_eq)
    then show False using n(1) parse_unsigned_suffix unit_no_digit(1) by blast
  qed
  from u show ?lhs
    unfolding duration_units_def parse_duration_def s
    using n none [unfolded s]
    by (auto simp: strip_suffix_other scale_duration_Inr)
qed

text \<open>Every rejected duration is a usage error, with exit code 2.\<close>

lemma parse_duration_errors:
  assumes "parse_duration s = Inl e"
  shows "err_code e = 2 \<and> err_kind e = ''usage''"
proof -
  have "err_code e = 2 \<and> err_kind e = ''usage''" if "scale_duration v number multiplier = Inl e"
    for v number multiplier
    using that by (auto simp: scale_duration_def res_simps)
  then show ?thesis
    using assms unfolding parse_duration_def by (auto split: option.splits)
qed

end
