(* ===== verification/Start.thy ===== *)
theory Start
  imports Observed_Runs Readiness_Conditions Durations
begin

text \<open>
  The command \<open>start\<close> of \<^verbatim>\<open>src/cli.rs\<close>: the checks of its options, the two documents and the owner token it
  makes of them (\<open>prepare_start\<close>), the creation of the run, the launch of the supervisor and the loop
  that waits until the process runs. What the system answers is in \<open>start_env\<close> and \<open>start_answers\<close>. The
  lemmas show that the documents are well-formed and agree, and that the supervisor loads exactly them.
\<close>

section \<open>The options and their checks\<close>

record start_options =
  op_cwd :: "string option"
  op_max_log_bytes :: u64
  op_startup_timeout :: string
  op_max_runtime :: "string option"
  op_runtime_grace :: string
  op_ready_tcp :: "string list"
  op_ready_http :: "string list"
  op_ready_file :: "string list"
  op_ready_log :: "string list"
  op_readiness_timeout :: string
  op_lease_port :: "string list"
  op_lease_temp_dir :: "string list"
  op_ready_port :: "string list"
  op_command :: "string list"

text \<open>The process's surroundings: directories, a new ULID, random bytes, variables, the clock.\<close>

record 'u start_env =
  ev_current_dir :: "io_error + string"
  ev_canonicalize :: "string \<Rightarrow> io_error + string"
  ev_is_dir :: "string \<Rightarrow> bool"
  ev_ulid :: 'u
  ev_random :: "string + bytes"
  ev_variables :: "string list"
  ev_created_at_ms :: u64

definition parse_optional :: "string option \<Rightarrow> app_error + u64 option" where
  "parse_optional s =
     (case s of None \<Rightarrow> Inr None | Some s \<Rightarrow> bindE (parse_duration s) (\<lambda>d. Inr (Some d)))"

definition check_limits :: "start_options \<Rightarrow> app_error + u64 \<times> u64 option \<times> u64" where
  "check_limits opts =
     (if op_max_log_bytes opts = 0 \<or> op_max_log_bytes opts > 1024 * 1024 * 1024
      then Inl (usage ''max log bytes must be between 1 and 1073741824'')
      else
        bindE (parse_duration (op_startup_timeout opts)) (\<lambda>startup_timeout.
        if startup_timeout = 0 \<or> startup_timeout > 60 * 1000
        then Inl (usage ''startup timeout must be greater than zero and at most 60s'')
        else
          bindE (parse_optional (op_max_runtime opts)) (\<lambda>max_runtime.
          if (case max_runtime of None \<Rightarrow> False | Some d \<Rightarrow> d = 0 \<or> d > 30 * 24 * 60 * 60 * 1000)
          then Inl (usage ''max runtime must be greater than zero and at most 30d'')
          else
            bindE (parse_duration (op_runtime_grace opts)) (\<lambda>runtime_grace.
            if runtime_grace > 5 * 60 * 1000 then Inl (usage ''runtime grace must be at most 5m'')
            else Inr (startup_timeout, max_runtime, runtime_grace)))))"

text \<open>The current directory is asked for even when a directory was given.\<close>

definition working_directory :: "'u start_env \<Rightarrow> start_options \<Rightarrow> app_error + string" where
  "working_directory env opts =
     bindE (map_err from_io (ev_current_dir env)) (\<lambda>current.
     let cwd = (case op_cwd opts of Some d \<Rightarrow> d | None \<Rightarrow> current) in
     bindE (map_err (\<lambda>e. usage (''cannot resolve working directory '' @ cwd @ '': '' @ io_text e))
       (ev_canonicalize env cwd)) (\<lambda>cwd.
     if \<not> ev_is_dir env cwd then Inl (usage (''working directory is not a directory: '' @ cwd))
     else Inr cwd))"

definition check_readiness_timeout :: "start_options \<Rightarrow> app_error + u64" where
  "check_readiness_timeout opts =
     bindE (parse_duration (op_readiness_timeout opts)) (\<lambda>d.
       if d = 0 \<or> d > 60 * 60 * 1000
       then Inl (usage ''readiness timeout must be greater than zero and at most 1h'')
       else Inr d)"

definition check_command :: "(string \<Rightarrow> bool) \<Rightarrow> string list \<Rightarrow> app_error + string \<times> string list" where
  "check_command utf8 command =
     bindE (mapE (\<lambda>s. if utf8 s then Inr s
         else Inl (usage ''program and arguments must be valid UTF-8 in version 0.1'')) command) (\<lambda>command.
       case command of
         program # args \<Rightarrow> if program = [] then Inl (usage ''program must not be empty'') else Inr (program, args)
       | [] \<Rightarrow> Inl (usage ''program must not be empty''))"

definition owner_token :: "string + bytes \<Rightarrow> app_error + string" where
  "owner_token random =
     bindE (map_err (\<lambda>e. operational ''randomness'' (''cannot create run owner token: '' @ e)) random) (\<lambda>bs.
       Inr (encode_lower bs))"

definition environment_names_digest :: "'d digest_lib \<Rightarrow> string list \<Rightarrow> string" where
  "environment_names_digest D names =
     encode_lower (dg_finalize D
       (foldl (\<lambda>h name. dg_update D (dg_update D h (as_bytes name)) [0]) (dg_new D) names))"

definition inherited_names :: "(string \<Rightarrow> bool) \<Rightarrow> string list \<Rightarrow> string list" where
  "inherited_names utf8 variables = remdups_adj (sort (filter utf8 variables))"

definition platform_tree_control :: "bool \<Rightarrow> tree_control" where
  "platform_tree_control win = (if win then WindowsJobObject else UnixProcessGroup)"

section \<open>The documents of a new run\<close>

definition new_run_state ::
  "bool \<Rightarrow> string \<Rightarrow> u64 \<Rightarrow> command_spec \<Rightarrow> readiness_state \<Rightarrow> lease_requests \<Rightarrow> u64 option \<Rightarrow> u64 \<Rightarrow> u64 \<Rightarrow> run_state" where
  "new_run_state win run_id created_at_ms command readiness requests max_runtime runtime_grace max_log_bytes =
     \<lparr>rs_schema_version = run_schema_version, rs_run_id = run_id, rs_status = Created,
      rs_created_at_ms = created_at_ms, rs_updated_at_ms = created_at_ms, rs_command = command,
      rs_process = \<lparr>pi_supervisor_pid = None, pi_process_pid = None, pi_tree_control = platform_tree_control win\<rparr>,
      rs_exit = None, rs_failure = None, rs_readiness = readiness,
      rs_leases = lease_state_requested (lr_port_names requests) (lr_temp_directory_names requests),
      rs_limits = \<lparr>rl_max_runtime_ms = max_runtime, rl_runtime_deadline_at_ms = None,
        rl_runtime_grace_ms = runtime_grace, rl_runtime_limit_triggered_at_ms = None\<rparr>,
      rs_cleanup = cleanup_for_platform (\<not> win), rs_logs = log_summary_new max_log_bytes\<rparr>"

definition new_supervisor_spec ::
  "string \<Rightarrow> string \<Rightarrow> command_spec \<Rightarrow> u64 \<Rightarrow> readiness_state \<Rightarrow> lease_requests \<Rightarrow> u64 option \<Rightarrow> u64 \<Rightarrow> supervisor_spec" where
  "new_supervisor_spec run_id token command max_log_bytes readiness requests max_runtime runtime_grace =
     \<lparr>sp_schema_version = ''procherd.supervisor-spec.v1'', sp_run_id = run_id, sp_owner_token = token,
      sp_command = command, sp_max_log_bytes = max_log_bytes, sp_readiness = readiness,
      sp_lease_requests = requests, sp_max_runtime_ms = max_runtime, sp_runtime_grace_ms = runtime_grace\<rparr>"

record prepared =
  pr_state :: run_state
  pr_spec :: supervisor_spec
  pr_token :: string
  pr_startup_timeout :: u64

definition prepare_start ::
  "('u, 'd) libs \<Rightarrow> url_parser \<Rightarrow> 'u start_env \<Rightarrow> start_options \<Rightarrow> app_error + prepared" where
  "prepare_start lb parse_url env opts =
     bindE (check_limits opts) (\<lambda>(startup_timeout, max_runtime, runtime_grace).
     bindE (working_directory env opts) (\<lambda>cwd.
     bindE (check_readiness_timeout opts) (\<lambda>readiness_timeout.
     bindE (validate_requests (op_lease_port opts) (op_lease_temp_dir opts)) (\<lambda>requests.
     bindE (build_conditions parse_url (op_ready_tcp opts) (op_ready_http opts) (op_ready_file opts)
       (op_ready_log opts) (op_ready_port opts) (lr_port_names requests) cwd) (\<lambda>conditions.
     bindE (check_command (lb_utf8 lb) (op_command opts)) (\<lambda>(program, args).
     let run_id = ''run_'' @ ulid_display (lb_ulid lb) (ev_ulid env) in
     bindE (owner_token (ev_random env)) (\<lambda>token.
     let names = inherited_names (lb_utf8 lb) (ev_variables env);
         command = \<lparr>cmd_program = program, cmd_args = args, cmd_working_directory = cwd,
           cmd_environment = \<lparr>env_mode = Inherit, env_inherited_name_count = length names,
             env_inherited_names_sha256 = environment_names_digest (lb_digest lb) names,
             env_injected_names = []\<rparr>\<rparr>;
         readiness = readiness_state_new conditions readiness_timeout (ev_created_at_ms env) in
     Inr \<lparr>pr_state = new_run_state (lb_windows lb) run_id (ev_created_at_ms env) command readiness requests
            max_runtime runtime_grace (op_max_log_bytes opts),
          pr_spec = new_supervisor_spec run_id token command (op_max_log_bytes opts) readiness requests
            max_runtime runtime_grace,
          pr_token = token, pr_startup_timeout = startup_timeout\<rparr>)))))))"

section \<open>Launching and waiting\<close>

definition launch :: "string + string \<Rightarrow> (string \<Rightarrow> io_error + unit) \<Rightarrow> app_error + unit" where
  "launch current_exe spawn =
     bindE (map_err (\<lambda>e. operational ''supervisor_launch'' (''cannot locate executable: '' @ e)) current_exe)
       (\<lambda>executable.
     map_err (\<lambda>e. operational ''supervisor_launch'' (''cannot start detached supervisor: '' @ io_text e))
       (spawn executable))"

definition launch_failed :: "u64 \<Rightarrow> u64 \<Rightarrow> app_error \<Rightarrow> run_state \<Rightarrow> run_state" where
  "launch_failed at exit_at e st = st
     \<lparr>rs_status := Failed, rs_updated_at_ms := at,
      rs_exit := Some \<lparr>ex_code = None, ex_signal = None, ex_reason = SupervisorFailed, ex_finished_at_ms = exit_at\<rparr>,
      rs_failure := Some \<lparr>fi_kind = err_kind e, fi_message = err_message e\<rparr>\<rparr>"

record start_result =
  sx_schema_version :: string
  sx_run :: run_view

definition failure_detail :: "run_state \<Rightarrow> string" where
  "failure_detail st =
     (case rs_failure st of
        None \<Rightarrow> ''the supervisor did not provide a diagnostic''
      | Some f \<Rightarrow> fi_kind f @ '': '' @ fi_message f)"

fun start_loop ::
  "('u, 'd) libs \<Rightarrow> path \<Rightarrow> prepared \<Rightarrow> u64 \<Rightarrow> instant \<Rightarrow> bool \<Rightarrow> turn list \<Rightarrow> world \<Rightarrow>
   world \<times> (app_error + start_result progress)" where
  "start_loop lb root p requested_at_ms deadline active_seen [] w = (w, Inr Waiting)"
| "start_loop lb root p requested_at_ms deadline active_seen (tn # turns) w =
     (let run_id = rs_run_id (pr_state p) in
      thenW (observe_state_and_activity lb root run_id (tn_look tn) w) (\<lambda>(st, active) w.
      let active_seen = active_seen \<or> active in
      if rs_status st \<noteq> Created \<and> rs_status st \<noteq> Starting then
        (if is_terminal (rs_status st) \<and> active then
           (if deadline \<le> tn_now tn
            then (w, Inl (timeout (''run '' @ run_id @ '' reached terminal state but its supervisor remained active'')))
            else start_loop lb root p requested_at_ms deadline active_seen turns w)
         else if rs_status st = Failed
         then (w, Inl (operational ''start_failed'' (''run '' @ run_id @ '' failed to start: '' @ failure_detail st)))
         else if \<not> active \<and> \<not> is_terminal (rs_status st)
         then (w, Inl (operational ''supervisor_exit'' (''run '' @ run_id @ '' supervisor exited during startup'')))
         else (w, Inr (Returned \<lparr>sx_schema_version = ''procherd.start.v1'', sx_run = run_view_new st active\<rparr>)))
      else if active_seen \<and> \<not> active
      then (w, Inl (operational ''supervisor_exit'' (''run '' @ run_id @ '' supervisor exited during startup'')))
      else if deadline \<le> tn_now tn then
        (fst (write_stop_request (lb_ulid lb) (lb_stop lb) root
           (stop_request_for run_id (pr_token p) requested_at_ms 0) w),
         Inl (timeout (''run '' @ run_id @ '' did not finish starting within '' @ show_word (pr_startup_timeout p)
           @ '' ms'')))
      else start_loop lb root p requested_at_ms deadline active_seen turns w))"

text \<open>
  What the system answers after the documents are made: what happens during the launch and its outcome,
  the clock for its failure, for the loop and for the request of a start that takes too long.
\<close>

record start_answers =
  sw_launching :: "world \<Rightarrow> world"
  sw_current_exe :: "string + string"
  sw_spawn :: "string \<Rightarrow> io_error + unit"
  sw_failed_at :: u64
  sw_failed_exit_at :: u64
  sw_started :: instant
  sw_requested_at_ms :: u64
  sw_turns :: "turn list"

definition launched :: "start_answers \<Rightarrow> app_error + unit" where
  "launched a = launch (sw_current_exe a) (sw_spawn a)"

definition start_deadline :: "prepared \<Rightarrow> start_answers \<Rightarrow> instant" where
  "start_deadline p a = sw_started a + unat (pr_startup_timeout p) * 1000000"

definition start_run ::
  "('u, 'd) libs \<Rightarrow> path \<Rightarrow> prepared \<Rightarrow> start_answers \<Rightarrow> world \<Rightarrow> world \<times> (app_error + start_result progress)" where
  "start_run lb root p a w =
     thenW (create_run (lb_ulid lb) (lb_state lb) (lb_spec lb) root (pr_state p) (pr_spec p) (pr_token p) w) (\<lambda>dir w.
     let w = sw_launching a w in
     case launched a of
       Inl e \<Rightarrow>
         (fst (atomic_write_json (lb_state lb) (state_path dir)
            (launch_failed (sw_failed_at a) (sw_failed_exit_at a) e (pr_state p)) w),
          Inl (operational ''supervisor_launch''
            (''run '' @ rs_run_id (pr_state p) @ '' could not start its supervisor: '' @ err_message e)))
     | Inr _ \<Rightarrow> start_loop lb root p (sw_requested_at_ms a) (start_deadline p a) False (sw_turns a) w)"

definition start_command ::
  "('u, 'd) libs \<Rightarrow> url_parser \<Rightarrow> path \<Rightarrow> 'u start_env \<Rightarrow> start_options \<Rightarrow> start_answers \<Rightarrow> world \<Rightarrow>
   world \<times> (app_error + start_result progress)" where
  "start_command lb parse_url root env opts a w =
     thenW (w, prepare_start lb parse_url env opts) (\<lambda>p w. start_run lb root p a w)"

section \<open>The documents are well-formed and agree\<close>

definition limits_ok :: "run_limits \<Rightarrow> bool" where
  "limits_ok l \<longleftrightarrow>
     (case rl_max_runtime_ms l of None \<Rightarrow> True | Some d \<Rightarrow> 0 < d \<and> d \<le> 30 * 24 * 60 * 60 * 1000) \<and>
     rl_runtime_grace_ms l \<le> 5 * 60 * 1000 \<and>
     rl_runtime_deadline_at_ms l = None \<and> rl_runtime_limit_triggered_at_ms l = None"

text \<open>What a new run's documents are: the type that the rest of the program relies on.\<close>

definition new_run_ok :: "('u, 'd) libs \<Rightarrow> url_parser \<Rightarrow> prepared \<Rightarrow> bool" where
  "new_run_ok lb parse_url p \<longleftrightarrow>
     (let st = pr_state p; spec = pr_spec p; leases = lr_port_names (sp_lease_requests spec) in
      rs_status st = Created \<and> rs_exit st = None \<and> rs_failure st = None \<and>
      canonical_run_id (lb_ulid lb) (rs_run_id st) = Inr (rs_run_id st) \<and>
      validate_persisted_run_state (lb_ulid lb) st = Inr () \<and>
      limits_ok (rs_limits st) \<and> 0 < sm_max_bytes (rs_logs st) \<and> sm_max_bytes (rs_logs st) \<le> 1024 * 1024 * 1024 \<and>
      cmd_program (rs_command st) \<noteq> [] \<and> list_all (lb_utf8 lb) (cmd_program (rs_command st) # cmd_args (rs_command st)) \<and>
      list_all (\<lambda>c. admissible parse_url leases (cmd_working_directory (rs_command st)) (ck_condition c) \<and>
        ck_ready_at_ms c = None) (rd_checks (rs_readiness st)) \<and>
      length (pr_token p) = 64 \<and> list_all is_ascii_hexdigit (pr_token p) \<and>
      spec = new_supervisor_spec (rs_run_id st) (pr_token p) (rs_command st) (sm_max_bytes (rs_logs st))
        (rs_readiness st) (sp_lease_requests spec) (rl_max_runtime_ms (rs_limits st)) (rl_runtime_grace_ms (rs_limits st)) \<and>
      map pl_name (ls_ports (rs_leases st)) = leases \<and>
      map td_name (ls_temp_directories (rs_leases st)) = lr_temp_directory_names (sp_lease_requests spec))"

lemma check_limits_Inr:
  "check_limits opts = Inr (t, m, g) \<Longrightarrow>
   0 < op_max_log_bytes opts \<and> op_max_log_bytes opts \<le> 1024 * 1024 * 1024 \<and> 0 < t \<and> t \<le> 60 * 1000 \<and>
   (case m of None \<Rightarrow> True | Some d \<Rightarrow> 0 < d \<and> d \<le> 30 * 24 * 60 * 60 * 1000) \<and> g \<le> 5 * 60 * 1000"
  by (auto simp: check_limits_def res_simps word_neq_0_conv not_less split: if_splits option.splits)

lemma check_command_Inr:
  "check_command utf8 command = Inr (program, args) \<Longrightarrow> program \<noteq> [] \<and> list_all utf8 (program # args)"
proof -
  assume "check_command utf8 command = Inr (program, args)"
  then obtain cs where cs: "mapE (\<lambda>s. if utf8 s then Inr s
         else Inl (usage ''program and arguments must be valid UTF-8 in version 0.1'')) command = Inr cs"
    and rest: "(case cs of program # args \<Rightarrow>
        if program = [] then Inl (usage ''program must not be empty'') else Inr (program, args)
       | [] \<Rightarrow> Inl (usage ''program must not be empty'')) = Inr (program, args)"
    unfolding check_command_def bindE_Inr by blast
  from rest have eq: "cs = program # args" "program \<noteq> []" by (cases cs; auto split: if_splits)+
  have "list_all utf8 cs" by (rule mapE_all [OF cs]) (auto split: if_splits)
  then show ?thesis using eq by simp
qed

lemma readiness_state_new_checks:
  "list_all (\<lambda>c. P (ck_condition c) \<and> ck_ready_at_ms c = None) (rd_checks (readiness_state_new cs t c0)) \<longleftrightarrow> list_all P cs"
proof -
  have "list_all (\<lambda>c. P (ck_condition c) \<and> ck_ready_at_ms c = None)
      (map (\<lambda>(i, c). readiness_check_new i c) (enumerate n cs)) \<longleftrightarrow> list_all P cs" for n
    by (induction cs arbitrary: n) (simp_all add: readiness_check_new_def)
  then show ?thesis by simp
qed

lemma prepare_start_Inr:
  assumes "prepare_start lb parse_url env opts = Inr p"
  obtains t m g cwd rt requests cs program args token names command where
    "check_limits opts = Inr (t, m, g)"
    "validate_requests (op_lease_port opts) (op_lease_temp_dir opts) = Inr requests"
    "build_conditions parse_url (op_ready_tcp opts) (op_ready_http opts) (op_ready_file opts)
       (op_ready_log opts) (op_ready_port opts) (lr_port_names requests) cwd = Inr cs"
    "check_command (lb_utf8 lb) (op_command opts) = Inr (program, args)"
    "owner_token (ev_random env) = Inr token"
    "cmd_program command = program" "cmd_args command = args" "cmd_working_directory command = cwd"
    "p = \<lparr>pr_state = new_run_state (lb_windows lb) (''run_'' @ ulid_display (lb_ulid lb) (ev_ulid env))
            (ev_created_at_ms env) command (readiness_state_new cs rt (ev_created_at_ms env)) requests m g
            (op_max_log_bytes opts),
          pr_spec = new_supervisor_spec (''run_'' @ ulid_display (lb_ulid lb) (ev_ulid env)) token command
            (op_max_log_bytes opts) (readiness_state_new cs rt (ev_created_at_ms env)) requests m g,
          pr_token = token, pr_startup_timeout = t\<rparr>"
  using assms unfolding prepare_start_def
  by (auto simp only: bindE_Inr Let_def case_prod_unfold sum.inject prod.collapse elim!: exE conjE) (erule that; simp)

lemma prepared_ok:
  assumes "ulid_documented (lb_ulid lb)" and "case ev_random env of Inl _ \<Rightarrow> True | Inr bs \<Rightarrow> length bs = 32"
    and "prepare_start lb parse_url env opts = Inr p"
  shows "new_run_ok lb parse_url p \<and> 0 < pr_startup_timeout p \<and> pr_startup_timeout p \<le> 60 * 1000"
proof -
  let ?id = "''run_'' @ ulid_display (lb_ulid lb) (ev_ulid env)"
  obtain t m g cwd rt requests cs program args token names command where
    limits: "check_limits opts = Inr (t, m, g)"
    and requests: "validate_requests (op_lease_port opts) (op_lease_temp_dir opts) = Inr requests"
    and conditions: "build_conditions parse_url (op_ready_tcp opts) (op_ready_http opts) (op_ready_file opts)
       (op_ready_log opts) (op_ready_port opts) (lr_port_names requests) cwd = Inr cs"
    and command: "check_command (lb_utf8 lb) (op_command opts) = Inr (program, args)"
    and token: "owner_token (ev_random env) = Inr token"
    and fields: "cmd_program command = program" "cmd_args command = args" "cmd_working_directory command = cwd"
    and p: "p = \<lparr>pr_state = new_run_state (lb_windows lb) ?id (ev_created_at_ms env) command
            (readiness_state_new cs rt (ev_created_at_ms env)) requests m g (op_max_log_bytes opts),
          pr_spec = new_supervisor_spec ?id token command (op_max_log_bytes opts)
            (readiness_state_new cs rt (ev_created_at_ms env)) requests m g,
          pr_token = token, pr_startup_timeout = t\<rparr>"
    by (rule prepare_start_Inr [OF assms(3)])
  have id: "canonical_run_id (lb_ulid lb) ?id = Inr ?id"
    using assms(1) by (auto simp: canonical_run_id_Inr ulid_documented_def)
  have "length token = 64" "list_all is_ascii_hexdigit token"
    using token assms(2) encode_lower_hexdigits by (auto simp: owner_token_def res_simps)
  moreover have "validate_persisted_run_state (lb_ulid lb) (pr_state p) = Inr ()"
    using id requests validate_requests_Inr [THEN iffD1, OF requests]
    by (simp add: p validate_persisted_run_state_def new_run_state_def)
  moreover have "list_all (\<lambda>c. admissible parse_url (lr_port_names requests) cwd (ck_condition c) \<and>
      ck_ready_at_ms c = None) (rd_checks (readiness_state_new cs rt (ev_created_at_ms env)))"
    unfolding readiness_state_new_checks using built_conditions [OF conditions] by blast
  ultimately show ?thesis
    using id check_limits_Inr [OF limits] check_command_Inr [OF command] fields
    unfolding new_run_ok_def Let_def
    by (simp add: p new_run_state_def new_supervisor_spec_def limits_ok_def log_summary_new_def)
qed

text \<open>
  C22: the documents of a new run are well-formed and agree. The state passes the validation of a persisted
  state and is \<open>created\<close>; its limits are in their bounds, its program is not empty, each of its readiness
  checks is admissible and pending; the owner token has the form that is accepted when it is read back;
  and the supervisor's specification carries the same identity, command, readiness, leases and limits.
\<close>

theorem prepared_documents_ok:
  assumes "ulid_documented (lb_ulid lb)" and "case ev_random env of Inl _ \<Rightarrow> True | Inr bs \<Rightarrow> length bs = 32"
    and "prepare_start lb parse_url env opts = Inr p"
  shows "new_run_ok lb parse_url p \<and> 0 < pr_startup_timeout p \<and> pr_startup_timeout p \<le> 60 * 1000"
  by (rule prepared_ok [OF assms])

text \<open>
  C8: the supervisor gets what \<open>start\<close> prepared. After the run is created on a healthy file system, the
  documents that the supervisor loads and compares are exactly the prepared ones, they pass its checks, and
  the token that a later \<open>stop\<close> reads is the one in the supervisor's specification.
\<close>

theorem supervisor_loads_prepared:
  assumes "ulid_documented (lb_ulid lb)" and "case ev_random env of Inl _ \<Rightarrow> True | Inr bs \<Rightarrow> length bs = 32"
    and "prepare_start lb parse_url env opts = Inr p" and "fresh_run w root (rs_run_id (pr_state p))"
    and "json_documented (lb_state lb) (pr_state p)" and "json_documented (lb_spec lb) (pr_spec p)"
    and "create_run (lb_ulid lb) (lb_state lb) (lb_spec lb) root (pr_state p) (pr_spec p) (pr_token p) w = (w', r)"
  shows "r = Inr (root @ [rs_run_id (pr_state p)]) \<and>
    load_documents lb (root @ [rs_run_id (pr_state p)]) w' = Inr (pr_spec p, pr_state p) \<and>
    read_owner_token (lb_ulid lb) root w' (rs_run_id (pr_state p)) = Inr (sp_owner_token (pr_spec p))"
proof -
  let ?id = "rs_run_id (pr_state p)"
  have ok: "new_run_ok lb parse_url p" by (rule conjunct1 [OF prepared_ok [OF assms(1-3)]])
  then have id: "canonical_run_id (lb_ulid lb) ?id = Inr ?id" by (simp add: new_run_ok_def Let_def)
  have valid: "validate_persisted_run_state (lb_ulid lb) (pr_state p) = Inr ()" "length (pr_token p) = 64"
      "list_all is_ascii_hexdigit (pr_token p)"
    using ok by (simp_all add: new_run_ok_def Let_def)
  have w': "w' = run_files (lb_state lb) (lb_spec lb) (root @ [?id]) (pr_state p) (pr_spec p) (pr_token p) w"
    and r: "r = Inr (root @ [?id])"
    using create_run_healthy [OF assms(4) id] assms(7) by simp_all
  note nodes = run_files_nodes [OF assms(4) w']
  have healthy: "healthy w' (root @ ?id # q)" for q by (rule nodes(6))
  have "read_json (lb_spec lb) w' (root @ [?id, ''spec.json'']) = Inr (pr_spec p)"
    "read_json (lb_state lb) w' (root @ [?id, ''state.json'']) = Inr (pr_state p)"
    using read_json_healthy [OF healthy nodes(3) assms(6)] read_json_healthy [OF healthy nodes(2) assms(5)]
    by simp_all
  moreover have "pr_spec p = new_supervisor_spec ?id (pr_token p) (rs_command (pr_state p))
      (sm_max_bytes (rs_logs (pr_state p))) (rs_readiness (pr_state p)) (sp_lease_requests (pr_spec p))
      (rl_max_runtime_ms (rs_limits (pr_state p))) (rl_runtime_grace_ms (rs_limits (pr_state p)))"
    using ok by (simp add: new_run_ok_def Let_def)
  then have spec: "sp_schema_version (pr_spec p) = ''procherd.supervisor-spec.v1''" "sp_run_id (pr_spec p) = ?id"
    "sp_owner_token (pr_spec p) = pr_token p" "sp_command (pr_spec p) = rs_command (pr_state p)"
    "sp_readiness (pr_spec p) = rs_readiness (pr_state p)"
    "sp_max_runtime_ms (pr_spec p) = rl_max_runtime_ms (rs_limits (pr_state p))"
    "sp_runtime_grace_ms (pr_spec p) = rl_runtime_grace_ms (rs_limits (pr_state p))"
    unfolding new_supervisor_spec_def by (metis supervisor_spec.select_convs)+
  moreover have "rs_schema_version (pr_state p) = run_schema_version"
    using valid(1) by (auto simp: validate_persisted_run_state_def split: if_splits)
  ultimately have "load_documents lb (root @ [?id]) w' = Inr (pr_spec p, pr_state p)"
    by (simp add: load_documents_def state_path_def)
  then show ?thesis using r run_files_readable(2) [OF assms(4) id valid(1) assms(5) valid(2,3) w'] spec by simp
qed

section \<open>What start answers\<close>

lemma start_loop_Returned:
  "start_loop lb root p at deadline seen turns w = (w', Inr (Returned res)) \<Longrightarrow>
   rv_observed_status (sx_run res) = Consistent \<and>
   rs_status (rv_state (sx_run res)) \<notin> {Created, Starting, Failed}"
proof (induction turns arbitrary: seen w)
  case (Cons tn turns)
  then obtain u st active where look:
    "observe_state_and_activity lb root (rs_run_id (pr_state p)) (tn_look tn) w = (u, Inr (st, active))"
    by (auto simp: thenW_Inr Let_def)
  have consistent: "rv_observed_status (run_view_new st active) = Consistent" if "active \<or> is_terminal (rs_status st)"
    using that by (cases "rv_observed_status (run_view_new st active)") auto
  show ?case
    using Cons.prems look consistent Cons.IH [of "seen \<or> active" u]
    by (auto simp: Let_def split: if_splits)
qed simp

lemma start_loop_ends:
  "\<exists>tn\<in>set turns. deadline \<le> tn_now tn \<Longrightarrow>
   snd (start_loop lb root p at deadline seen turns w) \<noteq> Inr Waiting"
proof (induction turns arbitrary: seen w)
  case (Cons tn turns)
  obtain u r where look: "observe_state_and_activity lb root (rs_run_id (pr_state p)) (tn_look tn) w = (u, r)"
    by (metis prod.collapse)
  show ?case
  proof (cases r)
    case (Inr sa)
    obtain st active where sa: "sa = (st, active)" by (cases sa)
    show ?thesis using Cons look by (auto simp: Inr sa Let_def)
  qed (simp add: look Let_def)
qed simp

lemma launch_failure_on_disk:
  assumes "healthy w (state_path dir)" and "parent_dir w (state_path dir) = Inr ()"
    and "node_at w (state_path dir) \<noteq> Some Directory"
  shows "terminal_on_disk lb dir (fst (atomic_write_json (lb_state lb) (state_path dir) (launch_failed at exit_at e st) w))"
proof -
  have "is_terminal (rs_status (launch_failed at exit_at e st))" by (simp add: launch_failed_def)
  then show ?thesis unfolding terminal_on_disk_def by (auto simp: atomic_write_json_healthy [OF assms])
qed

text \<open>
  C19: what \<open>start\<close> answers is so. When it returns, the run has left the statuses before its process runs
  without failing and is not orphaned in the last view; once the clock of a turn has reached the startup
  deadline it has returned or failed; and when the launch fails, the state on disk says so: it is a whole
  document with the status failed, if the file of the state can be written.
\<close>

theorem start_answer_holds:
  assumes "start_run lb root p a w = (w', r)"
  shows "(\<forall>res. r = Inr (Returned res) \<longrightarrow> rv_observed_status (sx_run res) = Consistent \<and>
      rs_status (rv_state (sx_run res)) \<notin> {Created, Starting, Failed}) \<and>
    ((\<exists>tn\<in>set (sw_turns a). start_deadline p a \<le> tn_now tn) \<longrightarrow> r \<noteq> Inr Waiting) \<and>
    (\<forall>u dir e. create_run (lb_ulid lb) (lb_state lb) (lb_spec lb) root (pr_state p) (pr_spec p) (pr_token p) w = (u, Inr dir) \<and>
        launched a = Inl e \<and> healthy (sw_launching a u) (state_path dir) \<and>
        parent_dir (sw_launching a u) (state_path dir) = Inr () \<and>
        node_at (sw_launching a u) (state_path dir) \<noteq> Some Directory \<longrightarrow>
      (\<exists>e'. r = Inl e') \<and> terminal_on_disk lb dir w')"
proof (cases "create_run (lb_ulid lb) (lb_state lb) (lb_spec lb) root (pr_state p) (pr_spec p) (pr_token p) w")
  case (Pair u x)
  show ?thesis
  proof (cases x)
    case (Inl e)
    then have "r = Inl e" using assms Pair by (simp add: start_run_def)
    then show ?thesis using Inl Pair by simp
  next
    case (Inr dir)
    show ?thesis
    proof (cases "launched a")
      case (Inl e)
      let ?failed = "launch_failed (sw_failed_at a) (sw_failed_exit_at a) e (pr_state p)"
      have w': "w' = fst (atomic_write_json (lb_state lb) (state_path dir) ?failed (sw_launching a u))"
        and r: "\<exists>e'. r = Inl e'"
        using assms Pair Inr Inl by (auto simp: start_run_def)
      then show ?thesis using launch_failure_on_disk [of "sw_launching a u" dir lb] Pair Inr by auto
    next
      case (Inr y)
      note ok = Inr
      have loop: "start_loop lb root p (sw_requested_at_ms a) (start_deadline p a) False (sw_turns a)
          (sw_launching a u) = (w', r)"
        using assms Pair \<open>x = Inr dir\<close> Inr by (simp add: start_run_def)
      have "r \<noteq> Inr Waiting" if "\<exists>tn\<in>set (sw_turns a). start_deadline p a \<le> tn_now tn"
        using start_loop_ends [OF that, of lb root p "sw_requested_at_ms a" False "sw_launching a u"] loop by simp
      moreover have "rv_observed_status (sx_run res) = Consistent \<and>
          rs_status (rv_state (sx_run res)) \<notin> {Created, Starting, Failed}" if "r = Inr (Returned res)" for res
        by (rule start_loop_Returned [OF loop [unfolded that]])
      ultimately show ?thesis using ok by simp
    qed
  qed
qed

section \<open>An example\<close>

definition example_env :: "128 word start_env" where
  "example_env =
     \<lparr>ev_current_dir = Inr ''/work'', ev_canonicalize = Inr, ev_is_dir = (\<lambda>_. True), ev_ulid = 0,
      ev_random = Inr (replicate 32 7), ev_variables = [''PATH'', ''HOME'', ''PATH''], ev_created_at_ms = 1\<rparr>"

definition example_options :: start_options where
  "example_options =
     \<lparr>op_cwd = None, op_max_log_bytes = 100, op_startup_timeout = ''5s'', op_max_runtime = None,
      op_runtime_grace = ''5s'', op_ready_tcp = [], op_ready_http = [], op_ready_file = [''ok''],
      op_ready_log = [''up''], op_readiness_timeout = ''30s'', op_lease_port = [''web''], op_lease_temp_dir = [],
      op_ready_port = [''web''], op_command = [''server'', ''--quiet'']\<rparr>"

definition start_libs :: "run_state \<Rightarrow> supervisor_spec \<Rightarrow> (128 word, bytes) libs" where
  "start_libs st spec = example_libs\<lparr>lb_state := example_codec st, lb_spec := example_codec spec\<rparr>"

lemma example_durations: "parse_duration ''5s'' = Inr 5000" "parse_duration ''30s'' = Inr 30000"
  by (simp_all add: parse_duration_def scale_duration_def strip_suffix_def parse_u64_def parse_unsigned_def
      unsigned_digits_def is_ascii_digit_def digits_value_def char_code_def checked_mul_def)

lemma example_prepares: "\<exists>p. \<forall>st spec. prepare_start (start_libs st spec) (\<lambda>_. Inl []) example_env example_options = Inr p"
proof -
  have "check_limits example_options = Inr (5000, None, 5000)"
    by (simp add: check_limits_def example_options_def example_durations parse_optional_def)
  moreover have "working_directory example_env example_options = Inr ''/work''"
    by (simp add: working_directory_def example_env_def example_options_def)
  moreover have "check_readiness_timeout example_options = Inr 30000"
    by (simp add: check_readiness_timeout_def example_options_def example_durations)
  moreover have "validate_requests [''web''] [] = Inr \<lparr>lr_port_names = [''web''], lr_temp_directory_names = []\<rparr>"
    by (simp add: validate_requests_Inr valid_name_def is_ascii_lower_def is_ascii_digit_def char_code_def)
  moreover have "build_conditions (\<lambda>_. Inl []) [] [] [''ok''] [''up''] [''web''] [''web''] ''/work'' =
      Inr [File ''/work/ok'', Log ''up'', PortLease ''web'']"
    by (simp add: build_conditions_def max_conditions_def readiness_path_def is_absolute_def join_path_def
        log_condition_def max_log_literal_bytes_def port_condition_def)
  moreover have "check_command (\<lambda>_. True) [''server'', ''--quiet''] = Inr (''server'', [''--quiet''])"
    by (simp add: check_command_def)
  ultimately show ?thesis
    by (simp add: prepare_start_def start_libs_def example_libs_def owner_token_def Let_def)
      (simp add: example_options_def example_env_def)
qed

definition example_prepared :: prepared where
  "example_prepared =
     (case prepare_start (start_libs example_run example_spec) (\<lambda>_. Inl []) example_env example_options of Inr p \<Rightarrow> p)"

lemma example_prepared_eq:
  "prepare_start (start_libs st spec) (\<lambda>_. Inl []) example_env example_options = Inr example_prepared"
  using example_prepares by (auto simp: example_prepared_def)

lemma example_prepare_facts:
  "ulid_documented (lb_ulid (start_libs st spec))"
  "case ev_random example_env of Inl _ \<Rightarrow> True | Inr bs \<Rightarrow> length bs = 32"
  using crockford_documented by (simp_all add: start_libs_def example_libs_def example_env_def)

theorem prepared_documents_ok_witness:
  "prepare_start (start_libs example_run example_spec) (\<lambda>_. Inl []) example_env example_options = Inr example_prepared \<and>
   rs_status (pr_state example_prepared) = Created \<and> length (pr_token example_prepared) = 64"
  using prepared_documents_ok [OF example_prepare_facts example_prepared_eq] example_prepared_eq
  by (simp add: new_run_ok_def Let_def)

lemma example_prepared_fresh:
  "fresh_run (empty_world []) [''srv''] (rs_run_id (pr_state example_prepared))"
  "canonical_run_id crockford (rs_run_id (pr_state example_prepared)) = Inr (rs_run_id (pr_state example_prepared))"
proof -
  show "fresh_run (empty_world []) [''srv''] (rs_run_id (pr_state example_prepared))"
    by (auto simp: fresh_run_def empty_world_def node_at_def healthy_def)
  show "canonical_run_id crockford (rs_run_id (pr_state example_prepared)) = Inr (rs_run_id (pr_state example_prepared))"
    using prepared_ok [OF example_prepare_facts example_prepared_eq [of example_run example_spec]]
    by (simp add: new_run_ok_def Let_def start_libs_def example_libs_def)
qed

abbreviation prepared_libs :: "(128 word, bytes) libs" where
  "prepared_libs \<equiv> start_libs (pr_state example_prepared) (pr_spec example_prepared)"

lemma prepared_libs_documented:
  "json_documented (lb_state prepared_libs) (pr_state example_prepared)"
  "json_documented (lb_spec prepared_libs) (pr_spec example_prepared)" "lb_ulid prepared_libs = crockford"
  by (simp_all add: start_libs_def example_codec_documented) (simp add: example_libs_def)

theorem supervisor_loads_prepared_witness:
  "load_documents prepared_libs [''srv'', rs_run_id (pr_state example_prepared)]
     (fst (create_run crockford (lb_state prepared_libs) (lb_spec prepared_libs) [''srv'']
        (pr_state example_prepared) (pr_spec example_prepared) (pr_token example_prepared) (empty_world []))) =
   Inr (pr_spec example_prepared, pr_state example_prepared)"
  using supervisor_loads_prepared [OF example_prepare_facts example_prepared_eq example_prepared_fresh(1)
      prepared_libs_documented(1,2) prod.collapse [symmetric]]
  by (simp add: prepared_libs_documented(3))

theorem start_answer_holds_witness:
  "\<exists>w' e. start_run prepared_libs [''srv''] example_prepared
     \<lparr>sw_launching = (\<lambda>w. w), sw_current_exe = Inl ''gone'', sw_spawn = (\<lambda>_. Inr ()), sw_failed_at = 2,
      sw_failed_exit_at = 2, sw_started = 0, sw_requested_at_ms = 2, sw_turns = []\<rparr> (empty_world []) = (w', Inl e) \<and>
     terminal_on_disk prepared_libs [''srv'', rs_run_id (pr_state example_prepared)] w'"
proof -
  let ?p = example_prepared and ?id = "rs_run_id (pr_state example_prepared)" and ?lb = prepared_libs
  let ?a = "\<lparr>sw_launching = (\<lambda>w. w), sw_current_exe = Inl ''gone'', sw_spawn = (\<lambda>_. Inr ()), sw_failed_at = 2,
      sw_failed_exit_at = 2, sw_started = 0, sw_requested_at_ms = 2, sw_turns = []\<rparr>"
  obtain w' r where run: "start_run ?lb [''srv''] ?p ?a (empty_world []) = (w', r)" by (metis prod.collapse)
  let ?u = "run_files (lb_state ?lb) (lb_spec ?lb) ([''srv''] @ [?id]) (pr_state ?p) (pr_spec ?p) (pr_token ?p) (empty_world [])"
  have made: "create_run (lb_ulid ?lb) (lb_state ?lb) (lb_spec ?lb) [''srv''] (pr_state ?p) (pr_spec ?p) (pr_token ?p)
      (empty_world []) = (?u, Inr ([''srv''] @ [?id]))"
    using create_run_healthy [OF example_prepared_fresh] by (simp add: prepared_libs_documented(3))
  note nodes = run_files_nodes [OF example_prepared_fresh(1) refl, where J = "lb_state ?lb" and JS = "lb_spec ?lb" and
      st = "pr_state ?p" and spec = "pr_spec ?p" and token = "pr_token ?p"]
  have "healthy ?u (state_path ([''srv''] @ [?id]))" "parent_dir ?u (state_path ([''srv''] @ [?id])) = Inr ()"
    "node_at ?u (state_path ([''srv''] @ [?id])) \<noteq> Some Directory"
    using nodes(1,2) nodes(6) [of "[''state.json'']"] by (simp_all add: state_path_def parent_dir_def)
  then have "(\<exists>e'. r = Inl e') \<and> terminal_on_disk ?lb ([''srv''] @ [?id]) w'"
    using start_answer_holds [OF run] made by (auto simp: launched_def launch_def)
  then show ?thesis using run by auto
qed

end
