(* ===== verification/Brief_Schema.thy ===== *)
theory Brief_Schema
  imports Supervisor
begin

text \<open>
  The brief schema that \<open>emit_schema\<close> of \<^verbatim>\<open>src/cli.rs\<close> prints: what the program tells an agent about
  itself. The lemmas compare it with the model: the statuses, the exit codes and the sizes it states are
  those of the code. The schemas of the other documents are derived from their types by a library and
  are an argument.
\<close>

section \<open>JSON values\<close>

datatype json =
  JString string
| JNumber nat
| JBool bool
| JArray "json list"
| JObject "(string \<times> json) list"

fun json_member :: "json \<Rightarrow> string \<Rightarrow> json option" where
  "json_member (JObject members) key = map_of members key"
| "json_member _ key = None"

fun json_at :: "json \<Rightarrow> string list \<Rightarrow> json option" where
  "json_at v [] = Some v"
| "json_at v (key # keys) = (case json_member v key of None \<Rightarrow> None | Some w \<Rightarrow> json_at w keys)"

section \<open>The document\<close>

datatype schema_document =
  BriefSchema | RunSchema | StartSchema | StatusSchema | ListSchema | LogsSchema | WaitSchema | StopSchema |
  LeasesSchema | GcSchema | ErrorSchema

text \<open>The bound of the channel between the capture threads and the supervisor, in chunks.\<close>

definition log_channel_capacity :: nat where
  "log_channel_capacity = 64"

definition brief_schema :: "string \<Rightarrow> json" where
  "brief_schema version = JObject
     [(''schema_version'', JString ''procherd.brief.v1''),
      (''procherd_version'', JString version),
      (''commands'', JArray (map JString
        [''schema'', ''start'', ''status'', ''wait'', ''logs'', ''stop'', ''list'', ''leases'', ''gc'', ''completions''])),
      (''run_states'', JArray (map JString
        [''created'', ''starting'', ''running'', ''stopping'', ''exited'', ''failed'', ''stopped''])),
      (''readiness_states'', JArray (map JString
        [''not_configured'', ''pending'', ''ready'', ''timed_out'', ''failed''])),
      (''readiness_conditions'', JArray (map JString [''tcp'', ''http'', ''file'', ''log'', ''port_lease''])),
      (''lease_placeholders'', JArray (map JString [''{port:NAME}'', ''{temp:NAME}''])),
      (''tree_control'', JObject
        [(''unix'', JString ''process_group''), (''windows'', JString ''job_object'')]),
      (''log_contract'', JObject
        [(''encoding'', JString ''base64''),
         (''cursor'', JString ''monotonic per run''),
         (''retention'', JString ''hard byte bound with explicit dropped_bytes''),
         (''handoff'', JObject
           [(''chunk_bytes'', JNumber read_chunk_bytes),
            (''capacity_chunks'', JNumber log_channel_capacity),
            (''backpressure'', JString ''bounded'')]),
         (''control_batch_chunks'', JNumber log_drain_batch_chunks)]),
      (''exit_codes'', JObject
        [(''0'', JString ''success''),
         (''1'', JString ''operational failure''),
         (''2'', JString ''usage error''),
         (''3'', JString ''timeout''),
         (''4'', JString ''run not found''),
         (''5'', JString ''state or log integrity failure'')]),
      (''security'', JObject
        [(''shell_interpretation'', JBool False),
         (''mutation'', JString ''run-scoped owner token stored in the private run directory''),
         (''environment'',
          JString ''inherited; name count and digest recorded, values never persisted by ProcHerd'')])]"

text \<open>The value of a schema; \<open>derived\<close> gives those of the documents with a type, or the error of the serializer.\<close>

definition schema_value ::
  "string \<Rightarrow> (schema_document \<Rightarrow> string + json) \<Rightarrow> schema_document \<Rightarrow> string + json" where
  "schema_value version derived schema =
     (if schema = BriefSchema then Inr (brief_schema version) else derived schema)"

section \<open>What it states is so\<close>

text \<open>The name of a status in a document: the variant in snake case.\<close>

fun status_tag :: "run_status \<Rightarrow> string" where
  "status_tag Created = ''created''"
| "status_tag Starting = ''starting''"
| "status_tag Running = ''running''"
| "status_tag Stopping = ''stopping''"
| "status_tag Exited = ''exited''"
| "status_tag Failed = ''failed''"
| "status_tag Stopped = ''stopped''"

lemma brief_states_all:
  "\<exists>tags. json_at (brief_schema version) [''run_states''] = Some (JArray (map JString tags)) \<and>
     set tags = range status_tag \<and> distinct tags"
proof -
  let ?tags = "[''created'', ''starting'', ''running'', ''stopping'', ''exited'', ''failed'', ''stopped'']"
  have "status_tag s \<in> set ?tags" for s by (cases s) simp_all
  moreover have "?tags = map status_tag [Created, Starting, Running, Stopping, Exited, Failed, Stopped]" by simp
  then have "set ?tags \<subseteq> range status_tag" by (metis image_mono image_set subset_UNIV)
  ultimately have "set ?tags = range status_tag" by blast
  then show ?thesis by (intro exI [of _ ?tags]) (simp add: brief_schema_def)
qed

text \<open>Every exit code of an error is listed, under the name of its class.\<close>

lemma brief_exit_codes:
  "json_at (brief_schema version) [''exit_codes'', show_word (exit_code (usage m))] = Some (JString ''usage error'')"
  "json_at (brief_schema version) [''exit_codes'', show_word (exit_code (operational k m))] = Some (JString ''operational failure'')"
  "json_at (brief_schema version) [''exit_codes'', show_word (exit_code (timeout m))] = Some (JString ''timeout'')"
  "json_at (brief_schema version) [''exit_codes'', show_word (exit_code (not_found m))] = Some (JString ''run not found'')"
  "json_at (brief_schema version) [''exit_codes'', show_word (exit_code (integrity m))] =
     Some (JString ''state or log integrity failure'')"
  by (simp_all add: brief_schema_def exit_code_def show_nat.simps digit_char_def char_of_def bit_0)

text \<open>The supervisor takes no more chunks in a batch than the channel holds.\<close>

lemma brief_batch:
  "json_at (brief_schema version) [''log_contract'', ''control_batch_chunks''] =
   json_at (brief_schema version) [''log_contract'', ''handoff'', ''capacity_chunks'']"
  by (simp add: brief_schema_def log_drain_batch_chunks_def log_channel_capacity_def)

end
