(* ===== verification/Commands.thy ===== *)
theory Commands
  imports Log_Live Start Brief_Schema
begin

text \<open>
  The command line of \<^verbatim>\<open>src/cli.rs\<close>: the dispatch of a parsed command line (\<open>execute\<close>), the rendering of
  results and errors in the three formats, and the exit code (\<open>run_cli\<close>). The parser of the arguments,
  the JSON printer, the texts of the completion scripts, the schemas that a library derives from types,
  and the lossy decoding of UTF-8 are arguments. The commands for the tests of the program itself
  (\<open>__fixture\<close>) are in \<open>Fixtures\<close>, and writing a result to the standard streams does not fail.
\<close>

section \<open>The parsed command line\<close>

datatype output_format = Human | Json | Ndjson

datatype wait_condition_arg = ForRunning | ForReady | ForExit

fun wait_condition_of :: "wait_condition_arg \<Rightarrow> wait_condition" where
  "wait_condition_of ForRunning = WaitRunning"
| "wait_condition_of ForReady = WaitReady"
| "wait_condition_of ForExit = WaitExit"

datatype stream_arg = AllStreams | OnlyStdout | OnlyStderr

fun stream_selected :: "stream_arg \<Rightarrow> log_stream option" where
  "stream_selected AllStreams = None"
| "stream_selected OnlyStdout = Some Stdout"
| "stream_selected OnlyStderr = Some Stderr"

datatype commands =
  SchemaCmd schema_document
| CompletionsCmd string
| SuperviseCmd path
| StartCmd start_options
| StatusCmd string
| WaitCmd string wait_condition_arg string
| LogsCmd string u64 nat stream_arg
| StopCmd string string
| ListCmd
| LeasesCmd string
| GcCmd string bool

record cli =
  cli_state_dir :: "string option"
  cli_format :: output_format
  cli_command :: commands

section \<open>Output\<close>

record screen =
  on_stdout :: string
  on_stderr :: string

definition silent :: screen where
  "silent = \<lparr>on_stdout = [], on_stderr = []\<rparr>"

definition newline :: string where
  "newline = [CHR 0x0A]"

definition tabbed :: "string \<Rightarrow> string \<Rightarrow> string \<Rightarrow> string" where
  "tabbed a b c = a @ [CHR 0x09] @ b @ [CHR 0x09] @ c @ newline"

text \<open>The documents that are printed as JSON, on one line or on several.\<close>

datatype document =
  StartDoc start_result | StatusDoc status_result | WaitDoc wait_result | LogsDoc logs_result |
  StopDoc stop_result | ListDoc list_result | LeasesDoc leases_result | GcDoc gc_result |
  SchemaDoc schema_document json | ErrorDoc error_document

record printer =
  to_pretty :: "document \<Rightarrow> string + string"
  to_line :: "document \<Rightarrow> string + string"
  completion_of :: "string \<Rightarrow> string"
  pkg_version :: string
  derived_schema :: "schema_document \<Rightarrow> string + json"
  utf8_lossy :: "bytes \<Rightarrow> string"

definition document_text :: "printer \<Rightarrow> output_format \<Rightarrow> document \<Rightarrow> string + string" where
  "document_text P format doc = (if format = Ndjson then to_line P doc else to_pretty P doc)"

definition print_document :: "printer \<Rightarrow> output_format \<Rightarrow> document \<Rightarrow> screen \<times> (app_error + unit)" where
  "print_document P format doc =
     (case map_err from_json (document_text P format doc) of
        Inl e \<Rightarrow> (silent, Inl e)
      | Inr s \<Rightarrow> (\<lparr>on_stdout = s @ newline, on_stderr = []\<rparr>, Inr ()))"

definition render ::
  "printer \<Rightarrow> output_format \<Rightarrow> document \<Rightarrow> screen \<times> (app_error + unit) \<Rightarrow> screen \<times> (app_error + unit)" where
  "render P format doc human = (if format = Human then human else print_document P format doc)"

definition render_error :: "printer \<Rightarrow> output_format \<Rightarrow> app_error \<Rightarrow> screen" where
  "render_error P format e =
     (let plain = ''procherd: '' @ err_message e @ newline in
      \<lparr>on_stdout = [], on_stderr =
         (if format = Human then plain
          else case document_text P format (ErrorDoc (to_error_document e)) of Inr s \<Rightarrow> s @ newline | Inl _ \<Rightarrow> plain)\<rparr>)"

fun status_name :: "run_status \<Rightarrow> string" where
  "status_name Created = ''created''"
| "status_name Starting = ''starting''"
| "status_name Running = ''running''"
| "status_name Stopping = ''stopping''"
| "status_name Exited = ''exited''"
| "status_name Failed = ''failed''"
| "status_name Stopped = ''stopped''"

fun readiness_name :: "readiness_status \<Rightarrow> string" where
  "readiness_name RdNotConfigured = ''not-configured''"
| "readiness_name RdPending = ''pending''"
| "readiness_name RdReady = ''ready''"
| "readiness_name RdTimedOut = ''timed-out''"
| "readiness_name RdFailed = ''failed''"

definition said :: "string \<Rightarrow> screen \<times> (app_error + unit)" where
  "said text = (\<lparr>on_stdout = text, on_stderr = []\<rparr>, Inr ())"

definition human_status :: "run_view \<Rightarrow> screen \<times> (app_error + unit)" where
  "human_status view = said
     (rs_run_id (rv_state view) @ '' '' @ status_name (rs_status (rv_state view)) @
      '' readiness='' @ readiness_name (rd_status (rs_readiness (rv_state view))) @
      '' supervisor='' @ (if rv_supervisor_active view then ''active'' else ''inactive'') @ newline)"

definition human_start :: "start_result \<Rightarrow> screen \<times> (app_error + unit)" where
  "human_start r = said
     (rs_run_id (rv_state (sx_run r)) @ '' '' @ status_name (rs_status (rv_state (sx_run r))) @ newline)"

definition human_list :: "list_result \<Rightarrow> screen \<times> (app_error + unit)" where
  "human_list r = said (concat (map (\<lambda>v. tabbed
     (rs_run_id (rv_state v)) (status_name (rs_status (rv_state v))) (cmd_program (rs_command (rv_state v))))
     (lt_runs r)))"

definition human_leases :: "leases_result \<Rightarrow> screen \<times> (app_error + unit)" where
  "human_leases r = said
     (concat (map (\<lambda>l. tabbed ''port'' (pl_name l) (case pl_address l of Some a \<Rightarrow> a | None \<Rightarrow> ''pending''))
        (ls_ports (le_leases r))) @
      concat (map (\<lambda>l. tabbed ''temp'' (td_name l) (case td_path l of Some p \<Rightarrow> p | None \<Rightarrow> ''pending''))
        (ls_temp_directories (le_leases r))))"

definition human_gc :: "gc_result \<Rightarrow> screen \<times> (app_error + unit)" where
  "human_gc r = said (concat (map (\<lambda>e. tabbed
     (if gc_deleted e then ''deleted'' else if gc_eligible e then ''eligible'' else ''kept'')
     (gc_run_id e) (gc_reason e)) (gr_entries r)))"

text \<open>The records are printed one by one; one that cannot be decoded ends the output.\<close>

definition record_text :: "printer \<Rightarrow> log_record \<Rightarrow> bytes \<Rightarrow> string" where
  "record_text P r bs =
     (let text = utf8_lossy P bs; label = (case lg_stream r of Stdout \<Rightarrow> ''stdout'' | Stderr \<Rightarrow> ''stderr'') in
      ''['' @ show_word (lg_cursor r) @ '' '' @ label @ ''] '' @ text @
      (if text \<noteq> [] \<and> List.last text = CHR 0x0A then [] else newline))"

fun human_records ::
  "printer \<Rightarrow> log_codec \<Rightarrow> string \<Rightarrow> log_record list \<Rightarrow> string \<times> (app_error + unit)" where
  "human_records P C printed [] = (printed, Inr ())"
| "human_records P C printed (r # rs) =
     (case decode_record C r of
        Inl e \<Rightarrow> (printed, Inl e)
      | Inr bs \<Rightarrow> human_records P C (printed @ record_text P r bs) rs)"

definition human_logs :: "printer \<Rightarrow> log_codec \<Rightarrow> logs_result \<Rightarrow> screen \<times> (app_error + unit)" where
  "human_logs P C r =
     (case human_records P C [] (lo_records r) of
        (printed, Inl e) \<Rightarrow> (\<lparr>on_stdout = printed, on_stderr = []\<rparr>, Inl e)
      | (printed, Inr _) \<Rightarrow>
          (\<lparr>on_stdout = printed, on_stderr =
             (if lo_dropped_bytes r > 0
              then ''procherd: '' @ show_word (lo_dropped_bytes r) @
                '' log bytes were dropped after the configured bound'' @ newline
              else [])\<rparr>, Inr ()))"

section \<open>The logs of a run\<close>

text \<open>
  The file of the log on the world: a read that fails gives nothing of it. The others act before the
  state is read (\<open>mw_first\<close>), before the directory is looked up (\<open>mw_lock\<close>) and before the file is opened.
\<close>

definition log_path :: "path \<Rightarrow> path" where
  "log_path dir = dir @ [''logs.ndjson'']"

definition opened_log :: "world \<Rightarrow> path \<Rightarrow> io_error + log_input" where
  "opened_log w p =
     bindE (open_file w p) (\<lambda>content. Inr
       (case attempt w Read p of
          Inl e \<Rightarrow> \<lparr>li_content = [], li_fault = Some e\<rparr>
        | Inr _ \<Rightarrow> \<lparr>li_content = content, li_fault = None\<rparr>))"

definition logs_command ::
  "('u, 'd) libs \<Rightarrow> path \<Rightarrow> string \<Rightarrow> u64 \<Rightarrow> nat \<Rightarrow> log_stream option \<Rightarrow> meanwhile \<Rightarrow> world \<Rightarrow>
   world \<times> (app_error + logs_result)" where
  "logs_command lb root run_id after_cursor limit stream mw w =
     (let w = mw_first mw w in
      thenW (w, state_of lb root w run_id) (\<lambda>st w.
      let w = mw_lock mw w in
      thenW (w, run_dir (lb_ulid lb) root w run_id) (\<lambda>dir w.
      let w = mw_again mw w; p = log_path dir in
      (w, read_logs (lb_log lb) (opened_log w p) (ensure_regular_file w p) st after_cursor limit stream))))"

section \<open>The dispatch\<close>

text \<open>What the system and the other processes answer to one command.\<close>

record 'u surroundings =
  sd_platform :: platform
  sd_variable :: "string \<Rightarrow> string option"
  sd_components :: "string \<Rightarrow> path"
  sd_canonicalize :: "world \<Rightarrow> string \<Rightarrow> io_error + path"
  sd_url :: url_parser
  sd_start_env :: "'u start_env"
  sd_start :: start_answers
  sd_look :: meanwhile
  sd_looks :: "string \<Rightarrow> meanwhile"
  sd_started :: instant
  sd_turns :: "turn list"
  sd_stop :: stop_answers
  sd_now_ms :: u64
  sd_removing :: "string \<Rightarrow> world \<Rightarrow> world"
  sd_boot :: boot
  sd_ticks :: "tick list"
  sd_failed_at :: u64
  sd_failed_exit_at :: u64

type_synonym outcome = "(screen \<times> (app_error + unit)) progress"

text \<open>The result of a command is shown, its error is left to be rendered, and one that still waits waits.\<close>

definition answered ::
  "('a \<Rightarrow> screen \<times> (app_error + unit)) \<Rightarrow> world \<times> (app_error + 'a) \<Rightarrow> world \<times> outcome" where
  "answered shown r =
     (case r of (w, Inl e) \<Rightarrow> (w, Returned (silent, Inl e)) | (w, Inr x) \<Rightarrow> (w, Returned (shown x)))"

definition awaited ::
  "('a \<Rightarrow> screen \<times> (app_error + unit)) \<Rightarrow> world \<times> (app_error + 'a progress) \<Rightarrow> world \<times> outcome" where
  "awaited shown r =
     (case r of
        (w, Inl e) \<Rightarrow> (w, Returned (silent, Inl e))
      | (w, Inr Waiting) \<Rightarrow> (w, Waiting)
      | (w, Inr (Returned x)) \<Rightarrow> (w, Returned (shown x)))"

text \<open>The commands that need no store never get here.\<close>

fun on_store ::
  "('u, 'd) libs \<Rightarrow> printer \<Rightarrow> 'u surroundings \<Rightarrow> output_format \<Rightarrow> path \<Rightarrow> commands \<Rightarrow> world \<Rightarrow> world \<times> outcome" where
  "on_store lb P s format root (StartCmd opts) w =
     awaited (\<lambda>r. render P format (StartDoc r) (human_start r))
       (start_command lb (sd_url s) root (sd_start_env s) opts (sd_start s) w)"
| "on_store lb P s format root (StatusCmd run_id) w =
     answered (\<lambda>r. render P format (StatusDoc r) (human_status (sr_run r)))
       (status_command lb root run_id (sd_look s) w)"
| "on_store lb P s format root (WaitCmd run_id condition t) w =
     awaited (\<lambda>r. render P format (WaitDoc r) (human_status (wr_run r)))
       (thenW (w, parse_duration t) (\<lambda>t w.
          wait_command lb root run_id (wait_condition_of condition) t (sd_started s) (sd_turns s) w))"
| "on_store lb P s format root (LogsCmd run_id after_cursor limit stream) w =
     answered (\<lambda>r. render P format (LogsDoc r) (human_logs P (lb_log lb) r))
       (logs_command lb root run_id after_cursor limit (stream_selected stream) (sd_look s) w)"
| "on_store lb P s format root (StopCmd run_id grace) w =
     awaited (\<lambda>r. render P format (StopDoc r) (human_status (so_run r)))
       (thenW (w, parse_duration grace) (\<lambda>grace w. stop_command lb root run_id grace (sd_stop s) w))"
| "on_store lb P s format root ListCmd w =
     answered (\<lambda>r. render P format (ListDoc r) (human_list r)) (list_command lb root (sd_looks s) w)"
| "on_store lb P s format root (LeasesCmd run_id) w =
     answered (\<lambda>r. render P format (LeasesDoc r) (human_leases r)) (leases_command lb root run_id (sd_look s) w)"
| "on_store lb P s format root (GcCmd older_than execute) w =
     answered (\<lambda>r. render P format (GcDoc r) (human_gc r))
       (thenW (w, parse_duration older_than) (\<lambda>d w.
          gc_command lb root (sd_now_ms s) d execute (sd_looks s) (sd_removing s) w))"
| "on_store lb P s format root _ w = (w, Returned (silent, Inr ()))"

text \<open>The schemas are printed on several lines also for a human reader.\<close>

definition emit_schema :: "printer \<Rightarrow> output_format \<Rightarrow> schema_document \<Rightarrow> screen \<times> (app_error + unit)" where
  "emit_schema P format schema =
     (case map_err from_json (schema_value (pkg_version P) (derived_schema P) schema) of
        Inl e \<Rightarrow> (silent, Inl e)
      | Inr v \<Rightarrow> print_document P format (SchemaDoc schema v))"

fun execute :: "('u, 'd) libs \<Rightarrow> printer \<Rightarrow> 'u surroundings \<Rightarrow> cli \<Rightarrow> world \<Rightarrow> world \<times> outcome" where
  "execute lb P s c w =
     (case cli_command c of
        SchemaCmd schema \<Rightarrow> (w, Returned (emit_schema P (cli_format c) schema))
      | CompletionsCmd shell \<Rightarrow> (w, Returned (said (completion_of P shell)))
      | SuperviseCmd dir \<Rightarrow>
          (case supervise lb (sd_boot s) (sd_ticks s) (sd_failed_at s) (sd_failed_exit_at s) dir w of
             ((w, sent), r) \<Rightarrow> awaited (\<lambda>_. (silent, Inr ())) (w, r))
      | command \<Rightarrow>
          (case store_resolve (sd_platform s) (sd_variable s) (sd_components s) (sd_canonicalize s) (cli_state_dir c) w of
             (w, Inl e) \<Rightarrow> (w, Returned (silent, Inl e))
           | (w, Inr root) \<Rightarrow> on_store lb P s (cli_format c) root command w))"

declare execute.simps [simp del]

text \<open>The whole program: what it prints and its exit code.\<close>

definition followed_by :: "screen \<Rightarrow> screen \<Rightarrow> screen" where
  "followed_by a b = \<lparr>on_stdout = on_stdout a @ on_stdout b, on_stderr = on_stderr a @ on_stderr b\<rparr>"

definition run_cli ::
  "('u, 'd) libs \<Rightarrow> printer \<Rightarrow> 'u surroundings \<Rightarrow> cli \<Rightarrow> world \<Rightarrow> world \<times> (screen \<times> u8) progress" where
  "run_cli lb P s c w =
     (case execute lb P s c w of
        (w, Waiting) \<Rightarrow> (w, Waiting)
      | (w, Returned (printed, Inr _)) \<Rightarrow> (w, Returned (printed, 0))
      | (w, Returned (printed, Inl e)) \<Rightarrow>
          (w, Returned (followed_by printed (render_error P (cli_format c) e), exit_code e)))"

section \<open>One document or one error\<close>

text \<open>The document that a command answers with, and the commands that answer with one.\<close>

fun answers :: "commands \<Rightarrow> document \<Rightarrow> bool" where
  "answers (StartCmd _) doc \<longleftrightarrow> (\<exists>r. doc = StartDoc r)"
| "answers (StatusCmd _) doc \<longleftrightarrow> (\<exists>r. doc = StatusDoc r)"
| "answers (WaitCmd _ _ _) doc \<longleftrightarrow> (\<exists>r. doc = WaitDoc r)"
| "answers (LogsCmd _ _ _ _) doc \<longleftrightarrow> (\<exists>r. doc = LogsDoc r)"
| "answers (StopCmd _ _) doc \<longleftrightarrow> (\<exists>r. doc = StopDoc r)"
| "answers ListCmd doc \<longleftrightarrow> (\<exists>r. doc = ListDoc r)"
| "answers (LeasesCmd _) doc \<longleftrightarrow> (\<exists>r. doc = LeasesDoc r)"
| "answers (GcCmd _ _) doc \<longleftrightarrow> (\<exists>r. doc = GcDoc r)"
| "answers (SchemaCmd schema) doc \<longleftrightarrow>
     (\<exists>v. doc = SchemaDoc schema v \<and> (schema = BriefSchema \<longrightarrow> (\<exists>version. v = brief_schema version)))"
| "answers _ doc \<longleftrightarrow> False"

fun has_document :: "commands \<Rightarrow> bool" where
  "has_document (CompletionsCmd _) = False"
| "has_document (SuperviseCmd _) = False"
| "has_document _ = True"

text \<open>What a command ends with: nothing printed and an error, or a success that printed its document.\<close>

definition clean :: "printer \<Rightarrow> output_format \<Rightarrow> commands \<Rightarrow> outcome \<Rightarrow> bool" where
  "clean P format command r \<longleftrightarrow>
     (case r of
        Waiting \<Rightarrow> True
      | Returned (printed, Inl e) \<Rightarrow> printed = silent
      | Returned (printed, Inr _) \<Rightarrow>
          format \<noteq> Human \<and> has_document command \<longrightarrow>
            (\<exists>doc text. answers command doc \<and> document_text P format doc = Inr text \<and>
              printed = \<lparr>on_stdout = text @ newline, on_stderr = []\<rparr>))"

lemma clean_simps [simp]:
  "clean P format command Waiting" "clean P format command (Returned (silent, Inl e))"
  by (simp_all add: clean_def)

lemma clean_print: "answers command doc \<Longrightarrow> clean P format command (Returned (print_document P format doc))"
  by (auto simp: clean_def print_document_def map_err_Inr split: sum.splits)

lemma clean_render:
  assumes "answers command doc" and "snd human = Inr ()"
  shows "clean P format command (Returned (render P format doc human))"
  using assms clean_print [OF assms(1)]
  by (cases human) (auto simp: render_def, simp add: clean_def)

lemma clean_answered:
  assumes "\<And>x. answers command (D x)" and "\<And>w' x. r = (w', Inr x) \<Longrightarrow> snd (h x) = Inr ()"
  shows "clean P format command (snd (answered (\<lambda>x. render P format (D x) (h x)) r))"
  using assms clean_render by (auto simp: answered_def split: prod.splits sum.splits)

lemma clean_awaited:
  assumes "\<And>x. answers command (D x)" and "\<And>x. snd (h x) = Inr ()"
  shows "clean P format command (snd (awaited (\<lambda>x. render P format (D x) (h x)) r))"
  using assms clean_render by (auto simp: awaited_def split: prod.splits sum.splits progress.splits)

text \<open>The records of a page decode, so that printing them does not fail half-way.\<close>

lemma human_records_ok:
  "\<forall>r\<in>set rs. \<exists>bs. decode_record C r = Inr bs \<Longrightarrow> \<exists>printed. human_records P C start rs = (printed, Inr ())"
  by (induction rs arbitrary: start) auto

lemma page_decodes:
  assumes "read_logs C opened regular st a limit stream = Inr page"
  shows "\<forall>r\<in>set (lo_records page). \<exists>bs. decode_record C r = Inr bs"
proof (cases opened)
  case (Inl e)
  then show ?thesis using assms by (auto simp: read_logs_def res_simps split: if_splits)
next
  case (Inr input)
  then obtain has_more where
    "read_loop C st a limit stream (li_fault input) 0 [] (li_content input) = Inr (lo_records page, has_more)"
    using assms by (auto simp: read_logs_def res_simps split: if_splits)
  from read_loop_valid [OF this] show ?thesis by (auto simp: record_valid_def)
qed

lemma human_logs_ok:
  assumes "logs_command lb root run_id a limit stream mw w = (w', Inr page)"
  shows "snd (human_logs P (lb_log lb) page) = Inr ()"
proof -
  obtain opened regular st where "read_logs (lb_log lb) opened regular st a limit stream = Inr page"
    using assms unfolding logs_command_def Let_def by (auto elim!: thenW_cases)
  from human_records_ok [OF page_decodes [OF this]] obtain printed where
    "human_records P (lb_log lb) [] (lo_records page) = (printed, Inr ())" by blast
  then show ?thesis by (simp add: human_logs_def)
qed

lemma human_ok [simp]:
  "snd (human_status v) = Inr ()" "snd (human_start s) = Inr ()" "snd (human_list l) = Inr ()"
  "snd (human_leases e) = Inr ()" "snd (human_gc g) = Inr ()"
  by (simp_all add: human_status_def human_start_def human_list_def human_leases_def human_gc_def said_def)

lemma clean_on_store:
  "has_document command \<Longrightarrow> (\<And>schema. command \<noteq> SchemaCmd schema) \<Longrightarrow>
   clean P format command (snd (on_store lb P s format root command w))"
  by (cases command) (auto intro!: clean_answered clean_awaited intro: human_logs_ok)

lemma clean_schema: "clean P format (SchemaCmd schema) (Returned (emit_schema P format schema))"
proof (cases "schema_value (pkg_version P) (derived_schema P) schema")
  case (Inr v)
  then have "schema = BriefSchema \<Longrightarrow> v = brief_schema (pkg_version P)" by (simp add: schema_value_def)
  then have "answers (SchemaCmd schema) (SchemaDoc schema v)" by auto
  then show ?thesis using clean_print [of "SchemaCmd schema" "SchemaDoc schema v"] by (simp add: emit_schema_def Inr)
qed (simp add: emit_schema_def)

lemma clean_execute: "clean P (cli_format c) (cli_command c) (snd (execute lb P s c w))"
proof (cases "has_document (cli_command c) \<and> (\<forall>schema. cli_command c \<noteq> SchemaCmd schema)")
  case True
  obtain v r where res: "store_resolve (sd_platform s) (sd_variable s) (sd_components s) (sd_canonicalize s)
      (cli_state_dir c) w = (v, r)" by (metis prod.collapse)
  have "execute lb P s c w = (case r of Inl e \<Rightarrow> (v, Returned (silent, Inl e))
      | Inr root \<Rightarrow> on_store lb P s (cli_format c) root (cli_command c) v)"
    using True res by (cases "cli_command c"; cases r) (auto simp: execute.simps)
  then show ?thesis using True by (cases r) (auto intro!: clean_on_store)
next
  case False
  then consider (schema) schema where "cli_command c = SchemaCmd schema" | (shell) x where "cli_command c = CompletionsCmd x"
    | (supervise) dir where "cli_command c = SuperviseCmd dir"
    by (cases "cli_command c") auto
  then show ?thesis
  proof cases
    case schema
    then show ?thesis by (simp add: clean_schema execute.simps)
  next
    case shell
    then show ?thesis by (simp add: said_def clean_def execute.simps)
  next
    case supervise
    then show ?thesis
      by (auto simp: execute.simps awaited_def clean_def split: prod.splits sum.splits progress.splits)
  qed
qed

text \<open>
  C21: a command prints one document or one error, in every format. When it fails, nothing is on the
  standard output, not even a part of a page of logs, the error stream has the rendering of that one
  error, and the exit code is the error's. When it succeeds the exit code is 0, and in the machine-readable
  formats the output is exactly one document, of the kind that the command answers with, and a line end.
\<close>

theorem one_document_or_one_error:
  assumes "run_cli lb P s c w = (w', Returned (printed, code))"
  shows "(\<exists>e. execute lb P s c w = (w', Returned (silent, Inl e)) \<and>
      printed = render_error P (cli_format c) e \<and> on_stdout printed = [] \<and> code = exit_code e) \<or>
    (execute lb P s c w = (w', Returned (printed, Inr ())) \<and> code = 0 \<and>
      (cli_format c \<noteq> Human \<and> has_document (cli_command c) \<longrightarrow>
        (\<exists>doc text. answers (cli_command c) doc \<and> document_text P (cli_format c) doc = Inr text \<and>
          printed = \<lparr>on_stdout = text @ newline, on_stderr = []\<rparr>)))"
proof -
  obtain r where run: "execute lb P s c w = (w', Returned r)"
    using assms by (auto simp: run_cli_def split: prod.splits progress.splits sum.splits)
  note ok = clean_execute [of P c lb s w, unfolded run snd_conv]
  show ?thesis
  proof (cases "snd r")
    case (Inl e)
    then have r: "r = (silent, Inl e)" using ok by (cases r) (simp add: clean_def)
    then have "printed = followed_by silent (render_error P (cli_format c) e)" "code = exit_code e"
      using assms run unfolding run_cli_def by simp_all
    then show ?thesis using run r by (auto simp: followed_by_def silent_def render_error_def Let_def)
  next
    case (Inr x)
    then have "r = (printed, Inr ())" "code = 0"
      using assms run unfolding run_cli_def by (cases r; simp)+
    then show ?thesis using run ok by (auto simp: clean_def)
  qed
qed

text \<open>The status of the ended run of \<open>Collection\<close>, printed as JSON.\<close>

definition brace_printer :: printer where
  "brace_printer = \<lparr>to_pretty = (\<lambda>_. Inr ''{}''), to_line = (\<lambda>_. Inr ''{}''), completion_of = (\<lambda>_. []),
     pkg_version = ''0.3.0'', derived_schema = (\<lambda>_. Inl []),
     utf8_lossy = of_bytes\<rparr>"

definition settled_surroundings :: "'u surroundings \<Rightarrow> 'u surroundings" where
  "settled_surroundings s = s\<lparr>sd_platform := Other_unix, sd_variable := (\<lambda>_. None), sd_components := (\<lambda>_. [''srv'']),
     sd_canonicalize := (\<lambda>_ _. Inr [''srv'']), sd_look := still\<rparr>"

lemma srv_resolved:
  "node_at w [''srv''] = Some Directory \<Longrightarrow>
   store_resolve Other_unix (\<lambda>_. None) (\<lambda>_. [''srv'']) (\<lambda>_ _. Inr [''srv'']) (Some ''/srv'') w = (w, Inr [''srv''])"
  by (simp add: store_resolve_def create_private_dir_def ensure_dir_def)

lemma status_of_ended_run:
  "run_cli (ended_libs lb) brace_printer (settled_surroundings s)
     \<lparr>cli_state_dir = Some ''/srv'', cli_format = Json, cli_command = StatusCmd (rs_run_id example_run)\<rparr>
     (ended_world JS spec) =
   (ended_world JS spec, Returned (\<lparr>on_stdout = ''{}'' @ newline, on_stderr = []\<rparr>, 0))"
proof -
  have "node_at (ended_world JS spec) [''srv''] = Some Directory"
    by (simp add: ended_world_def run_files_def node_at_def put_node_def empty_world_def map_of_filter_key)
  note srv_resolved [OF this]
  then show ?thesis
    by (simp add: run_cli_def execute.simps settled_surroundings_def status_command_def ended_run_viewed answered_def
        render_def print_document_def document_text_def brace_printer_def)
qed

theorem one_document_or_one_error_witness:
  "\<exists>(lb :: (128 word, bytes) libs) s w printed.
     run_cli lb brace_printer s
       \<lparr>cli_state_dir = Some ''/srv'', cli_format = Json, cli_command = StatusCmd (rs_run_id example_run)\<rparr> w =
       (w, Returned (printed, 0)) \<and>
     (\<exists>doc text. answers (StatusCmd (rs_run_id example_run)) doc \<and> document_text brace_printer Json doc = Inr text \<and>
        printed = \<lparr>on_stdout = text @ newline, on_stderr = []\<rparr>)"
proof -
  fix lb :: "(128 word, bytes) libs" and s :: "128 word surroundings" and JS spec
  let ?printed = "\<lparr>on_stdout = ''{}'' @ newline, on_stderr = []\<rparr>"
  note run = status_of_ended_run [of lb s JS spec]
  have "on_stdout ?printed \<noteq> []" by simp
  then have "\<exists>doc text. answers (StatusCmd (rs_run_id example_run)) doc \<and>
      document_text brace_printer Json doc = Inr text \<and> ?printed = \<lparr>on_stdout = text @ newline, on_stderr = []\<rparr>"
    using one_document_or_one_error [OF run] unfolding cli.simps has_document.simps by blast
  with run show ?thesis by blast
qed

end
