(* ===== verification/Exit_Codes.thy ===== *)
theory Exit_Codes
  imports Commands
begin

text \<open>
  What the exit codes mean, and what an answer of \<open>wait\<close> means. The codes of the contract that the command
  \<open>schema\<close> prints: 1 an operational failure, 2 a usage error, 3 a timeout, 4 a run that is not found, 5 a broken
  state or log. Each operation is shown to fail
  with a plain error (1, 2 or 5) or, when it looks up a run, with code 4 if the directory of the run is
  absent in the world where the command ends.
\<close>

section \<open>Plain errors\<close>

named_theorems plain_errors \<open>operations whose errors are plain\<close>

definition plain :: "app_error \<Rightarrow> bool" where
  "plain e \<longleftrightarrow> err_code e \<in> {1, 2, 5}"

lemma plain_simps [simp]:
  "plain (usage m)" "plain (operational k m)" "plain (integrity m)" "plain (from_io x)" "plain (from_json t)"
  by (simp_all add: plain_def)

lemma thenW_Inl: "thenW m f = (w', Inl e) \<longleftrightarrow> m = (w', Inl e) \<or> (\<exists>u x. m = (u, Inr x) \<and> f x u = (w', Inl e))"
  by (cases m; cases "snd m") auto

lemma ensure_regular_file_plain [plain_errors]: "ensure_regular_file w p = Inl e \<Longrightarrow> plain e"
proof -
  assume "ensure_regular_file w p = Inl e"
  then obtain m where "(\<exists>x. e = from_io x) \<or> (case m of Symlink _ \<Rightarrow>
      Inl (integrity (''refusing symbolic-link file: '' @ display p)) | Regular _ \<Rightarrow> Inr ()
      | _ \<Rightarrow> Inl (integrity (''expected a regular file: '' @ display p))) = Inl e"
    by (auto simp: ensure_regular_file_def res_simps)
  then show "plain e" by (cases m) auto
qed

lemma read_json_plain [plain_errors]: "read_json J w p = Inl e \<Longrightarrow> plain e"
  unfolding read_json_def bindE_Inl map_err_Inl by (elim disjE exE conjE) (auto split: if_splits simp: map_err_Inl dest: plain_errors)

lemma read_bounded_text_plain [plain_errors]: "read_bounded_text w p n = Inl e \<Longrightarrow> plain e"
  unfolding read_bounded_text_def bindE_Inl map_err_Inl by (elim disjE exE conjE) (auto split: if_splits simp: res_simps dest: plain_errors)

lemma create_new_file_plain [plain_errors]: "create_new_file p w = (w', Inl e) \<Longrightarrow> plain e"
  by (auto simp: create_new_file_def split: sum.splits)

lemma create_private_file_plain [plain_errors]: "create_private_file p w = (w', Inl e) \<Longrightarrow> plain e"
  by (auto simp: create_private_file_def split: sum.splits)

lemma create_new_private_dir_plain [plain_errors]: "create_new_private_dir p w = (w', Inl e) \<Longrightarrow> plain e"
  by (auto simp: create_new_private_dir_def split: sum.splits)

lemma write_new_file_plain:
  "(\<And>x. plain (werr x)) \<Longrightarrow> write_new_file werr p bs w = (w', Inl e) \<Longrightarrow> plain e"
  by (auto simp: write_new_file_def split: prod.splits sum.splits dest: plain_errors)

lemma write_new_plain [plain_errors]:
  "write_new_json J p x w = (w', Inl e) \<Longrightarrow> plain e" "write_new_private_text p t w = (w', Inl e) \<Longrightarrow> plain e"
  using write_new_file_plain [of "\<lambda>e. from_json (io_text e)"] write_new_file_plain [of from_io]
  by (auto simp: write_new_json_def write_new_private_text_def)

lemma atomic_write_json_plain [plain_errors]: "atomic_write_json J p x w = (w', Inl e) \<Longrightarrow> plain e"
  by (auto simp: atomic_write_json_def res_simps split: sum.splits if_splits)

lemma remove_dir_all_plain [plain_errors]: "remove_dir_all p w = (w', Inl e) \<Longrightarrow> plain e"
  by (auto simp: remove_dir_all_def split: sum.splits)

lemma canonical_run_id_plain [plain_errors]: "canonical_run_id L i = Inl e \<Longrightarrow> plain e"
  by (auto simp: plain_def dest: canonical_run_id_Inl)

lemma ensure_dir_plain [plain_errors]: "ensure_dir p w = (w', Inl e) \<Longrightarrow> plain e"
  by (auto simp: ensure_dir_def split: if_splits dest: plain_errors)

lemma create_private_dirs_plain [plain_errors]: "create_private_dirs base cs w = (w', Inl e) \<Longrightarrow> plain e"
  by (induction cs arbitrary: base w) (auto simp: thenW_Inl dest: plain_errors)

lemma platform_data_dir_plain [plain_errors]: "platform_data_dir p var = Inl e \<Longrightarrow> plain e"
  by (auto simp: platform_data_dir_def res_simps split: platform.splits option.splits)


lemma validate_names_plain [plain_errors]: "validate_names_loop unique names = Inl e \<Longrightarrow> plain e"
  by (induction names arbitrary: unique) (auto split: if_splits)

lemma validate_requests_plain [plain_errors]: "validate_requests ps ts = Inl e \<Longrightarrow> plain e"
  by (auto simp: validate_requests_def validate_names_def res_simps split: if_splits dest: plain_errors)

lemma validate_persisted_plain [plain_errors]: "validate_persisted_run_state L st = Inl e \<Longrightarrow> plain e"
  by (auto simp: validate_persisted_run_state_def res_simps split: if_splits)

lemma supported_plain [plain_errors]: "supported st = Inl e \<Longrightarrow> plain e"
  by (auto simp: supported_def split: if_splits)

lemma parse_duration_plain [plain_errors]: "parse_duration s = Inl e \<Longrightarrow> plain e"
  by (auto simp: parse_duration_def plain_def split: option.splits dest: scale_duration_Inl)

lemma collect_run_ids_plain [plain_errors]: "collect_run_ids L root w ids names = Inl e \<Longrightarrow> plain e"
  by (induction names arbitrary: ids) (auto simp: res_simps split: if_splits)

lemma list_run_ids_plain [plain_errors]: "list_run_ids L root w = Inl e \<Longrightarrow> plain e"
  by (auto simp: list_run_ids_def res_simps dest: plain_errors)

lemma decode_record_plain [plain_errors]: "decode_record C r = Inl e \<Longrightarrow> plain e"
  by (cases "lg_encoding r") (auto simp: decode_record.simps res_simps)

lemma check_record_plain [plain_errors]: "check_record C st n r = Inl e \<Longrightarrow> plain e"
  by (auto simp: check_record_def res_simps split: if_splits dest: plain_errors)

lemma check_line_plain [plain_errors]: "check_line C st n line = Inl e \<Longrightarrow> plain e"
  by (auto simp: check_line_def res_simps split: if_splits dest: plain_errors)

lemma read_loop_plain [plain_errors]: "read_loop C st a limit stream fault n rs bs = Inl e \<Longrightarrow> plain e"
proof (induction C st a limit stream fault n rs bs rule: read_loop.induct)
  case (1 C st a limit stream fault n rs bs)
  from "1.prems" consider (step) x where "e = from_io x" | (line) line rest where
      "read_until fault bs = Inr (line, rest)" "line \<noteq> []" "check_line C st n line = Inl e"
    | (later) line rest r where "read_until fault bs = Inr (line, rest)" "line \<noteq> []"
      "check_line C st n line = Inr (Some r)"
      "(if \<not> selected a stream r then read_loop C st a limit stream fault (lg_cursor r) rs rest
        else if length rs = limit then Inr (rs, True)
        else read_loop C st a limit stream fault (lg_cursor r) (rs @ [r]) rest) = Inl e"
    by (subst (asm) read_loop.simps) (auto simp: res_simps split: if_split_asm option.split_asm)
  then show ?case
  proof cases
    case later
    then show ?thesis using "1.IH" by (auto split: if_splits)
  qed (auto dest: plain_errors)
qed


section \<open>Looking up a run\<close>

definition absent :: "path \<Rightarrow> string \<Rightarrow> world \<Rightarrow> bool" where
  "absent root run_id w \<longleftrightarrow> (\<exists>x. symlink_metadata w (root @ [run_id]) = Inl x \<and> io_kind x = NotFound)"

definition look_error :: "path \<Rightarrow> string \<Rightarrow> world \<Rightarrow> app_error \<Rightarrow> bool" where
  "look_error root run_id w e \<longleftrightarrow> plain e \<or> (err_code e = 4 \<and> absent root run_id w)"

lemma plain_look [simp]: "plain e \<Longrightarrow> look_error root run_id w e"
  by (simp add: look_error_def)

lemma run_dir_error: "run_dir L root w i = Inl e \<Longrightarrow> look_error root i w e"
  by (auto simp: run_dir_def res_simps Let_def look_error_def absent_def canonical_run_id_Inr
      split: sum.splits node.splits if_splits dest: plain_errors)

lemmas look_rules = run_dir_error plain_look [OF read_json_plain] plain_look [OF validate_persisted_plain]
  plain_look [OF supported_plain] plain_look [OF ensure_regular_file_plain] plain_look [OF read_bounded_text_plain]
  plain_look [OF atomic_write_json_plain]

lemma read_state_error: "read_state L J root w i = Inl e \<Longrightarrow> look_error root i w e"
  unfolding read_state_def bindE_Inl by (elim disjE exE conjE) (erule look_rules | force split: if_split_asm)+

lemma state_of_error: "bindE (state_of lb root w i) supported = Inl e \<Longrightarrow> look_error root i w e"
  unfolding bindE_Inl state_of_def using read_state_error supported_plain by (metis plain_look)

lemma supervisor_active_error: "supervisor_active L root w i = Inl e \<Longrightarrow> look_error root i w e"
  unfolding supervisor_active_def bindE_Inl Let_def
  by (elim disjE exE conjE) (erule look_rules | force simp: res_simps split: lock_result.split_asm)+



lemma observe_error: "observe_state_and_activity lb root i mw w = (w', Inl e) \<Longrightarrow> look_error root i w' e"
  by (auto simp: observe_state_and_activity_def Let_def thenW_Inl split: if_splits
      dest: state_of_error supervisor_active_error)

lemma load_view_error: "load_view lb root i mw w = (w', Inl e) \<Longrightarrow> look_error root i w' e"
  by (auto simp: load_view_def thenW_Inl dest: observe_error)




section \<open>Timeouts\<close>

text \<open>An error of a loop that looks: from a look, or the timeout once a clock has reached the deadline.\<close>

definition loop_error :: "path \<Rightarrow> string \<Rightarrow> turn list \<Rightarrow> instant \<Rightarrow> world \<Rightarrow> app_error \<Rightarrow> bool" where
  "loop_error root i turns deadline w e \<longleftrightarrow>
     look_error root i w e \<or> (err_code e = 3 \<and> (\<exists>tn\<in>set turns. deadline \<le> tn_now tn))"

lemma loop_error_look [simp]: "look_error root i w e \<Longrightarrow> loop_error root i turns deadline w e"
  by (simp add: loop_error_def)

lemma loop_error_now [simp]: "deadline \<le> tn_now tn \<Longrightarrow> loop_error root i (tn # turns) deadline w (timeout m)"
  by (auto simp: loop_error_def)


lemma wait_check_plain [plain_errors]: "wait_check condition i view = Inl e \<Longrightarrow> plain e"
  by (cases condition)
    (auto simp: wait_check_def wait_satisfied_def ready_satisfied_def Let_def split: if_splits readiness_status.splits)


text \<open>
  How \<open>wait\<close> gives up: at the first turn whose clock has reached the deadline, after a look of that turn in
  which the condition did not hold.
\<close>

definition gave_up ::
  "('u, 'd) libs \<Rightarrow> path \<Rightarrow> string \<Rightarrow> wait_condition \<Rightarrow> instant \<Rightarrow> turn list \<Rightarrow> world \<Rightarrow> bool" where
  "gave_up lb root run_id condition deadline turns w' \<longleftrightarrow>
     (\<exists>before tn after v view. turns = before @ tn # after \<and> deadline \<le> tn_now tn \<and>
        (\<forall>earlier\<in>set before. tn_now earlier < deadline) \<and>
        load_view lb root run_id (tn_look tn) v = (w', Inr view) \<and> \<not> condition_holds condition view)"

lemma gave_up_later:
  assumes "gave_up lb root run_id condition deadline turns w'" and "tn_now tn < deadline"
  shows "gave_up lb root run_id condition deadline (tn # turns) w'"
proof -
  obtain before tn' after v view where "turns = before @ tn' # after" "deadline \<le> tn_now tn'"
    "\<forall>earlier\<in>set before. tn_now earlier < deadline"
    "load_view lb root run_id (tn_look tn') v = (w', Inr view)" "\<not> condition_holds condition view"
    using assms(1) unfolding gave_up_def by blast
  then show ?thesis using assms(2) unfolding gave_up_def
    by (intro exI [of _ "tn # before"] exI [of _ tn'] exI [of _ after] exI [of _ v] exI [of _ view]) simp
qed

lemma wait_check_False: "wait_check condition run_id view = Inr False \<Longrightarrow> \<not> condition_holds condition view"
  using wait_check_True [of condition run_id view]
  by (cases "rv_observed_status view") (auto simp: wait_check_def split: if_splits)

lemma wait_loop_timeout:
  "wait_loop lb root run_id condition t deadline turns w = (w', Inl e) \<Longrightarrow> err_code e = 3 \<Longrightarrow>
   gave_up lb root run_id condition deadline turns w'"
proof (induction turns arbitrary: w)
  case (Cons tn turns)
  obtain u r where look: "load_view lb root run_id (tn_look tn) w = (u, r)" by (metis prod.collapse)
  show ?case
  proof (cases r)
    case (Inl e')
    then show ?thesis using Cons.prems look load_view_error [of lb root run_id "tn_look tn" w u e']
      by (auto simp: look_error_def plain_def)
  next
    case (Inr view)
    note look = look [unfolded Inr]
    consider (err) e' where "wait_check condition run_id view = Inl e'"
      | (ok) "wait_check condition run_id view = Inr True" | (no) "wait_check condition run_id view = Inr False"
      by (metis sum.exhaust)
    then show ?thesis
    proof cases
      case err
      then show ?thesis using Cons.prems look wait_check_plain [OF err] by (auto simp: plain_def)
    next
      case ok
      then show ?thesis using Cons.prems look by simp
    next
      case no
      show ?thesis
      proof (cases "deadline \<le> tn_now tn")
        case True
        then have "w' = u" using Cons.prems look no by simp
        then show ?thesis unfolding gave_up_def using True look wait_check_False [OF no]
          by (intro exI [of _ "[]"] exI [of _ tn] exI [of _ turns] exI [of _ w] exI [of _ view]) simp
      next
        case False
        then show ?thesis using Cons look no by (intro gave_up_later) simp_all
      qed
    qed
  qed
qed simp



lemma create_run_plain [plain_errors]: "create_run L J JS root st spec token w = (w', Inl e) \<Longrightarrow> plain e"
  by (auto simp: create_run_def Let_def thenW_Inl split: sum.splits dest: plain_errors)


section \<open>What the answer of wait means\<close>

text \<open>
  C18: what \<open>wait\<close> answers is so. When it returns, the condition holds in the view that it gives, which it
  observed last, and that view is not orphaned. Once the clock of a turn has reached the deadline it has
  returned or failed, so it never waits longer than its timeout and the looks of one turn; and it reports a
  timeout only at the first turn whose clock has reached the deadline, after looking once more and finding
  that the condition did not hold.
\<close>

theorem wait_answer_holds:
  assumes "wait_command lb root run_id condition timeout_ms started turns w = (w', r)"
  shows "(\<forall>res. r = Inr (Returned res) \<longrightarrow>
      wr_condition res = condition \<and> condition_holds condition (wr_run res) \<and>
      rv_observed_status (wr_run res) = Consistent \<and> seen_in lb root run_id turns w' (wr_run res)) \<and>
    ((\<exists>tn\<in>set turns. wait_deadline started timeout_ms \<le> tn_now tn) \<longrightarrow> r \<noteq> Inr Waiting) \<and>
    (\<forall>e. r = Inl e \<and> err_code e = 3 \<longrightarrow>
      gave_up lb root run_id condition (wait_deadline started timeout_ms) turns w')"
proof (cases "timeout_ms = 0 \<or> timeout_ms > 24 * 60 * 60 * 1000")
  case True
  then have "r = Inl (usage ''wait timeout must be greater than zero and at most 24h'')"
    using assms by (auto simp: wait_command_def)
  then show ?thesis by simp
next
  case False
  then have loop: "wait_loop lb root run_id condition timeout_ms (wait_deadline started timeout_ms) turns w = (w', r)"
    using assms by (auto simp: wait_command_def)
  then show ?thesis
    using wait_loop_Returned [of lb root run_id condition timeout_ms _ turns w w']
      wait_loop_ends [of turns "wait_deadline started timeout_ms" lb root run_id condition timeout_ms w]
      wait_loop_timeout [of lb root run_id condition timeout_ms _ turns w w']
    by auto
qed

theorem wait_answer_holds_witness:
  "\<forall>lb :: (128 word, bytes) libs. \<forall>JS spec. \<exists>res.
     wait_command (ended_libs lb) [''srv''] (rs_run_id example_run) WaitExit 1000 0 [\<lparr>tn_look = still, tn_now = 5\<rparr>]
       (ended_world JS spec) = (ended_world JS spec, Inr (Returned res)) \<and> condition_holds WaitExit (wr_run res)"
proof (intro allI)
  fix lb :: "(128 word, bytes) libs" and JS spec
  let ?lb = "ended_libs lb" and ?w = "ended_world JS spec" and ?id = "rs_run_id example_run"
  let ?wait = "wait_command ?lb [''srv''] ?id WaitExit 1000 0 [\<lparr>tn_look = still, tn_now = 5\<rparr>] ?w"
  have "load_view ?lb [''srv''] ?id still ?w = (?w, Inr (run_view_new ended_run False))"
    by (rule ended_run_viewed)
  then obtain res where res: "?wait = (?w, Inr (Returned res))"
    by (simp add: wait_command_def wait_check_def wait_satisfied_def ended_run_def)
  then show "\<exists>res. ?wait = (?w, Inr (Returned res)) \<and> condition_holds WaitExit (wr_run res)"
    using wait_answer_holds [OF res] by auto
qed


section \<open>The options of start\<close>

lemma check_limits_plain [plain_errors]: "check_limits opts = Inl e \<Longrightarrow> plain e"
  by (auto simp: check_limits_def parse_optional_def res_simps split: if_splits option.splits dest: plain_errors)

lemma working_directory_plain [plain_errors]: "working_directory env opts = Inl e \<Longrightarrow> plain e"
  by (auto simp: working_directory_def res_simps Let_def split: if_splits)

lemma check_readiness_timeout_plain [plain_errors]: "check_readiness_timeout opts = Inl e \<Longrightarrow> plain e"
  by (auto simp: check_readiness_timeout_def res_simps split: if_splits dest: plain_errors)

lemma check_command_plain [plain_errors]: "check_command utf8 cs = Inl e \<Longrightarrow> plain e"
  unfolding check_command_def bindE_Inl
  by (elim disjE exE conjE) (force dest!: mapE_Inl split: if_split_asm, force split: list.split_asm if_split_asm)

lemma owner_token_plain [plain_errors]: "owner_token r = Inl e \<Longrightarrow> plain e"
  by (auto simp: owner_token_def res_simps)

lemma condition_plain [plain_errors]:
  "tcp_condition a = Inl e \<Longrightarrow> plain e" "log_condition a = Inl e \<Longrightarrow> plain e"
  "port_condition ps a = Inl e \<Longrightarrow> plain e" "readiness_path d a = Inl e \<Longrightarrow> plain e"
  "validate_http_url u a = Inl e \<Longrightarrow> plain e"
  by (auto simp: tcp_condition_def log_condition_def port_condition_def readiness_path_def validate_http_url_def
      http_host_error_def res_simps split: if_splits)

lemma build_conditions_plain [plain_errors]: "build_conditions u ts hs fs ls ps leased d = Inl e \<Longrightarrow> plain e"
  by (auto simp: build_conditions_def res_simps split: if_splits dest!: mapE_Inl dest: plain_errors)

lemma prepare_start_plain [plain_errors]: "prepare_start lb u env opts = Inl e \<Longrightarrow> plain e"
  unfolding prepare_start_def bindE_Inl case_prod_unfold Let_def
  by (elim disjE exE conjE) (auto dest: plain_errors)




section \<open>The commands\<close>

fun named_run :: "commands \<Rightarrow> string option" where
  "named_run (StatusCmd i) = Some i"
| "named_run (WaitCmd i _ _) = Some i"
| "named_run (LogsCmd i _ _ _) = Some i"
| "named_run (StopCmd i _) = Some i"
| "named_run (LeasesCmd i) = Some i"
| "named_run _ = None"

text \<open>
  The runs whose directory a command looks for, in the store that it found: the run it names, the run that
  \<open>start\<close> has made, or the runs that the listing gives.
\<close>

fun looks_for :: "('u, 'd) libs \<Rightarrow> 'u surroundings \<Rightarrow> path \<Rightarrow> world \<Rightarrow> commands \<Rightarrow> string \<Rightarrow> bool" where
  "looks_for lb s root w (StartCmd opts) i \<longleftrightarrow>
     (\<exists>p. prepare_start lb (sd_url s) (sd_start_env s) opts = Inr p \<and> i = rs_run_id (pr_state p))"
| "looks_for lb s root w ListCmd i \<longleftrightarrow> (\<exists>ids. list_run_ids (lb_ulid lb) root w = Inr ids \<and> i \<in> set ids)"
| "looks_for lb s root w (GcCmd older_than doit) i \<longleftrightarrow>
     (\<exists>ids. list_run_ids (lb_ulid lb) root w = Inr ids \<and> i \<in> set ids)"
| "looks_for lb s root w command i \<longleftrightarrow> named_run command = Some i"

text \<open>A clock of the command has reached one of its deadlines.\<close>

fun deadline_passed :: "'u surroundings \<Rightarrow> commands \<Rightarrow> bool" where
  "deadline_passed s (StartCmd opts) \<longleftrightarrow> (\<exists>d. parse_duration (op_startup_timeout opts) = Inr d \<and>
     (\<exists>tn\<in>set (sw_turns (sd_start s)). sw_started (sd_start s) + unat d * 1000000 \<le> tn_now tn))"
| "deadline_passed s (WaitCmd _ _ t) \<longleftrightarrow> (\<exists>d. parse_duration t = Inr d \<and>
     (\<exists>tn\<in>set (sd_turns s). wait_deadline (sd_started s) d \<le> tn_now tn))"
| "deadline_passed s (StopCmd _ grace) \<longleftrightarrow> (\<exists>d. parse_duration grace = Inr d \<and>
     (\<exists>tn\<in>set (st_turns (sd_stop s)). st_started (sd_stop s) + 5 * 1000000000 \<le> tn_now tn \<or>
        st_written (sd_stop s) + unat d * 1000000 + 5 * 1000000000 \<le> tn_now tn))"
| "deadline_passed s _ \<longleftrightarrow> False"

definition classified :: "('u, 'd) libs \<Rightarrow> 'u surroundings \<Rightarrow> path \<Rightarrow> world \<Rightarrow> commands \<Rightarrow> world \<Rightarrow> app_error \<Rightarrow> bool" where
  "classified lb s root w command w' e \<longleftrightarrow>
     plain e \<or> (err_code e = 4 \<and> (\<exists>i. looks_for lb s root w command i \<and> absent root i w')) \<or>
     (err_code e = 3 \<and> deadline_passed s command)"

lemma classified_plain [simp]: "plain e \<Longrightarrow> classified lb s root w command w' e"
  by (simp add: classified_def)
















end
