(* ===== verification/Live_Logs.thy ===== *)
theory Live_Logs
  imports Log_Evidence Log_Live Terminal_Runs
begin

text \<open>
  The log file over the whole of a supervised run. What the summary of a state counts stays at the
  front of the file, whatever is appended, and however an append fails; so the summary that a reader
  holds, from the memory of the supervisor or from the run document, always describes a part of the
  file that the reader finds complete, and that holds the beginning of what the process printed.
\<close>

section \<open>The file of a writer\<close>

text \<open>A writer, with all the bytes it was given.\<close>

type_synonym 'd fed = "'d log_writer \<times> bytes"

definition whole_log :: "log_codec \<Rightarrow> log_entry list \<Rightarrow> 'd fed \<Rightarrow> bool" where
  "whole_log C es f \<longleftrightarrow>
     writer_holds C (fst f) es \<and> log_entries_ok es \<and> unat (sm_max_bytes (lw_summary (fst f))) < 2 ^ 64 - 1 \<and>
     concat (map entry_bytes es) = take (unat (sm_max_bytes (lw_summary (fst f)))) (snd f)"

text \<open>What a summary counts.\<close>

definition summarises :: "log_entry list \<Rightarrow> log_summary \<Rightarrow> bool" where
  "summarises es sm \<longleftrightarrow> unat (sm_next_cursor sm) = length es + 1 \<and> unat (sm_captured_bytes sm) = entries_size es"

lemma whole_log_summary: "whole_log C es f \<Longrightarrow> summarises es (lw_summary (fst f))"
  by (simp add: whole_log_def writer_holds_def summarises_def)

lemma whole_log_file: "whole_log C es f \<Longrightarrow> lw_file (fst f) = log_file C (records_of C es)"
  by (simp add: whole_log_def writer_holds_def)

lemma whole_log_length: "whole_log C es f \<Longrightarrow> length es < 2 ^ 64 - 1"
  using length_le_size [of es] by (auto simp: whole_log_def writer_holds_def log_entries_ok_def)

lemma whole_log_upto: "whole_log C es f \<Longrightarrow> log_upto C es (lw_file (fst f))"
  using whole_log_length [of C es f] by (simp add: log_upto_def whole_log_file) (simp add: whole_log_def)

lemma whole_log_output: "whole_log C (es @ es') f \<Longrightarrow> prefix (concat (map entry_bytes es)) (snd f)"
  unfolding whole_log_def by (metis append_prefixD concat_append map_append take_is_prefix)

text \<open>How a writer moves on: the file grows, and while nothing fails it holds whole records.\<close>

definition advances :: "log_codec \<Rightarrow> 'd fed \<Rightarrow> 'd fed \<Rightarrow> bool \<Rightarrow> bool" where
  "advances C f f' whole \<longleftrightarrow> prefix (snd f) (snd f') \<and>
     (\<forall>es. whole_log C es f \<longrightarrow> prefix (lw_file (fst f)) (lw_file (fst f')) \<and>
        (\<exists>es'. log_upto C (es @ es') (lw_file (fst f')) \<and> (whole \<longrightarrow> whole_log C (es @ es') f')))"

lemma advances_refl: "advances C f f whole"
  unfolding advances_def using whole_log_upto by (metis append_Nil2 prefix_order.order_refl)

lemma advances_trans:
  assumes "advances C f f1 True" and "advances C f1 f2 whole"
  shows "advances C f f2 whole"
  unfolding advances_def
proof (intro allI impI conjI)
  show "prefix (snd f) (snd f2)"
    using assms unfolding advances_def by (blast intro: prefix_order.order_trans)
  fix es assume "whole_log C es f"
  then obtain es' where one: "prefix (lw_file (fst f)) (lw_file (fst f1))" "whole_log C (es @ es') f1"
    using assms(1) unfolding advances_def by blast
  then obtain es'' where two: "prefix (lw_file (fst f1)) (lw_file (fst f2))"
    "log_upto C ((es @ es') @ es'') (lw_file (fst f2))" "whole \<longrightarrow> whole_log C ((es @ es') @ es'') f2"
    using assms(2) unfolding advances_def by blast
  show "prefix (lw_file (fst f)) (lw_file (fst f2))" using one(1) two(1) by (rule prefix_order.order_trans)
  show "\<exists>es'. log_upto C (es @ es') (lw_file (fst f2)) \<and> (whole \<longrightarrow> whole_log C (es @ es') f2)"
    using two(2,3) unfolding append_assoc by blast
qed

lemma advances_weaken: "advances C f f' True \<Longrightarrow> advances C f f' whole"
  unfolding advances_def by blast

lemma advances_more: "advances C f (w, out) False \<Longrightarrow> prefix out out' \<Longrightarrow> advances C f (w, out') False"
  by (auto simp: advances_def intro: prefix_order.order_trans)

text \<open>One chunk no longer than the buffer of the capture, whatever the outcome of the write.\<close>

lemma record_log_advances:
  assumes "length (ch_bytes ch) \<le> read_chunk_bytes" and "record_log C D outcome now ch w = (w', r)"
  shows "advances C (w, out) (w', out @ ch_bytes ch) (r = Inr ())"
  unfolding advances_def fst_conv snd_conv
proof (intro allI impI conjI)
  show "prefix out (out @ ch_bytes ch)" by simp
  fix es assume f: "whole_log C es (w, out)"
  let ?max = "unat (sm_max_bytes (lw_summary w))" and ?f' = "(w', out @ ch_bytes ch)"
  let ?room = "?max - entries_size es"
  let ?new = "kept ?room [(now, ch)]"
  have h: "writer_holds C w es" and max: "?max < 2 ^ 64 - 1" and es: "log_entries_ok es"
    and kept_out: "concat (map entry_bytes es) = take ?max out"
    using f by (simp_all add: whole_log_def)
  have ok: "log_entries_ok (es @ ?new)"
    using es kept_ok [of "[(now, ch)]" ?room] assms(1) by (auto simp: log_entries_ok_def)
  have size: "entries_size (es @ ?new) \<le> ?max"
    using h by (auto simp: kept_size writer_holds_def)
  then have len: "length (es @ ?new) < 2 ^ 64 - 1"
    using length_le_size [of "es @ ?new"] ok max by (auto simp: log_entries_ok_def)
  have "entries_size es = min ?max (length out)" using kept_out by (simp add: entries_size_def min.commute)
  then have all_out: "concat (map entry_bytes (es @ ?new)) = take ?max (out @ ch_bytes ch)"
    using kept_prefix [of ?room "[(now, ch)]"] kept_out by (simp add: min_def)
  obtain w1 r1 where run: "record_log C D Written now ch w = (w1, r1)" by (metis surj_pair)
  note step = record_log_written [OF h max run]
  have w1: "whole_log C (es @ ?new) (w1, out @ ch_bytes ch)"
    using step ok max all_out by (simp add: whole_log_def)
  note files = whole_log_file [OF f, unfolded fst_conv] whole_log_file [OF w1, unfolded fst_conv]
  have "prefix (lw_file w) (lw_file w') \<and> log_upto C (es @ ?new) (lw_file w') \<and>
      (r = Inr () \<longrightarrow> whole_log C (es @ ?new) ?f')"
  proof (cases "r = Inr ()")
    case True
    then have "record_log C D outcome now ch w = (w', Inr ())" using assms(2) by simp
    then have "w' = w1" using record_log_Inr [of C D outcome now ch w w'] run by simp
    then show ?thesis
      using w1 whole_log_upto [OF w1] unfolding fst_conv files by (simp add: files log_file_prefix)
  next
    case False
    let ?captured = "min (length (ch_bytes ch)) (available w)"
    let ?r = "record_for C now (sm_next_cursor (lw_summary w)) (ch_stream ch) (take ?captured (ch_bytes ch))"
    from False have torn: "0 < ?captured" "\<exists>n. lw_file w' = lw_file w @ take n (log_line C ?r)"
      using assms(2) by (auto simp: record_log_def append_partial_def Let_def split: if_splits write_outcome.splits)
    have "w1 = add_dropped (length (ch_bytes ch) - ?captured) (append_record C ?r (update_digest D ch w))"
      using run torn(1) by (simp add: record_log_def Let_def)
    then have "lw_file w1 = lw_file w @ log_line C ?r" by (simp add: add_dropped_def append_record_def)
    then have "prefix (lw_file w') (lw_file w1)" using torn(2) by (auto simp: take_is_prefix)
    then show ?thesis using torn(2) ok len False by (auto simp: log_upto_def files)
  qed
  then show "prefix (lw_file w) (lw_file w')" "\<exists>es'. log_upto C (es @ es') (lw_file w') \<and>
      (r = Inr () \<longrightarrow> whole_log C (es @ es') ?f')" by blast+
qed

section \<open>The supervisor\<close>

text \<open>The chunks of an iteration come out of the capture threads, a buffer at a time.\<close>

fun received :: "(instant \<times> receipt) list \<Rightarrow> arrival list" where
  "received [] = []"
| "received ((now, Chunk a) # turns) = a # received turns"
| "received ((now, Empty) # turns) = received turns"
| "received ((now, Disconnected) # turns) = received turns"

definition buffered :: "arrival list \<Rightarrow> bool" where
  "buffered arrivals \<longleftrightarrow> (\<forall>a\<in>set arrivals. length (ch_bytes (ar_chunk a)) \<le> read_chunk_bytes)"

definition buffered_tick :: "tick \<Rightarrow> bool" where
  "buffered_tick tk \<longleftrightarrow> buffered (tk_arrivals tk) \<and> buffered (received (tk_turns tk))"

lemma buffered_Cons [simp]:
  "buffered (a # arrivals) \<longleftrightarrow> length (ch_bytes (ar_chunk a)) \<le> read_chunk_bytes \<and> buffered arrivals"
  by (simp add: buffered_def)

text \<open>The threads read into a buffer of that size, so what they send is no longer.\<close>

lemma capture_buffered:
  "\<forall>bs. Read_ok bs \<in> set reads \<longrightarrow> length bs \<le> read_chunk_bytes \<Longrightarrow> ch \<in> set (capture_stream stream alive n reads) \<Longrightarrow>
   length (ch_bytes ch) \<le> read_chunk_bytes"
  by (induction stream alive n reads rule: capture_stream.induct) (auto split: if_splits)

text \<open>The bytes of the chunks, in the order in which they are received, and those of one batch.\<close>

definition fed_bytes :: "arrival list \<Rightarrow> bytes" where
  "fed_bytes arrivals = concat (map (\<lambda>a. ch_bytes (ar_chunk a)) arrivals)"

lemma fed_bytes_simps [simp]:
  "fed_bytes [] = []" "fed_bytes (a # arrivals) = ch_bytes (ar_chunk a) @ fed_bytes arrivals"
  by (simp_all add: fed_bytes_def)

definition batch_bytes :: "tick \<Rightarrow> bytes" where
  "batch_bytes tk = fed_bytes (take log_drain_batch_chunks (tk_arrivals tk))"

text \<open>A state of the run, in memory or on disk, beside the writer that goes on, or that has stopped.\<close>

definition live_doc :: "log_codec \<Rightarrow> 'd fed \<Rightarrow> run_state \<Rightarrow> bool" where
  "live_doc C f st \<longleftrightarrow> \<not> is_terminal (rs_status st) \<and>
     (\<exists>es es'. summarises es (rs_logs st) \<and> whole_log C (es @ es') f)"

definition left_doc :: "log_codec \<Rightarrow> 'd fed \<Rightarrow> run_state \<Rightarrow> bool" where
  "left_doc C f st \<longleftrightarrow>
     (\<exists>es es'. summarises es (rs_logs st) \<and> prefix (concat (map entry_bytes es)) (snd f) \<and>
        prefix (log_file C (records_of C es)) (lw_file (fst f)) \<and> log_upto C (es @ es') (lw_file (fst f)) \<and>
        (is_terminal (rs_status st) \<longrightarrow> es' = [] \<and> lw_file (fst f) = log_file C (records_of C es)))"

lemma live_advances:
  assumes "live_doc C f st" and "advances C f f' whole"
  shows "left_doc C f' st" and "whole \<Longrightarrow> live_doc C f' st"
proof -
  obtain es es' where es: "summarises es (rs_logs st)" "whole_log C (es @ es') f" "\<not> is_terminal (rs_status st)"
    using assms(1) by (auto simp: live_doc_def)
  obtain es'' where grown: "prefix (lw_file (fst f)) (lw_file (fst f'))"
    "log_upto C ((es @ es') @ es'') (lw_file (fst f'))" "whole \<longrightarrow> whole_log C ((es @ es') @ es'') f'" "prefix (snd f) (snd f')"
    using assms(2) es(2) unfolding advances_def by blast
  have "prefix (log_file C (records_of C es)) (lw_file (fst f'))"
    using log_file_prefix grown(1) unfolding whole_log_file [OF es(2)] by (rule prefix_order.order_trans)
  moreover have "prefix (concat (map entry_bytes es)) (snd f')"
    using whole_log_output [OF es(2)] grown(4) by (rule prefix_order.order_trans)
  ultimately show "left_doc C f' st" using es grown(2) unfolding left_doc_def append_assoc by blast
  show "whole \<Longrightarrow> live_doc C f' st" using es grown(3) unfolding live_doc_def append_assoc by blast
qed

lemma live_left: "live_doc C f st \<Longrightarrow> left_doc C f st"
  using live_advances(1) advances_refl by blast

lemma left_more: "left_doc C (w, out) st \<Longrightarrow> prefix out out' \<Longrightarrow> left_doc C (w, out') st"
  unfolding left_doc_def fst_conv snd_conv using prefix_order.order_trans by blast

lemma live_same:
  "live_doc C f st \<Longrightarrow> rs_logs st' = rs_logs st \<Longrightarrow> is_terminal (rs_status st') = is_terminal (rs_status st) \<Longrightarrow>
   live_doc C f st'"
  by (simp add: live_doc_def)

text \<open>
  Of the memory of the supervisor and of the run document; \<open>f0\<close> is the writer at an earlier time, and
  \<open>out\<close> what the writer was given since its start.
\<close>

definition both_docs :: "('u, 'd) libs \<Rightarrow> path \<Rightarrow> (run_state \<Rightarrow> bool) \<Rightarrow> 'd sup \<Rightarrow> bool" where
  "both_docs lb dir P su \<longleftrightarrow> P (su_state su) \<and>
     (\<exists>st. node_at (su_world su) (state_path dir) = Some (Regular (js_write (lb_state lb) st @ [10])) \<and> P st)"

definition logs_live :: "('u, 'd) libs \<Rightarrow> path \<Rightarrow> 'd fed \<Rightarrow> bytes \<Rightarrow> 'd sup \<Rightarrow> bool" where
  "logs_live lb dir f0 out su \<longleftrightarrow> advances (lb_log lb) f0 (su_logs su, out) True \<and>
     both_docs lb dir (live_doc (lb_log lb) (su_logs su, out)) su"

definition logs_left :: "('u, 'd) libs \<Rightarrow> path \<Rightarrow> 'd fed \<Rightarrow> bytes \<Rightarrow> 'd sup \<Rightarrow> bool" where
  "logs_left lb dir f0 out su \<longleftrightarrow> advances (lb_log lb) f0 (su_logs su, out) False \<and>
     both_docs lb dir (left_doc (lb_log lb) (su_logs su, out)) su"

lemma both_docs_mono: "both_docs lb dir P su \<Longrightarrow> (\<And>st. P st \<Longrightarrow> Q st) \<Longrightarrow> both_docs lb dir Q su"
  by (auto simp: both_docs_def)

lemma logs_live_left: "logs_live lb dir f0 out su \<Longrightarrow> logs_left lb dir f0 out su"
  unfolding logs_live_def logs_left_def by (blast intro: advances_weaken both_docs_mono live_left)

lemma logs_left_more: "logs_left lb dir f0 out su \<Longrightarrow> prefix out out' \<Longrightarrow> logs_left lb dir f0 out' su"
  unfolding logs_left_def by (blast intro: advances_more both_docs_mono left_more)

text \<open>
  The stages before the exit: with a result the writer goes on, having got exactly what was given; with an
  error it has stopped.
\<close>

definition logs_ok :: "('u, 'd) libs \<Rightarrow> path \<Rightarrow> 'd fed \<Rightarrow> bytes \<Rightarrow> 'd sup \<times> (app_error + 'a) \<Rightarrow> bool" where
  "logs_ok lb dir f0 out m \<longleftrightarrow>
     logs_left lb dir f0 out (fst m) \<and> (\<forall>x. snd m = Inr x \<longrightarrow> logs_live lb dir f0 out (fst m))"

lemma logs_ok_thenW:
  assumes "logs_ok lb dir f0 out m" and "\<And>x s. logs_live lb dir f0 out s \<Longrightarrow> logs_ok lb dir f0 out' (f x s)"
    and "prefix out out'"
  shows "logs_ok lb dir f0 out' (thenW m f)"
  using assms by (cases m; cases "snd m") (auto simp: logs_ok_def intro: logs_left_more)

lemma logs_ok_live: "logs_live lb dir f0 out (fst m) \<Longrightarrow> logs_ok lb dir f0 out m"
  by (simp add: logs_ok_def logs_live_left)

lemma both_docs_step:
  assumes "both_docs lb dir P su" and "\<And>st. P st \<Longrightarrow> Q st" and "Q (su_state su')"
    and "node_at (su_world su') (state_path dir) = node_at (su_world su) (state_path dir)"
  shows "both_docs lb dir Q su'"
  using assms by (auto simp: both_docs_def)

lemma logs_ok_chunk:
  assumes "logs_live lb dir f0 out su" and "length (ch_bytes (ar_chunk a)) \<le> read_chunk_bytes"
  shows "logs_ok lb dir f0 (out @ ch_bytes (ar_chunk a)) (record_chunk lb a su)"
proof -
  obtain lg r where rec: "chunk_recorded lb a su = (lg, r)" by (metis surj_pair)
  let ?C = "lb_log lb" and ?su' = "fst (record_chunk lb a su)" and ?out' = "out @ ch_bytes (ar_chunk a)"
  have grown: "advances ?C (su_logs su, out) (lg, ?out') (r = Inr ())" by (rule record_log_advances [OF assms(2) rec])
  have docs: "both_docs lb dir (live_doc ?C (su_logs su, out)) su" and from_start: "advances ?C f0 (su_logs su, out) True"
    using assms(1) by (simp_all add: logs_live_def)
  then have "live_doc ?C (su_logs su, out) (su_state su)" by (simp add: both_docs_def)
  then have st: "live_doc ?C (su_logs su, out) (su_state ?su')" by (rule live_same) (simp_all add: record_chunk_eq)
  have frame: "node_at (su_world ?su') (state_path dir) = node_at (su_world su) (state_path dir)" "su_logs ?su' = lg"
    by (simp_all add: record_chunk_eq rec)
  have all: "advances ?C f0 (lg, ?out') (r = Inr ())" by (rule advances_trans [OF from_start grown])
  have "advances ?C f0 (lg, ?out') False" 
    using all advances_weaken [of ?C f0 "(lg, ?out')" False] by (cases "r = Inr ()") simp_all
  then have "logs_left lb dir f0 ?out' ?su'" unfolding logs_left_def frame(2)
    by (intro conjI, assumption, intro both_docs_step [OF docs]) (auto intro: live_advances(1) [OF _ grown] st frame(1))
  moreover have "logs_live lb dir f0 ?out' ?su'" if "r = Inr ()" unfolding logs_live_def frame(2)
    by (intro conjI both_docs_step [OF docs]) (use all that in simp, auto intro: live_advances(2) [OF _ grown that] st frame(1))
  moreover have "r = Inr ()" if "snd (record_chunk lb a su) = Inr x" for x
    using that by (cases r) (simp_all add: record_chunk_eq rec)
  ultimately show ?thesis by (auto simp: logs_ok_def)
qed

lemma logs_ok_drain:
  "logs_live lb dir f0 out su \<Longrightarrow> buffered arrivals \<Longrightarrow>
   logs_ok lb dir f0 (out @ fed_bytes (take n arrivals)) (drain_batch lb n arrivals changed su)"
proof (induction lb n arrivals changed su arbitrary: out rule: drain_batch.induct)
  case (3 lb n a arrivals changed su)
  show ?case unfolding drain_batch.simps
  proof (rule logs_ok_thenW [OF logs_ok_chunk])
    fix c s assume "logs_live lb dir f0 (out @ ch_bytes (ar_chunk a)) s"
    from "3.IH" [OF this] show "logs_ok lb dir f0 (out @ fed_bytes (take (Suc n) (a # arrivals)))
        (drain_batch lb n arrivals (changed \<or> c) s)"
      using "3.prems"(2) by simp
  qed (use "3.prems" in simp_all)
qed (simp_all add: logs_ok_live)

text \<open>The last drain takes what it can get.\<close>

definition logs_within :: "('u, 'd) libs \<Rightarrow> path \<Rightarrow> 'd fed \<Rightarrow> bytes \<Rightarrow> 'd sup \<times> (app_error + 'a) \<Rightarrow> bool" where
  "logs_within lb dir f0 out m \<longleftrightarrow> logs_left lb dir f0 out (fst m) \<and>
     (\<forall>x. snd m = Inr x \<longrightarrow> (\<exists>got. prefix got out \<and> logs_live lb dir f0 got (fst m)))"

lemma logs_within_live: "logs_live lb dir f0 got (fst m) \<Longrightarrow> prefix got out \<Longrightarrow> logs_within lb dir f0 out m"
  unfolding logs_within_def using logs_live_left logs_left_more by blast

lemma logs_within_drain_until:
  "logs_live lb dir f0 out su \<Longrightarrow> buffered (received turns) \<Longrightarrow>
   logs_within lb dir f0 (out @ fed_bytes (received turns)) (drain_until_closed lb deadline turns su)"
proof (induction lb deadline turns su arbitrary: out rule: drain_until_closed.induct)
  case (2 lb deadline now receipt turns su)
  show ?case
  proof (cases "deadline - now = 0")
    case True
    then show ?thesis using "2.prems"(1) by (simp add: logs_within_live)
  next
    case False
    show ?thesis
    proof (cases receipt)
      case (Chunk a)
      let ?out = "out @ ch_bytes (ar_chunk a)"
      obtain s r where rec: "record_chunk lb a su = (s, r)" by (rule prod.exhaust)
      have "logs_ok lb dir f0 ?out (s, r)"
        unfolding rec [symmetric] using "2.prems" Chunk by (intro logs_ok_chunk) simp_all
      then have left: "logs_left lb dir f0 ?out s" and live: "\<forall>x. r = Inr x \<longrightarrow> logs_live lb dir f0 ?out s"
        by (auto simp: logs_ok_def)
      show ?thesis
      proof (cases r)
        case (Inl e)
        then show ?thesis using logs_left_more [OF left] False Chunk rec by (simp add: logs_within_def)
      next
        case (Inr x)
        then show ?thesis using "2.IH"(1) [OF False Chunk, of ?out s] live "2.prems"(2) False Chunk rec by simp
      qed
    next
      case Empty
      then show ?thesis using "2.IH"(2) [OF False Empty] "2.prems" False by simp
    next
      case Disconnected
      then show ?thesis using "2.prems" False by (simp add: logs_within_live)
    qed
  qed
qed (simp add: logs_within_live)

text \<open>The stages that leave the logs alone, whatever their result.\<close>

lemma both_docs_frame:
  "su_state su' = su_state su \<Longrightarrow>
   node_at (su_world su') (state_path dir) = node_at (su_world su) (state_path dir) \<Longrightarrow>
   both_docs lb dir P su' = both_docs lb dir P su"
  by (simp add: both_docs_def)

lemma both_docs_persist: "both_docs lb dir P su \<Longrightarrow> both_docs lb dir P (fst (persist lb dir su))"
proof -
  assume docs: "both_docs lb dir P su"
  obtain su' r where p: "persist lb dir su = (su', r)" by (metis surj_pair)
  then show ?thesis by (cases rule: persist_cases) (use docs p in \<open>auto simp: both_docs_def\<close>)
qed

lemma persist_logs [simp]: "su_logs (fst (persist lb dir su)) = su_logs su"
  using persist_steady [of lb dir su] by (cases "persist lb dir su") (simp add: steady_def)

lemma logs_live_persist [keeps]: "logs_live lb dir f0 out su \<Longrightarrow> logs_live lb dir f0 out (fst (persist lb dir su))"
  by (simp add: logs_live_def both_docs_persist)

lemma logs_live_same:
  assumes "logs_live lb dir f0 out su" and "su_logs su' = su_logs su" and "rs_logs (su_state su') = rs_logs (su_state su)"
    and "is_terminal (rs_status (su_state su')) = is_terminal (rs_status (su_state su))"
    and "node_at (su_world su') (state_path dir) = node_at (su_world su) (state_path dir)"
  shows "logs_live lb dir f0 out su'"
  using assms by (auto simp: logs_live_def both_docs_def live_doc_def)

lemma logs_live_frame [simp]:
  "logs_live lb dir f0 out (su\<lparr>su_tracker := t\<rparr>) = logs_live lb dir f0 out su"
  "logs_live lb dir f0 out (su\<lparr>su_stopping := s\<rparr>) = logs_live lb dir f0 out su"
  "logs_live lb dir f0 out (su\<lparr>su_last_write := i\<rparr>) = logs_live lb dir f0 out su"
  "logs_live lb dir f0 out (su\<lparr>su_armed := b\<rparr>) = logs_live lb dir f0 out su"
  "logs_live lb dir f0 out (su\<lparr>su_alloc := al\<rparr>) = logs_live lb dir f0 out su"
  "logs_live lb dir f0 out (send_signal g su) = logs_live lb dir f0 out su"
  "logs_live lb dir f0 out (stamp tk at su) = logs_live lb dir f0 out su"
  "logs_live lb dir f0 out (on_cleanup f su) = logs_live lb dir f0 out su"
  "logs_live lb dir f0 out (on_state (\<lambda>st. st\<lparr>rs_readiness := rd\<rparr>) su) = logs_live lb dir f0 out su"
  by (simp_all add: logs_live_def both_docs_def live_doc_def send_signal_def stamp_def on_cleanup_def on_state_def)

lemma logs_live_thenW:
  "logs_live lb dir f0 out (fst m) \<Longrightarrow> (\<And>x s. logs_live lb dir f0 out s \<Longrightarrow> logs_live lb dir f0 out (fst (f x s))) \<Longrightarrow>
   logs_live lb dir f0 out (fst (thenW m f))"
  by (rule thenW_keeps [where P = "logs_live lb dir f0 out"])

lemma logs_live_poll [keeps]: "logs_live lb dir f0 out su \<Longrightarrow> logs_live lb dir f0 out (fst (poll_readiness lb dir tk d su))"
  by (auto simp: poll_readiness_def Let_def split: prod.split intro!: logs_live_thenW keeps)

lemma logs_live_kill [simp]: "logs_live lb dir f0 out (fst (start_kill_tolerant outcome su)) = logs_live lb dir f0 out su"
  by (simp add: start_kill_tolerant_def)

lemma logs_live_request [keeps]:
  "logs_live lb dir f0 out su \<Longrightarrow> logs_live lb dir f0 out (fst (request_stop lb outcome now grace reason su))"
  by (simp add: request_stop_def Let_def logs_live_thenW)

lemma logs_live_begin_stop [keeps]:
  "logs_live lb dir f0 out su \<Longrightarrow> logs_live lb dir f0 out (fst (begin_stop lb dir tk grace reason su))"
  unfolding begin_stop_def by (rule logs_live_thenW) (simp_all add: keeps)

text \<open>A world in which others leave the document alone.\<close>

lemma logs_live_world:
  "logs_live lb dir f0 out su \<Longrightarrow> undisturbed dir (su_world su) w \<Longrightarrow> logs_live lb dir f0 out (su\<lparr>su_world := w\<rparr>)"
  by (erule logs_live_same) (simp_all add: undisturbed_def)

lemma logs_live_in_world:
  "logs_live lb dir f0 out su \<Longrightarrow> undisturbed dir (su_world su) (fst (f (su_world su))) \<Longrightarrow>
   logs_live lb dir f0 out (fst (in_world f su))"
  by (cases "f (su_world su)") (simp add: in_world_def logs_live_world)

lemma undisturbed_read_stop:
  assumes "spares dir meanwhile"
  shows "undisturbed dir w (fst (read_stop_request lb dir spec meanwhile w))"
proof (cases "read_json (lb_stop lb) w (stop_path dir)")
  case (Inl e)
  then show ?thesis using assms by (simp add: read_stop_request_def Let_def spares_def)
next
  case (Inr request)
  have "undisturbed dir w (fst (thenW (remove_file (stop_path dir) w) (\<lambda>_ w. (w, Inr (Some request)))))"
    by (rule thenW_keeps [where P = "undisturbed dir w"]) (simp_all add: undisturbed_remove stop_path_ne)
  then show ?thesis using Inr by (simp add: read_stop_request_def undisturbed_refl)
qed

lemma logs_live_check_stop [keeps]:
  assumes "quiet_tick dir tk" and "logs_live lb dir f0 out su"
  shows "logs_live lb dir f0 out (fst (check_stop lb dir spec tk su))"
proof (cases "su_stopping su")
  case None
  have look: "logs_live lb dir f0 out (fst (in_world (read_stop_request lb dir spec (tk_meanwhile tk)) su))"
    using assms by (intro logs_live_in_world undisturbed_read_stop) (simp_all add: quiet_tick_def)
  have stopping: "logs_live lb dir f0 out (on_state (stop_requested tk q) s)" "logs_live lb dir f0 out (on_state (limit_reached spec tk) s)"
    if "logs_live lb dir f0 out s" for s :: "'b sup" and q
    using that by (simp_all add: logs_live_def both_docs_def live_doc_def on_state_def stop_requested_def limit_reached_def)
  show ?thesis unfolding check_stop_def None option.case
    by (rule logs_live_thenW [OF look]) (simp add: stopping logs_live_begin_stop split: option.split)
next
  case (Some stopping)
  show ?thesis unfolding check_stop_def Some option.case
    by (simp add: assms(2)) (intro impI logs_live_thenW logs_live_persist, simp_all add: assms(2))
qed

text \<open>A snapshot of the writer counts the whole file.\<close>

lemma logs_live_snapshot:
  assumes "logs_live lb dir f0 out su"
  shows "logs_live lb dir f0 out (on_state (\<lambda>st. st\<lparr>rs_logs := log_snapshot (su_logs su)\<rparr>) su)"
proof -
  obtain es where "whole_log (lb_log lb) es (su_logs su, out)"
    using assms by (auto simp: logs_live_def both_docs_def live_doc_def)
  then have "summarises es (log_snapshot (su_logs su)) \<and> whole_log (lb_log lb) (es @ []) (su_logs su, out)"
    using whole_log_summary by (fastforce simp: log_snapshot_def)
  then have "\<exists>es es'. summarises es (log_snapshot (su_logs su)) \<and> whole_log (lb_log lb) (es @ es') (su_logs su, out)"
    by blast
  then show ?thesis using assms by (simp add: logs_live_def both_docs_def live_doc_def on_state_def)
qed

lemma log_finish_summarises:
  assumes "whole_log C es f" and "log_finish D synced (fst f) = Inr sm"
  shows "summarises es sm"
proof -
  have "sm_next_cursor sm = sm_next_cursor (lw_summary (fst f)) \<and>
      sm_captured_bytes sm = sm_captured_bytes (lw_summary (fst f))"
    using assms(2) by (cases synced) (auto simp: log_finish_def)
  then show ?thesis using whole_log_summary [OF assms(1)] by (simp add: summarises_def)
qed

lemma logs_left_finish:
  assumes "run_directory dir" and "logs_live lb dir f0 out su"
  shows "logs_left lb dir f0 out (fst (finish_run lb (butlast dir) dir tk status su))"
proof -
  let ?C = "lb_log lb"
  let ?exited = "on_state (\<lambda>st. st\<lparr>rs_readiness := fst (process_exited (rs_readiness st))\<rparr>) su"
  have exited: "logs_live lb dir f0 out ?exited"
    by (rule logs_live_same [OF assms(2)]) (simp_all add: on_state_def)
  have grown: "advances ?C f0 (su_logs su, out) False"
    using logs_live_left [OF assms(2)] by (simp add: logs_left_def)
  obtain es where es: "whole_log ?C es (su_logs su, out)"
    using assms(2) by (auto simp: logs_live_def both_docs_def live_doc_def)
  show ?thesis
  proof (cases "log_finish (lb_digest lb) (tk_synced tk) (su_logs ?exited)")
    case (Inl e)
    then show ?thesis using logs_live_left [OF exited] by (simp add: finish_run_def Let_def)
  next
    case (Inr summary)
    note counts = Inr
    have summary: "summarises es summary"
      by (rule log_finish_summarises [OF es]) (use Inr in \<open>simp add: on_state_def\<close>)
    let ?su = "on_state (\<lambda>st. st\<lparr>rs_logs := summary\<rparr>) ?exited"
    have counted: "left_doc ?C (su_logs su, out) st" if "rs_logs st = summary" for st
      unfolding left_doc_def that
      by (rule exI [of _ es], rule exI [of _ "[]"])
        (use summary whole_log_upto [OF es] whole_log_output [of ?C es "[]" "(su_logs su, out)"] es in
          \<open>simp add: whole_log_file [OF es, unfolded fst_conv]\<close>)
    have old: "both_docs lb dir (left_doc ?C (su_logs su, out)) ?exited"
      using logs_live_left [OF exited] by (simp add: logs_left_def on_state_def)
    obtain v r where rel: "release_leases (lb_ulid lb) (lb_registry lb) (tk_now tk At_release) (butlast dir)
        (su_alloc ?su) (su_state ?su) (su_world ?su) = (v, r)" by (rule prod.exhaust)
    have "undisturbed dir (su_world ?su) (fst (release_registry (lb_ulid lb) (lb_registry lb) (butlast dir)
        (su_alloc ?su) (su_world ?su)))" by (rule release_registry_keeps [OF assms(1)])
    then have "undisturbed dir (su_world ?su) (fst (release_leases (lb_ulid lb) (lb_registry lb)
        (tk_now tk At_release) (butlast dir) (su_alloc ?su) (su_state ?su) (su_world ?su)))"
      unfolding release_leases_def by (rule thenW_keeps [where P = "undisturbed dir (su_world ?su)"]) simp
    then have v: "node_at v (state_path dir) = node_at (su_world ?exited) (state_path dir)"
      using rel by (simp add: undisturbed_def)
    have docs: "both_docs lb dir (left_doc ?C (su_logs su, out)) s"
      if "su_world s = v" "rs_logs (su_state s) = summary" for s :: "'b sup"
      by (rule both_docs_step [OF old]) (simp_all add: counted that v)
    show ?thesis
    proof (cases r)
      case (Inl e)
      have "fst (finish_run lb (butlast dir) dir tk status su) = ?su\<lparr>su_world := v\<rparr>"
        using Inl rel counts by (simp add: finish_run_def Let_def in_world_def)
      then show ?thesis using docs [of "?su\<lparr>su_world := v\<rparr>"] grown by (simp add: logs_left_def on_state_def)
    next
      case (Inr p)
      obtain st alloc where p: "p = (st, alloc)" by (cases p)
      let ?closed = "?su\<lparr>su_world := v, su_alloc := alloc, su_state := closed_run lb tk status (su_stopping su) st\<rparr>"
      have "st = mark_released (tk_now tk At_release) (su_state ?su)"
        using rel unfolding Inr p release_leases_def by (auto simp only: thenW_Inr prod.inject sum.inject)
      then have "rs_logs (su_state ?closed) = summary"
        by (simp add: closed_run_def mark_released_def on_state_def)
      then have "both_docs lb dir (left_doc ?C (su_logs su, out)) (fst (persist lb dir ?closed))"
        by (intro both_docs_persist docs) simp_all
      moreover have "fst (finish_run lb (butlast dir) dir tk status su) = fst (persist lb dir ?closed)"
        using Inr p rel counts
        by (simp add: finish_run_def Let_def in_world_def) (simp add: on_state_def)
      ultimately show ?thesis using grown by (simp add: logs_left_def on_state_def)
    qed
  qed
qed

text \<open>One iteration, and what is left when it ends the loop or fails.\<close>

lemma logs_check_exit:
  assumes "run_directory dir" and "buffered (received (tk_turns tk))" and "logs_live lb dir f0 out su"
  shows "logs_left lb dir f0 (out @ fed_bytes (received (tk_turns tk))) (fst (check_exit lb (butlast dir) dir tk su)) \<and>
    (snd (check_exit lb (butlast dir) dir tk su) = Inr Again \<longrightarrow>
     logs_live lb dir f0 out (fst (check_exit lb (butlast dir) dir tk su)))"
    (is "?P (check_exit lb (butlast dir) dir tk su)")
proof -
  let ?all = "out @ fed_bytes (received (tk_turns tk))"
  let ?left = "logs_left lb dir f0 ?all"
  have left: "?left s" if "logs_live lb dir f0 got s" "prefix got ?all" for got s
    using logs_left_more [OF logs_live_left] that by blast
  have stays: "?P (s, r)" if "logs_live lb dir f0 out s" for s r
    using that left by simp
  show ?thesis
  proof (cases "try_wait_retry (tk_wait tk)")
    case (Inl e)
    then show ?thesis using stays [OF assms(3)] by (simp add: check_exit_def)
  next
    case (Inr answer)
    consider (wait) "answer = Waiting" | (alive) "answer = Returned None" | (exited) status where "answer = Returned (Some status)"
      by (metis option.exhaust progress.exhaust)
    then show ?thesis
    proof cases
      case wait
      then show ?thesis using stays [OF assms(3)] Inr by (simp add: check_exit_def)
    next
      case alive
      have "logs_live lb dir f0 out (fst (thenW (persist lb dir (stamp tk At_snapshot
          (on_state (\<lambda>st. st\<lparr>rs_logs := log_snapshot (su_logs su)\<rparr>) su))) (\<lambda>_ su.
            (su\<lparr>su_last_write := tk_instant tk At_snapshot\<rparr>, Inr Again))))"
        by (intro logs_live_thenW logs_live_persist) (simp_all add: logs_live_snapshot assms(3))
      then have "logs_live lb dir f0 out (fst (check_exit lb (butlast dir) dir tk su))"
        using Inr alive assms(3) by (simp add: check_exit_def)
      then show ?thesis using left by simp
    next
      case exited
      let ?marked = "\<lambda>killed su. if killed then on_cleanup (\<lambda>cl. cl\<lparr>cl_descendant_cleanup_triggered := True,
        cl_force_used := cl_force_used cl \<or> su_stopping su \<noteq> None\<rparr>) su else su"
      let ?drain = "\<lambda>killed su. drain_until_closed lb (tk_instant tk At_drain + log_drain_limit) (tk_turns tk)
        ((?marked killed su)\<lparr>su_armed := False\<rparr>)"
      let ?finish = "\<lambda>drained su. case drained of Waiting \<Rightarrow> (su, Inr Stuck)
        | Returned _ \<Rightarrow> thenW (finish_run lb (butlast dir) dir tk status su) (\<lambda>_ su. (su, Inr Finished))"
      let ?ends = "\<lambda>m. ?left (fst m) \<and> snd m \<noteq> Inr Again"
      have finish: "?ends (?finish outcome s)" if s: "logs_live lb dir f0 got s" "prefix got ?all" for got outcome s
      proof (cases outcome)
        case Waiting
        then show ?thesis using left [OF s] by simp
      next
        case (Returned u)
        obtain s' r where fin: "finish_run lb (butlast dir) dir tk status s = (s', r)" by (rule prod.exhaust)
        have "?left s'" using logs_left_more [OF logs_left_finish [OF assms(1) s(1), of tk status] s(2)] by (simp add: fin)
        then show ?thesis by (cases r) (simp_all add: Returned fin)
      qed
      have drain: "?ends (thenW (?drain killed s) ?finish)" if s: "logs_live lb dir f0 out s" for killed s
      proof -
        obtain s' r where d: "?drain killed s = (s', r)" by (rule prod.exhaust)
        have "logs_live lb dir f0 out ((?marked killed s)\<lparr>su_armed := False\<rparr>)" using s by simp
        from logs_within_drain_until [OF this assms(2)]
        have "logs_within lb dir f0 ?all (s', r)" unfolding d [symmetric] .
        then have l: "?left s'" and live: "\<forall>x. r = Inr x \<longrightarrow> (\<exists>got. prefix got ?all \<and> logs_live lb dir f0 got s')"
          by (auto simp: logs_within_def)
        show ?thesis
        proof (cases r)
          case (Inl e)
          then show ?thesis using l d by simp
        next
          case (Inr x)
          then obtain got where "prefix got ?all" "logs_live lb dir f0 got s'" using live by blast
          from finish [OF this(2,1), of x] show ?thesis unfolding d Inr thenW_simps .
        qed
      qed
      obtain s r where k: "start_kill_tolerant (tk_rest tk) su = (s, r)" by (rule prod.exhaust)
      have s: "logs_live lb dir f0 out s" using logs_live_kill [of lb dir f0 out "tk_rest tk" su] assms(3) by (simp add: k)
      have e: "check_exit lb (butlast dir) dir tk su = thenW (s, r) (\<lambda>killed su. thenW (?drain killed su) ?finish)"
        using Inr exited by (simp add: check_exit_def k)
      show ?thesis
      proof (cases r)
        case (Inl err)
        then show ?thesis unfolding e using stays [OF s] by simp
      next
        case (Inr killed)
        show ?thesis unfolding e Inr thenW_simps using drain [OF s, of killed] by blast
      qed
    qed
  qed
qed

lemma logs_tick:
  assumes "run_directory dir" and "quiet_tick dir tk" and "buffered_tick tk" and "logs_live lb dir f0 out su"
  shows "logs_left lb dir f0 (out @ batch_bytes tk @ fed_bytes (received (tk_turns tk)))
      (fst (supervise_tick lb (butlast dir) dir spec tk su)) \<and>
    (snd (supervise_tick lb (butlast dir) dir spec tk su) = Inr Again \<longrightarrow>
     logs_live lb dir f0 (out @ batch_bytes tk) (fst (supervise_tick lb (butlast dir) dir spec tk su)))"
    (is "?P (supervise_tick lb (butlast dir) dir spec tk su)")
proof -
  let ?start = "su\<lparr>su_world := tk_others tk (su_world su)\<rparr>" and ?out = "out @ batch_bytes tk"
  have chain: "?P (thenW m f)" if "logs_ok lb dir f0 ?out m" and "\<And>x s. logs_live lb dir f0 ?out s \<Longrightarrow> ?P (f x s)"
    for m :: "'b sup \<times> (app_error + 'x)" and f
  proof (cases "snd m")
    case (Inl e)
    have "logs_left lb dir f0 ?out (fst m)" using that(1) by (simp add: logs_ok_def)
    then show ?thesis using Inl by (cases m) (simp add: logs_left_more)
  next
    case (Inr x)
    then have "logs_live lb dir f0 ?out (fst m)" using that(1) by (simp add: logs_ok_def)
    then show ?thesis using that(2) [of "fst m" x] Inr by (cases m) simp
  qed
  have "logs_live lb dir f0 out ?start"
    using assms(2,4) by (intro logs_live_world) (simp_all add: quiet_tick_def spares_def)
  then have drain: "logs_ok lb dir f0 ?out (drain_available lb (tk_arrivals tk) ?start)"
    unfolding drain_available_def batch_bytes_def
    using assms(3) by (intro logs_ok_drain) (simp_all add: buffered_tick_def)
  have exit: "?P (check_exit lb (butlast dir) dir tk s)" if "logs_live lb dir f0 ?out s" for s
    using logs_check_exit [OF assms(1) _ that, of tk] assms(3) by (simp add: buffered_tick_def)
  show ?thesis unfolding supervise_tick_def
    by (rule chain [OF drain], rule chain [OF logs_ok_live], erule keeps, rule chain [OF logs_ok_live],
        erule logs_live_check_stop [OF assms(2)], erule exit)
qed

section \<open>The run\<close>

text \<open>
  The iterations of a run, up to and including the one that ends the loop or fails, with the bytes that the
  supervisor got since it started: those of the batch it drains and, when it goes no further, which the flag
  tells, at most those of the last drain.
\<close>

inductive logging_step ::
  "('u, 'd) libs \<Rightarrow> path \<Rightarrow> supervisor_spec \<Rightarrow> 'd sup \<times> bytes \<times> bool \<Rightarrow> 'd sup \<times> bytes \<times> bool \<Rightarrow> bool"
  for lb :: "('u, 'd) libs" and dir :: path and spec :: supervisor_spec where
  iteration: "quiet_tick dir tk \<Longrightarrow> buffered_tick tk \<Longrightarrow>
    supervise_tick lb (butlast dir) dir spec tk su = (su', r) \<Longrightarrow>
    out' = out @ batch_bytes tk @ (if r = Inr Again then [] else fed_bytes (received (tk_turns tk))) \<Longrightarrow>
    logging_step lb dir spec (su, out, False) (su', out', r \<noteq> Inr Again)"

inductive_simps logging_step_ended [simp]: "logging_step lb dir spec (su, out, True) t"

definition logs_inv :: "('u, 'd) libs \<Rightarrow> path \<Rightarrow> 'd fed \<Rightarrow> 'd sup \<times> bytes \<times> bool \<Rightarrow> bool" where
  "logs_inv lb dir f0 s \<longleftrightarrow> run_directory dir \<and> (case s of (su, out, ended) \<Rightarrow>
     if ended then logs_left lb dir f0 out su else logs_live lb dir f0 out su)"

interpretation logging: safe_system
    "\<lambda>(su, out, ended). run_directory dir \<and> \<not> ended \<and> logs_live lb dir f0 out su" "logging_step lb dir spec"
    "logs_inv lb dir f0"
  for lb :: "('u, 'd) libs" and dir spec f0
proof
  fix s t :: "'d sup \<times> bytes \<times> bool"
  show "logs_inv lb dir f0 s" if "case s of (su, out, ended) \<Rightarrow> run_directory dir \<and> \<not> ended \<and> logs_live lb dir f0 out su"
    using that by (auto simp: logs_inv_def split: prod.splits)
  assume inv: "logs_inv lb dir f0 s" and step: "logging_step lb dir spec s t"
  from step show "logs_inv lb dir f0 t"
  proof cases
    case (iteration tk su su' r out' out)
    then have "run_directory dir" "logs_live lb dir f0 out su" using inv by (simp_all add: logs_inv_def)
    from logs_tick [OF this(1) iteration(3,4) this(2), of spec] show ?thesis
      using \<open>run_directory dir\<close> iteration by (simp add: logs_inv_def)
  qed
qed

lemma logging_stays: "(logging_step lb dir spec)\<^sup>*\<^sup>* (su, out, True) t \<Longrightarrow> t = (su, out, True)"
  by (induction rule: rtranclp_induct) auto

text \<open>The loop starts with an empty file that every state describes.\<close>

lemma spawned_logs_live:
  assumes "spawn_process lb bt root dir spec st alloc w = (ws, Inr su)"
    and "unat (sp_max_log_bytes spec) < 2 ^ 64 - 1" and "rs_logs st = log_summary_new m"
  shows "logs_live lb dir (su_logs su, []) [] su"
proof -
  obtain a st' where h: "handoff (bt_handoff_at_ms bt) alloc st = (a, st')" by (metis surj_pair)
  have same: "rs_logs st' = rs_logs st" using h by (auto simp: handoff_def set_port_leases_def)
  from assms(1) obtain pid v where logs: "log_writer_create (lb_digest lb) (bt_logs_created bt) (sp_max_log_bytes spec) = Inr (su_logs su)"
    and su: "su_state su = spawned bt spec pid st'" "persist_state lb dir (spawned bt spec pid st') w = (v, Inr ())" "su_world su = v"
    by (auto simp: spawn_process_def h Let_def split: sum.splits prod.splits)
  have "v = put_node (state_path dir) (Regular (js_write (lb_state lb) (su_state su) @ [10])) w"
    using atomic_write_json_frame(5) [OF su(2) [unfolded persist_state_def]] by (simp add: su(1))
  then have disk: "node_at (su_world su) (state_path dir) = Some (Regular (js_write (lb_state lb) (su_state su) @ [10]))"
    by (simp add: su(3))
  have "whole_log (lb_log lb) [] (su_logs su, [])"
    using writer_holds_create [OF logs, of "lb_log lb"] assms(2) by (auto simp: whole_log_def log_entries_ok_def)
  moreover have "summarises [] (rs_logs (su_state su))" "rs_status (su_state su) = Running"
    using assms(3)
    by (simp_all add: su(1) spawned_def record_spawn_def set_port_leases_def Let_def same summarises_def log_summary_new_def)
  ultimately have "live_doc (lb_log lb) (su_logs su, []) (su_state su)"
    unfolding live_doc_def by (intro conjI exI [of _ "[]"]) simp_all
  then show ?thesis using disk advances_refl by (auto simp: logs_live_def both_docs_def)
qed

text \<open>
  What a reader finds who has the document of one moment and reads the file of a later one, while
  records, or a part of one, are written.
\<close>

lemma later_file_readable:
  assumes "logs_inv lb dir f0 (su1, out1, ended)" and "(logging_step lb dir spec)\<^sup>*\<^sup>* (su1, out1, ended) (su2, out2, ended')"
    and "prefix (lw_file (su_logs su1)) content" and "prefix content (lw_file (su_logs su2))"
  obtains st es es' where
    "node_at (su_world su1) (state_path dir) = Some (Regular (js_write (lb_state lb) st @ [10]))"
    "summarises es (rs_logs st)" "prefix (log_file (lb_log lb) (records_of (lb_log lb) es)) content"
    "log_upto (lb_log lb) (es @ es') content" "prefix (concat (map entry_bytes es)) out1"
    "is_terminal (rs_status st) \<longrightarrow> content = log_file (lb_log lb) (records_of (lb_log lb) es)"
proof (cases ended)
  case True
  then have "(logging_step lb dir spec)\<^sup>*\<^sup>* (su1, out1, True) (su2, out2, ended')" using assms(2) by simp
  then have "(su2, out2, ended') = (su1, out1, True)" by (rule logging_stays)
  then have "su2 = su1" by simp
  then have content: "content = lw_file (su_logs su1)" using assms(3,4) by (simp add: prefix_order.eq_iff)
  from assms(1) True have "both_docs lb dir (left_doc (lb_log lb) (su_logs su1, out1)) su1"
    by (simp add: logs_inv_def logs_left_def)
  then show thesis unfolding both_docs_def left_doc_def fst_conv snd_conv using that content by auto
next
  case False
  then have live: "logs_live lb dir (su_logs su1, out1) out1 su1" and dir: "run_directory dir"
    using assms(1) advances_refl by (auto simp: logs_inv_def logs_live_def)
  then have "logs_inv lb dir (su_logs su1, out1) (su2, out2, ended')"
    by (intro logging.reachable_inv [of dir _ _ "(su1, out1, ended)"]) (use assms(2) False in auto)
  then have "logs_left lb dir (su_logs su1, out1) out2 su2"
    using logs_live_left by (auto simp: logs_inv_def split: if_splits)
  then have grown: "advances (lb_log lb) (su_logs su1, out1) (su_logs su2, out2) False" by (simp add: logs_left_def)
  from live obtain st es es' where
    st: "node_at (su_world su1) (state_path dir) = Some (Regular (js_write (lb_state lb) st @ [10]))"
    "\<not> is_terminal (rs_status st)" "summarises es (rs_logs st)" "whole_log (lb_log lb) (es @ es') (su_logs su1, out1)"
    by (auto simp: logs_live_def both_docs_def live_doc_def)
  from grown st(4) obtain es'' where "log_upto (lb_log lb) ((es @ es') @ es'') (lw_file (su_logs su2))"
    unfolding advances_def fst_conv by blast
  then have "log_upto (lb_log lb) (es @ (es' @ es'')) content"
    using assms(4) by (auto simp: log_upto_def intro: prefix_order.order_trans)
  moreover have "prefix (log_file (lb_log lb) (records_of (lb_log lb) es)) content"
    using log_file_prefix assms(3) unfolding whole_log_file [OF st(4), unfolded fst_conv] by (rule prefix_order.order_trans)
  moreover have "prefix (concat (map entry_bytes es)) out1" using whole_log_output [OF st(4)] by simp
  ultimately show thesis using that st by blast
qed

end
