(* ===== verification/Observed_Logs.thy ===== *)
theory Observed_Logs
  imports Live_Logs Observed_Runs Commands
begin

text \<open>
  The command \<open>logs\<close> and the supervisor together. Beside a supervisor that goes on the command always
  answers, with the records that the run document it read counts; beside one that failed it cannot
  give what was flushed after that document.
\<close>

text \<open>What is asked of the codec: a state that is read back has the status and the summary that were written.\<close>

definition summary_readable :: "run_state json_codec \<Rightarrow> bool" where
  "summary_readable J \<longleftrightarrow>
     (\<forall>st st'. js_read J (js_write J st @ [10]) = Inr st' \<longrightarrow>
        rs_status st' = rs_status st \<and> rs_logs st' = rs_logs st)"

text \<open>
  An observer between two moments of a supervised run: the run document is the one of the first, and the
  log file, a regular file that can be read, is at some point between the two.
\<close>

definition beside_writer :: "path \<Rightarrow> 'd sup \<Rightarrow> 'd sup \<Rightarrow> world \<Rightarrow> world \<Rightarrow> bool" where
  "beside_writer dir su1 su2 v1 v2 \<longleftrightarrow>
     node_at v1 (state_path dir) = node_at (su_world su1) (state_path dir) \<and> healthy v2 (log_path dir) \<and>
     (\<exists>content. node_at v2 (log_path dir) = Some (Regular content) \<and>
        prefix (lw_file (su_logs su1)) content \<and> prefix content (lw_file (su_logs su2)))"

lemma state_of_document:
  assumes "state_of lb root w run_id = Inr st"
  shows "\<exists>bs. node_at w (state_path (root @ [run_id])) = Some (Regular bs) \<and> js_read (lb_state lb) bs = Inr st"
proof -
  obtain dir where dir: "run_dir (lb_ulid lb) root w run_id = Inr dir"
    and read: "read_json (lb_state lb) w (dir @ [''state.json'']) = Inr st"
    using assms by (auto simp: state_of_def read_state_def res_simps split: if_splits)
  have "dir = root @ [run_id]" using dir by (simp add: run_dir_Inr)
  with read_json_Inr [OF read] show ?thesis by (simp add: state_path_def)
qed

lemma logs_command_reads:
  assumes "state_of lb root (mw_first mw w) run_id = Inr st"
    and "run_dir (lb_ulid lb) root (mw_lock mw (mw_first mw w)) run_id = Inr dir"
    and "v2 = mw_again mw (mw_lock mw (mw_first mw w))"
    and "healthy v2 (log_path dir)" and "node_at v2 (log_path dir) = Some (Regular content)"
  shows "logs_command lb root run_id a limit stream mw w =
    (v2, read_logs (lb_log lb) (Inr \<lparr>li_content = content, li_fault = None\<rparr>) (Inr ()) st a limit stream)"
proof -
  have "opened_log v2 (log_path dir) = Inr \<lparr>li_content = content, li_fault = None\<rparr>"
    "ensure_regular_file v2 (log_path dir) = Inr ()"
    using assms(4,5) by (simp_all add: opened_log_def open_file_def healthy_attempt ensure_regular)
  then show ?thesis using assms(1-3) by (simp add: logs_command_def Let_def)
qed

section \<open>Beside a supervisor that goes on\<close>

text \<open>
  C12: the log of a run can be read at every moment. Whatever the supervisor has gone through, the command
  that reads the run document of one moment and the log file of any later one, in the middle of a
  record too, with the supervisor going on, finished or failed in between, never fails: it gives the page
  of exactly the records that the summary of that document counts, in number and in bytes. They are the
  first records of the file, and what they decode to, put together, is the beginning of what the supervisor
  had got from the process by then: nothing is lost, doubled, reordered or invented on the way.
\<close>

theorem logs_readable_any_time:
  assumes "spawn_process lb bt (butlast dir) dir spec st0 alloc w0 = (ws, Inr su)"
    and "unat (sp_max_log_bytes spec) < 2 ^ 64 - 1" and "rs_logs st0 = log_summary_new m" and "run_directory dir"
    and "(logging_step lb dir spec)\<^sup>*\<^sup>* (su, [], False) (su1, out1, ended)"
    and "(logging_step lb dir spec)\<^sup>*\<^sup>* (su1, out1, ended) (su2, out2, ended')"
    and "log_codec_documented (lb_log lb)" and "summary_readable (lb_state lb)" and "dir = root @ [run_id]"
    and "state_of lb root (mw_first mw w) run_id = Inr st"
    and "run_dir (lb_ulid lb) root (mw_lock mw (mw_first mw w)) run_id = Inr dir"
    and "beside_writer dir su1 su2 (mw_first mw w) (mw_again mw (mw_lock mw (mw_first mw w)))"
    and "0 < limit" and "limit \<le> 1000"
  shows "\<exists>es content. summarises es (rs_logs st) \<and> prefix (concat (map entry_bytes es)) out1 \<and>
    node_at (mw_again mw (mw_lock mw (mw_first mw w))) (log_path dir) = Some (Regular content) \<and>
    prefix (log_file (lb_log lb) (records_of (lb_log lb) es)) content \<and>
    map (decode_record (lb_log lb)) (records_of (lb_log lb) es) = map (Inr \<circ> entry_bytes) es \<and>
    logs_command lb root run_id a limit stream mw w =
      (mw_again mw (mw_lock mw (mw_first mw w)), Inr (log_page st a limit stream (records_of (lb_log lb) es)))"
proof -
  let ?C = "lb_log lb" and ?v2 = "mw_again mw (mw_lock mw (mw_first mw w))"
  have "logs_live lb dir (su_logs su, []) [] su" by (rule spawned_logs_live [OF assms(1-3)])
  then have inv: "logs_inv lb dir (su_logs su, []) (su1, out1, ended)"
    using assms(4,5) by (intro logging.reachable_inv [of dir _ _ "(su, [], False)"]) auto
  from assms(12) obtain content where seen:
    "node_at (mw_first mw w) (state_path dir) = node_at (su_world su1) (state_path dir)"
    "healthy ?v2 (log_path dir)" "node_at ?v2 (log_path dir) = Some (Regular content)"
    "prefix (lw_file (su_logs su1)) content" "prefix content (lw_file (su_logs su2))"
    by (auto simp: beside_writer_def)
  obtain st1 es es' where doc:
    "node_at (su_world su1) (state_path dir) = Some (Regular (js_write (lb_state lb) st1 @ [10]))"
    "summarises es (rs_logs st1)" "prefix (log_file ?C (records_of ?C es)) content" "log_upto ?C (es @ es') content"
    "prefix (concat (map entry_bytes es)) out1"
    "is_terminal (rs_status st1) \<longrightarrow> content = log_file ?C (records_of ?C es)"
    by (rule later_file_readable [OF inv assms(6) seen(4,5)])
  have "js_read (lb_state lb) (js_write (lb_state lb) st1 @ [10]) = Inr st"
    using state_of_document [OF assms(10)] seen(1) doc(1) by (simp add: assms(9))
  then have st: "rs_status st = rs_status st1" "rs_logs st = rs_logs st1"
    using assms(8) by (simp_all add: summary_readable_def)
  have "read_logs ?C (Inr \<lparr>li_content = content, li_fault = None\<rparr>) (Inr ()) st a limit stream =
      Inr (log_page st a limit stream (records_of ?C es))"
  proof (cases "is_terminal (rs_status st)")
    case True
    then have content: "content = log_file ?C (records_of ?C es)" using doc(6) st(1) by simp
    have "log_upto ?C es content" using doc(4) by (auto simp: log_upto_def log_entries_ok_def content)
    then show ?thesis using read_logs_whole [OF assms(7) _ _ assms(13,14)] doc(2) st(2)
      by (simp add: content summarises_def)
  next
    case False
    show ?thesis 
      by (rule read_logs_upto [OF assms(7) _ False doc(3,4) assms(13,14)])
        (use doc(2) in \<open>simp add: st(2) summarises_def\<close>)
  qed
  moreover have "summarises es (rs_logs st)" using doc(2) st(2) by simp
  ultimately show ?thesis
    using logs_command_reads [OF assms(10,11) refl seen(2,3), of a limit stream] seen(3) doc(3,5)
      records_of_decode [OF assms(7)] by (intro exI [of _ es] exI [of _ content]) simp
qed

section \<open>Beside a supervisor that failed\<close>

text \<open>
  C28: a failed supervisor leaves a log that cannot be read to its end. Recording the failure makes the run
  terminal but keeps the summary of the last document; when a record was flushed since, every page of
  \<open>logs\<close> that comes to it fails, so neither that record nor the ones before it on the page are given.
\<close>

theorem failed_supervisor_hides_logs:
  assumes "read_json (lb_state lb) v (state_path dir) = Inr st1" and "\<not> is_terminal (rs_status st1)"
    and "persist_state lb dir (supervisor_failed at exit_at err st1) v = (v', Inr ())"
    and "summary_readable (lb_state lb)" and "dir = root @ [run_id]"
    and "node_at (mw_first mw w) (state_path dir) =
      node_at (mark_supervisor_failed lb at exit_at dir err v) (state_path dir)"
    and "state_of lb root (mw_first mw w) run_id = Inr st"
    and "run_dir (lb_ulid lb) root (mw_lock mw (mw_first mw w)) run_id = Inr dir"
    and "v2 = mw_again mw (mw_lock mw (mw_first mw w))" and "healthy v2 (log_path dir)"
    and "node_at v2 (log_path dir) = Some (Regular content)"
    and "log_codec_documented (lb_log lb)" and "summarises es (rs_logs st1)"
    and "log_entries_ok (es @ [e])" and "length (es @ [e]) < 2 ^ 64 - 1"
    and "prefix (log_file (lb_log lb) (records_of (lb_log lb) (es @ [e]))) content"
    and "0 < limit" and "limit \<le> 1000"
    and "length (filter (selected a stream) (records_of (lb_log lb) es)) \<le> limit"
  shows "rs_status st = Failed \<and> logs_command lb root run_id a limit stream mw w = (v2, Inl (integrity
    (''log cursor '' @ show_word (sm_next_cursor (rs_logs st1)) @ '' is outside the durable summary'')))"
proof -
  let ?failed = "supervisor_failed at exit_at err st1"
  have "v' = put_node (state_path dir) (Regular (js_write (lb_state lb) ?failed @ [10])) v"
    using atomic_write_json_frame(5) [OF assms(3) [unfolded persist_state_def]] by simp
  then have "mark_supervisor_failed lb at exit_at dir err v =
      put_node (state_path dir) (Regular (js_write (lb_state lb) ?failed @ [10])) v"
    using assms(1-3) by (simp add: mark_supervisor_failed_def)
  then have "js_read (lb_state lb) (js_write (lb_state lb) ?failed @ [10]) = Inr st"
    using state_of_document [OF assms(7)] assms(6) by (simp add: assms(5))
  then have "rs_status st = rs_status ?failed" "rs_logs st = rs_logs ?failed"
    using assms(4) by (simp_all add: summary_readable_def)
  then have st: "rs_status st = Failed" "rs_logs st = rs_logs st1" by (simp_all add: supervisor_failed_def)
  have "read_logs (lb_log lb) (Inr \<lparr>li_content = content, li_fault = None\<rparr>) (Inr ()) st a limit stream =
      Inl (integrity (''log cursor '' @ show_word (sm_next_cursor (rs_logs st)) @ '' is outside the durable summary''))"
    by (rule read_logs_beyond [OF assms(12) _ _ assms(14-19)])
      (use assms(13) in \<open>simp_all add: st summarises_def\<close>)
  then show ?thesis using logs_command_reads [OF assms(7-11), of a limit stream] st by simp
qed

section \<open>A run whose process prints while it is observed\<close>

definition summary_codec :: "run_state json_codec" where
  "summary_codec =
     \<lparr>js_write = (\<lambda>st. if rs_logs st = rs_logs example_run then [of_nat (status_rank (rs_status st))] else [255]),
      js_read = (\<lambda>bs. if unat (hd bs) < 7 then Inr (example_run\<lparr>rs_status := status_of_rank (unat (hd bs))\<rparr>)
        else Inl ''summary'')\<rparr>"

definition logged_libs :: "(128 word, bytes) libs" where
  "logged_libs = example_libs\<lparr>lb_state := summary_codec\<rparr>"

lemma summary_codec_readable: "summary_readable summary_codec"
proof -
  have "status_of_rank (unat (of_nat (status_rank s) :: u8)) = s" for s
    by (cases s) (simp_all add: status_of_rank_def)
  then show ?thesis by (auto simp: summary_readable_def summary_codec_def)
qed

definition running_start :: world where
  "running_start = put_node (state_path example_dir) (Regular [2, 10]) example_start"

definition fresh_writer :: "bytes log_writer" where
  "fresh_writer = \<lparr>lw_file = [], lw_summary = log_summary_new 10, lw_stdout_digest = [], lw_stderr_digest = []\<rparr>"

lemma running_start_calm: "calm running_start"
  unfolding running_start_def by (rule calm_put [OF example_start_calm])

lemma logged_spawn:
  "\<exists>ws su. spawn_process logged_libs example_boot [''srv''] example_dir example_spec example_run leasing_allocation
       example_start = (ws, Inr su) \<and>
     su_world su = running_start \<and> su_logs su = fresh_writer \<and> su_stopping su = None \<and> su_last_write su = 0 \<and>
     rd_status (rs_readiness (su_state su)) = RdNotConfigured \<and>
     rl_runtime_deadline_at_ms (rs_limits (su_state su)) = None"
proof -
  have boot: "bt_spawn example_boot = Inr 8" "bt_logs_created example_boot = Inr ()" "sp_max_runtime_ms example_spec = None"
    "sp_max_log_bytes example_spec = 10" "lb_digest logged_libs = raw_digest" "bt_loop_at example_boot = 0"
    by (simp_all add: example_boot_def example_spec_def logged_libs_def example_libs_def)
  obtain st' alloc' where handoff: "handoff (bt_handoff_at_ms example_boot) leasing_allocation example_run = (alloc', st')"
    by (metis surj_pair)
  then have same: "rs_readiness st' = rs_readiness example_run" "rs_logs st' = rs_logs example_run"
    by (auto simp: handoff_def set_port_leases_def)
  let ?st = "spawned example_boot example_spec 8 st'"
  have st: "rs_readiness ?st = rs_readiness example_run" "rs_logs ?st = rs_logs example_run" "rs_status ?st = Running"
    "rl_runtime_deadline_at_ms (rs_limits ?st) = None"
    by (simp_all add: spawned_def record_spawn_def set_port_leases_def Let_def boot same)
  have "js_write (lb_state logged_libs) ?st = [2]"
    by (simp add: logged_libs_def summary_codec_def st)
  then have doc: "persist_state logged_libs example_dir ?st example_start = (running_start, Inr ())"
    by (simp add: calm_persist [OF example_start_calm] running_start_def)
  have "rd_status (rs_readiness example_run) = RdNotConfigured"
    by (simp add: example_names readiness_state_new_def)
  then show ?thesis
    by (simp add: spawn_process_def handoff boot doc log_writer_create_def Let_def st fresh_writer_def raw_digest_def)
qed

definition ok_record :: log_entry where
  "ok_record = (3, Stdout, as_bytes ''ok'')"

lemma ok_record_fine: "log_entries_ok [ok_record]" "length [ok_record] < 2 ^ 64 - 1"
  by (simp_all add: log_entries_ok_def ok_record_def as_bytes_def read_chunk_bytes_def)

lemma ok_recorded:
  "lw_file (fst (record_log standard_codec raw_digest Written 3 ok_chunk fresh_writer)) =
     log_file standard_codec (records_of standard_codec [ok_record])"
proof -
  obtain w' r where run: "record_log standard_codec raw_digest Written 3 ok_chunk fresh_writer = (w', r)"
    by (metis surj_pair)
  have holds: "writer_holds standard_codec fresh_writer []"
    using writer_holds_create [of raw_digest "Inr ()" 10 fresh_writer standard_codec]
    by (simp add: log_writer_create_def fresh_writer_def raw_digest_def)
  have room: "unat (sm_max_bytes (lw_summary fresh_writer)) - entries_size [] = 10"
    and max: "unat (sm_max_bytes (lw_summary fresh_writer)) < 2 ^ 64 - 1"
    by (simp_all add: fresh_writer_def log_summary_new_def)
  have "kept 10 [(3, ok_chunk)] = [ok_record]" by (simp add: ok_chunk_def ok_record_def as_bytes_def)
  with record_log_written [OF holds max run] have "writer_holds standard_codec w' ([] @ [ok_record])"
    unfolding room by simp
  then show ?thesis by (simp add: run writer_holds_def)
qed

lemma logged_tick:
  assumes "su_world su = running_start" and "su_logs su = fresh_writer" and "su_stopping su = None"
    and "su_last_write su = 0" and "rd_status (rs_readiness (su_state su)) = RdNotConfigured"
    and "rl_runtime_deadline_at_ms (rs_limits (su_state su)) = None"
  shows "\<exists>su'. logging_step logged_libs example_dir example_spec (su, [], False) (su', as_bytes ''ok'', False) \<and>
    lw_file (su_logs su') = log_file standard_codec (records_of standard_codec [ok_record])"
proof -
  let ?a = "\<lparr>ar_chunk = ok_chunk, ar_now = (\<lambda>_. 3), ar_finished_at = 3, ar_recorded_at = 3, ar_outcome = Written\<rparr>"
  have libs: "lb_log logged_libs = standard_codec" "lb_digest logged_libs = raw_digest" "lb_stop logged_libs = lb_stop example_libs"
    by (simp_all add: logged_libs_def example_libs_def)
  obtain lg where lg: "chunk_recorded logged_libs ?a su = (lg, Inr ())"
    by (simp add: record_log_done Let_def)
  let ?su = "su\<lparr>su_logs := lg\<rparr>"
  have "rd_status (rs_readiness (su_state su)) \<noteq> RdPending" using assms(5) by simp
  then have rec: "record_chunk logged_libs ?a su = (?su, Inr False)"
    unfolding record_chunk_eq lg by (simp add: observe_log_idle)
  have chunks: "log_drain_batch_chunks = Suc 63" by (simp add: log_drain_batch_chunks_def)
  have "0 < (63 :: nat)" by simp
  then have drain: "drain_available logged_libs [?a] su =
      (?su, Inr \<lparr>dr_readiness_changed = False, dr_saturated = False\<rparr>)"
    by (simp only: drain_available_def chunks drain_batch.simps rec thenW_simps drain_batch_none simp_thms)
  have poll: "poll_readiness logged_libs example_dir ok_tick False ?su = (?su, Inr ())"
    using assms(5) by (simp add: poll_readiness_def poll_idle on_state_def)
  have "read_stop_request logged_libs example_dir example_spec id running_start = (running_start, Inr None)"
    using calm_no_stop [OF running_start_calm] by (simp add: read_stop_request_def libs)
  then have stop: "check_stop logged_libs example_dir example_spec ok_tick ?su = (?su, Inr ())"
    using assms(1,3,6) by (simp add: check_stop_def ok_tick_def example_tick_def in_world_def past_deadline_def)
  have exits: "check_exit logged_libs (butlast example_dir) example_dir ok_tick ?su = (?su, Inr Again)"
    using assms(4) by (simp add: check_exit_def ok_tick_def example_tick_def)
  have same: "su\<lparr>su_world := tk_others ok_tick (su_world su)\<rparr> = su" by (simp add: ok_tick_def example_tick_def)
  have arrivals: "tk_arrivals ok_tick = [?a]" by (simp add: ok_tick_def)
  have tick: "supervise_tick logged_libs (butlast example_dir) example_dir example_spec ok_tick su = (?su, Inr Again)"
    unfolding supervise_tick_def same arrivals drain thenW_simps drain_outcome.simps poll stop by (rule exits)
  have "quiet_tick example_dir ok_tick" "buffered_tick ok_tick"
    by (simp_all add: quiet_tick_def spares_def undisturbed_refl buffered_tick_def buffered_def ok_tick_def
        example_tick_def ok_chunk_def as_bytes_def read_chunk_bytes_def)
  from iteration [OF this tick refl, of "[]"]
  have "logging_step logged_libs example_dir example_spec (su, [], False) (?su, as_bytes ''ok'', False)"
    by (simp add: batch_bytes_def arrivals ok_chunk_def log_drain_batch_chunks_def)
  moreover have "lg = fst (record_log standard_codec raw_digest Written 3 ok_chunk fresh_writer)"
    using arg_cong [OF lg, of fst] by (simp add: libs assms(2))
  ultimately show ?thesis using ok_recorded by auto
qed

text \<open>An observer of the run, with the document of a status and a log.\<close>

definition observing :: "u8 \<Rightarrow> bytes \<Rightarrow> world" where
  "observing b content = put_node (log_path example_dir) (Regular content)
     (put_node (state_path example_dir) (Regular [b, 10]) example_start)"

lemma observing_nodes:
  "node_at (observing b content) (log_path example_dir) = Some (Regular content)"
  "node_at (observing b content) (state_path example_dir) = Some (Regular [b, 10])"
  "node_at (observing b content) example_dir = Some Directory" "healthy (observing b content) p"
  using example_start_nodes
  by (simp_all add: observing_def log_path_def state_path_def healthy_def) (simp add: example_start_def empty_world_def)

lemma observing_run:
  assumes "unat b < 7"
  shows "run_dir (lb_ulid logged_libs) [''srv''] (observing b content) (rs_run_id example_run) = Inr example_dir"
    and "state_of logged_libs [''srv''] (observing b content) (rs_run_id example_run) =
      Inr (example_run\<lparr>rs_status := status_of_rank (unat b)\<rparr>)"
proof -
  note ok = healthy_attempt [OF observing_nodes(4)]
  show dir: "run_dir (lb_ulid logged_libs) [''srv''] (observing b content) (rs_run_id example_run) = Inr example_dir"
    using example_run_valid(1) observing_nodes(3) ok
    by (simp add: run_dir_Inr example_dir_def logged_libs_def example_libs_def)
  have "read_json (lb_state logged_libs) (observing b content) (example_dir @ [''state.json'']) =
      Inr (example_run\<lparr>rs_status := status_of_rank (unat b)\<rparr>)"
    using observing_nodes(2) ok assms
    by (simp add: state_path_def read_json_def ensure_regular_file_def symlink_metadata_def open_file_def
        logged_libs_def summary_codec_def document_limit_def)
  moreover have "validate_persisted_run_state crockford (example_run\<lparr>rs_status := s\<rparr>) = Inr ()" for s
    using example_run_valid(2) by (auto simp: validate_persisted_run_state_def res_simps split: if_splits)
  ultimately show "state_of logged_libs [''srv''] (observing b content) (rs_run_id example_run) =
      Inr (example_run\<lparr>rs_status := status_of_rank (unat b)\<rparr>)"
    using dir by (simp add: state_of_def read_state_def) (simp add: logged_libs_def example_libs_def)
qed

theorem logs_readable_any_time_witness:
  "\<exists>su su2 w st es. logging_step logged_libs example_dir example_spec (su, [], False) (su2, as_bytes ''ok'', False) \<and>
     lw_file (su_logs su2) = log_file standard_codec (records_of standard_codec [ok_record]) \<and>
     w = observing 2 (take 5 (lw_file (su_logs su2))) \<and>
     logs_command logged_libs [''srv''] (rs_run_id example_run) 0 10 None still w =
       (w, Inr (log_page st 0 10 None (records_of standard_codec es)))"
proof -
  obtain ws su where spawn: "spawn_process logged_libs example_boot [''srv''] example_dir example_spec example_run
      leasing_allocation example_start = (ws, Inr su)"
    and su: "su_world su = running_start" "su_logs su = fresh_writer" "su_stopping su = None" "su_last_write su = 0"
      "rd_status (rs_readiness (su_state su)) = RdNotConfigured"
      "rl_runtime_deadline_at_ms (rs_limits (su_state su)) = None"
    using logged_spawn by blast
  obtain su2 where step: "logging_step logged_libs example_dir example_spec (su, [], False) (su2, as_bytes ''ok'', False)"
    and cut: "lw_file (su_logs su2) = log_file standard_codec (records_of standard_codec [ok_record])"
    using logged_tick [OF su] by blast
  have steps: "(logging_step logged_libs example_dir example_spec)\<^sup>*\<^sup>* (su, [], False) (su2, as_bytes ''ok'', False)"
    using step by (rule r_into_rtranclp)
  let ?w = "observing 2 (take 5 (lw_file (su_logs su2)))" and ?root = "[''srv'']" and ?id = "rs_run_id example_run"
  have dir: "butlast example_dir = ?root" "run_directory example_dir" "example_dir = ?root @ [?id]"
    by (simp_all add: example_dir_def run_directory_def example_run_def)
  have libs: "log_codec_documented (lb_log logged_libs)" "summary_readable (lb_state logged_libs)"
    by (simp_all add: logged_libs_def example_libs_def standard_codec_documented summary_codec_readable)
  have beside: "beside_writer example_dir su su2 ?w ?w"
    using observing_nodes
    by (simp add: beside_writer_def su fresh_writer_def running_start_def take_is_prefix)
  let ?st = "example_run\<lparr>rs_status := status_of_rank (unat (2 :: u8))\<rparr>"
  have "\<exists>es content. summarises es (rs_logs ?st) \<and> prefix (concat (map entry_bytes es)) [] \<and>
      node_at (mw_again still (mw_lock still (mw_first still ?w))) (log_path example_dir) = Some (Regular content) \<and>
      prefix (log_file (lb_log logged_libs) (records_of (lb_log logged_libs) es)) content \<and>
      map (decode_record (lb_log logged_libs)) (records_of (lb_log logged_libs) es) = map (Inr \<circ> entry_bytes) es \<and>
      logs_command logged_libs ?root ?id 0 10 None still ?w =
      (mw_again still (mw_lock still (mw_first still ?w)), Inr (log_page ?st 0 10 None (records_of (lb_log logged_libs) es)))"
    by (rule logs_readable_any_time [OF spawn [folded dir(1)] _ _ dir(2) rtranclp.rtrancl_refl steps
          libs dir(3)])
      (use observing_run beside in \<open>simp_all add: example_spec_def example_run_def example_state_def\<close>)
  moreover have "lb_log logged_libs = standard_codec" by (simp add: logged_libs_def example_libs_def)
  ultimately obtain es where "logs_command logged_libs ?root ?id 0 10 None still ?w =
      (?w, Inr (log_page ?st 0 10 None (records_of standard_codec es)))" by auto
  then show ?thesis using step cut by blast
qed

theorem failed_supervisor_hides_logs_witness:
  "\<exists>w. logs_command logged_libs [''srv''] (rs_run_id example_run) 0 10 None still w =
     (w, Inl (integrity (''log cursor '' @ show_word (1 :: u64) @ '' is outside the durable summary'')))"
proof -
  let ?err = "operational ''log_drain_timeout'' ''log capture did not close within the bounded drain period''"
  let ?st = "example_run\<lparr>rs_status := Running\<rparr>" and ?v = "observing 2 []"
  let ?content = "log_file (lb_log logged_libs) (records_of (lb_log logged_libs) ([] @ [ok_record]))"
  let ?w = "observing 5 ?content"
  note ok = healthy_attempt [OF observing_nodes(4)]
  have rank: "status_of_rank (unat (2 :: u8)) = Running" "status_of_rank (unat (5 :: u8)) = Failed"
    by (simp_all add: status_of_rank_def)
  have read: "read_json (lb_state logged_libs) ?v (state_path example_dir) = Inr ?st"
    using observing_nodes(2) ok rank
    by (simp add: read_json_def ensure_regular_file_def symlink_metadata_def open_file_def
        logged_libs_def summary_codec_def document_limit_def)
  have "js_write (lb_state logged_libs) (supervisor_failed 10 10 ?err ?st) = [5]"
    by (simp add: logged_libs_def summary_codec_def supervisor_failed_def)
  moreover have "calm ?v"
    using observing_nodes example_start_calm by (simp add: calm_def observing_def)
      (simp add: log_path_def example_dir_def state_path_def stop_path_def)
  ultimately have stored: "persist_state logged_libs example_dir (supervisor_failed 10 10 ?err ?st) ?v =
      (put_node (state_path example_dir) (Regular [5, 10]) ?v, Inr ())"
    by (simp add: calm_persist)
  then have marked: "mark_supervisor_failed logged_libs 10 10 example_dir ?err ?v =
      put_node (state_path example_dir) (Regular [5, 10]) ?v"
    using read by (simp add: mark_supervisor_failed_def)
  have dir: "example_dir = [''srv''] @ [rs_run_id example_run]" by (simp add: example_dir_def)
  have libs: "log_codec_documented (lb_log logged_libs)" "summary_readable (lb_state logged_libs)"
    by (simp_all add: logged_libs_def example_libs_def standard_codec_documented summary_codec_readable)
  have "sm_next_cursor (rs_logs ?st) = 1" "summarises [] (rs_logs ?st)"
    by (simp_all add: example_run_def example_state_def log_summary_new_def summarises_def)
  note sm = this
  have "rs_status (example_run\<lparr>rs_status := status_of_rank (unat (5 :: u8))\<rparr>) = Failed \<and>
      logs_command logged_libs [''srv''] (rs_run_id example_run) 0 10 None still ?w = (?w, Inl (integrity
        (''log cursor '' @ show_word (sm_next_cursor (rs_logs ?st)) @ '' is outside the durable summary'')))"
    by (rule failed_supervisor_hides_logs [OF read _ stored libs(2) dir _ _ _ _ observing_nodes(4) observing_nodes(1) libs(1)
          sm(2) _ _ prefix_order.order_refl])
      (use observing_run observing_nodes(2) ok_record_fine in \<open>simp_all add: marked records_of_def\<close>)
  then show ?thesis unfolding sm(1) by blast
qed

end
