(* ===== verification/Fixtures.thy ===== *)
theory Fixtures
  imports Commands
begin

text \<open>
  The hidden commands \<open>__fixture\<close> of \<^verbatim>\<open>src/cli.rs\<close>, the small programs that the tests of the
  repository let \<^verbatim>\<open>procherd\<close> supervise, and the whole program with them. What a fixture does is a
  state of its own: the world, what it printed, the processes it started and the responses it sent. A
  fixture that waits for ever gives \<open>Runs_on\<close>; where it goes round a loop, the answers of the system
  say how often. Sleeping changes nothing but the time; what others do meanwhile is an argument.
\<close>

section \<open>The commands\<close>

datatype fixture_command =
  Emit u32 u64 bool i32
| Flood u64 u64 bool
| Tree path
| Heartbeat path
| Serve string u64 bool "path option"
| Touch path u64
| Write_env string path

record peer =
  cn_read :: "io_error + unit"
  cn_sent :: "io_error + unit"

text \<open>\<open>fa_fails i\<close> is the failure of the \<open>i\<close>th write to a standard stream with what it still wrote.\<close>

record fixture_answers =
  fa_meanwhile :: "world \<Rightarrow> world"
  fa_fails :: "nat \<Rightarrow> (io_error \<times> nat) option"
  fa_flushed :: "io_error + unit"
  fa_exe :: "io_error + string"
  fa_started :: "io_error + unit"
  fa_beats :: "((world \<Rightarrow> world) \<times> u64) list"
  fa_bound :: "string \<Rightarrow> io_error + unit"
  fa_streams :: "(io_error + peer) list"
  fa_variable :: "string \<Rightarrow> string option"

record fixture_state =
  fx_world :: world
  fx_screen :: screen
  fx_children :: "(string \<times> string list) list"
  fx_responses :: "string list"

datatype fixture_end = Completed | Exits i32 | Runs_on

definition printed_on :: "bool \<Rightarrow> string \<Rightarrow> fixture_state \<Rightarrow> fixture_state" where
  "printed_on stderr text s = s\<lparr>fx_screen := followed_by (fx_screen s)
     (if stderr then \<lparr>on_stdout = [], on_stderr = text\<rparr> else \<lparr>on_stdout = text, on_stderr = []\<rparr>)\<rparr>"

section \<open>Printing\<close>

fun emit_lines :: "bool \<Rightarrow> nat \<Rightarrow> nat \<Rightarrow> fixture_state \<Rightarrow> fixture_state" where
  "emit_lines stderr index 0 s = s"
| "emit_lines stderr index (Suc n) s =
     emit_lines stderr (Suc index) n (printed_on stderr (''fixture-'' @ show_nat index @ newline) s)"

definition chunk_bytes :: u64 where
  "chunk_bytes = 64 * 1024"

function write_fixture_bytes ::
  "(nat \<Rightarrow> (io_error \<times> nat) option) \<Rightarrow> io_error + unit \<Rightarrow> bool \<Rightarrow> nat \<Rightarrow> u64 \<Rightarrow> fixture_state \<Rightarrow>
   fixture_state \<times> (app_error + unit)" where
  "write_fixture_bytes fails flushed stderr i remaining s =
     (if remaining > 0 then
        (let count = unat (min remaining chunk_bytes); chunk = replicate count (CHR ''x'') in
         case fails i of
           Some (e, n) \<Rightarrow> (printed_on stderr (take n chunk) s, Inl (from_io e))
         | None \<Rightarrow> write_fixture_bytes fails flushed stderr (Suc i) (sat_sub remaining (of_nat count))
             (printed_on stderr chunk s))
      else (s, map_err from_io flushed))"
  by pat_completeness auto

termination
proof (relation "measure (\<lambda>(fails, flushed, stderr, i, remaining, s). unat remaining)", goal_cases)
  case (2 fails flushed stderr i remaining s count chunk)
  then have "0 < count" "count \<le> unat remaining"
    by (auto simp: chunk_bytes_def min_def unat_gt_0 word_le_nat_alt)
  moreover have "unat (of_nat count :: u64) = count" using 2(2) by simp
  ultimately show ?case by (simp add: unat_sat_sub)
qed simp

declare write_fixture_bytes.simps [simp del]

section \<open>Files\<close>

text \<open>Opening to append follows symbolic links and creates what is missing.\<close>

fun appended :: "node option \<Rightarrow> bytes \<Rightarrow> io_error + node" where
  "appended None bs = Inr (Regular bs)"
| "appended (Some (Regular old)) bs = Inr (Regular (old @ bs))"
| "appended (Some Special) bs = Inr Special"
| "appended (Some Directory) bs = Inl is_a_directory"
| "appended (Some (Symlink target)) bs = bindE (appended target bs) (\<lambda>n. Inr (Symlink (Some n)))"

definition append_file :: "path \<Rightarrow> bytes \<Rightarrow> world \<Rightarrow> world \<times> (app_error + unit)" where
  "append_file p bs w =
     (case bindE (attempt w Create p) (\<lambda>_. bindE (parent_dir w p) (\<lambda>_. appended (node_at w p) [])) of
        Inl e \<Rightarrow> (w, Inl (from_io e))
      | Inr n \<Rightarrow>
          (let w = put_node p n w in
           case bindE (attempt w Write p) (\<lambda>_. appended (node_at w p) bs) of
             Inl e \<Rightarrow> (w, Inl (from_io e))
           | Inr n \<Rightarrow> (put_node p n w, Inr ())))"

definition write_marker :: "path \<Rightarrow> bytes \<Rightarrow> world \<Rightarrow> world \<times> (app_error + unit)" where
  "write_marker p bs w =
     (case create_new_file p w of
        (w, Inl e) \<Rightarrow> (w, Inl e)
      | (w, Inr _) \<Rightarrow>
          (case attempt w Write p of
             Inl e \<Rightarrow> (put_node p (Regular (take (w_cut w p) bs)) w, Inl (from_io e))
           | Inr _ \<Rightarrow> (put_node p (Regular bs) w, map_err from_io (attempt w Sync p))))"

definition on_fx_world :: "(world \<Rightarrow> world \<times> (app_error + 'a)) \<Rightarrow> fixture_state \<Rightarrow> fixture_state \<times> (app_error + 'a)"
  where
  "on_fx_world f s = (let (w, r) = f (fx_world s) in (s\<lparr>fx_world := w\<rparr>, r))"

definition ready_line :: bytes where
  "ready_line = as_bytes ''ready'' @ [10]"

fun heartbeats :: "path \<Rightarrow> ((world \<Rightarrow> world) \<times> u64) list \<Rightarrow> fixture_state \<Rightarrow> fixture_state \<times> (app_error + fixture_end)"
  where
  "heartbeats marker [] s = (s, Inr Runs_on)"
| "heartbeats marker ((others, now) # beats) s =
     thenW (on_fx_world (\<lambda>w. append_file marker (as_bytes (show_word now) @ [10]) (others w)) s)
       (\<lambda>_ s. heartbeats marker beats s)"

section \<open>Serving\<close>

definition http_ok :: string where
  "http_ok =
     (let crlf = [CHR 0x0D, CHR 0x0A] in
      ''HTTP/1.1 200 OK'' @ crlf @ ''Content-Length: 2'' @ crlf @ ''Connection: close'' @ crlf @ crlf @ ''ok'')"

fun serve_streams ::
  "bool \<Rightarrow> (io_error + peer) list \<Rightarrow> fixture_state \<Rightarrow> fixture_state \<times> (app_error + fixture_end)" where
  "serve_streams http [] s = (s, Inr Runs_on)"
| "serve_streams http (Inl e # streams) s = (s, Inl (from_io e))"
| "serve_streams http (Inr c # streams) s =
     (if http \<and> cn_read c = Inr ()
      then (case cn_sent c of
              Inl e \<Rightarrow> (s, Inl (from_io e))
            | Inr _ \<Rightarrow> serve_streams http streams (s\<lparr>fx_responses := fx_responses s @ [http_ok]\<rparr>))
      else serve_streams http streams s)"

section \<open>A fixture, and the whole program\<close>

fun run_fixture ::
  "fixture_answers \<Rightarrow> fixture_command \<Rightarrow> fixture_state \<Rightarrow> fixture_state \<times> (app_error + fixture_end)" where
  "run_fixture f (Emit chunks delay_ms stderr code) s =
     (emit_lines stderr 0 (unat chunks) s, Inr (Exits code))"
| "run_fixture f (Flood bytes hold_ms stderr) s =
     thenW (write_fixture_bytes (fa_fails f) (fa_flushed f) stderr 0 bytes s) (\<lambda>_ s. (s, Inr Completed))"
| "run_fixture f (Tree marker) s =
     thenW (s, map_err from_io (fa_exe f)) (\<lambda>exe s.
     thenW (s, map_err from_io (fa_started f)) (\<lambda>_ s.
       (s\<lparr>fx_children := fx_children s @ [(exe, [''__fixture'', ''heartbeat'', ''--marker'', display marker])]\<rparr>,
        Inr Runs_on)))"
| "run_fixture f (Heartbeat marker) s = heartbeats marker (fa_beats f) s"
| "run_fixture f (Serve address startup_delay_ms http touch) s =
     thenW (s\<lparr>fx_world := fa_meanwhile f (fx_world s)\<rparr>, map_err from_io (fa_bound f address)) (\<lambda>_ s.
     thenW (case touch of None \<Rightarrow> (s, Inr ()) | Some path \<Rightarrow> on_fx_world (write_marker path ready_line) s) (\<lambda>_ s.
       serve_streams http (fa_streams f) (printed_on False (''listening '' @ address @ newline) s)))"
| "run_fixture f (Touch path delay_ms) s =
     thenW (on_fx_world (\<lambda>w. write_marker path ready_line (fa_meanwhile f w)) s) (\<lambda>_ s. (s, Inr Runs_on))"
| "run_fixture f (Write_env name path) s =
     thenW (s, ok_or (fa_variable f name) (operational ''fixture'' (name @ '' is not set''))) (\<lambda>value s.
     thenW (on_fx_world (write_marker path (as_bytes value)) s) (\<lambda>_ s. (s, Inr Runs_on)))"

text \<open>
  The dispatch of \<open>execute\<close> with its last branch, and the exit of the process: a fixture may exit by
  itself, with a code of its own.
\<close>

datatype invocation = Command cli | Fixture output_format fixture_command

datatype program_end = Exit_code u8 | Exited_by i32 | Still_running

definition fixture_start :: "world \<Rightarrow> fixture_state" where
  "fixture_start w = \<lparr>fx_world = w, fx_screen = silent, fx_children = [], fx_responses = []\<rparr>"

fun run_program ::
  "('u, 'd) libs \<Rightarrow> printer \<Rightarrow> 'u surroundings \<Rightarrow> fixture_answers \<Rightarrow> invocation \<Rightarrow> world \<Rightarrow>
   world \<times> screen \<times> program_end" where
  "run_program lb P s f (Command c) w =
     (case run_cli lb P s c w of
        (w, Returned (printed, code)) \<Rightarrow> (w, printed, Exit_code code)
      | (w, Waiting) \<Rightarrow> (w, silent, Still_running))"
| "run_program lb P s f (Fixture format fixture) w =
     (case run_fixture f fixture (fixture_start w) of
        (x, Inl e) \<Rightarrow> (fx_world x, followed_by (fx_screen x) (render_error P format e), Exit_code (exit_code e))
      | (x, Inr Completed) \<Rightarrow> (fx_world x, fx_screen x, Exit_code 0)
      | (x, Inr (Exits code)) \<Rightarrow> (fx_world x, fx_screen x, Exited_by code)
      | (x, Inr Runs_on) \<Rightarrow> (fx_world x, fx_screen x, Still_running))"

section \<open>What the tests rely on\<close>

lemma printed_on_simps [simp]:
  "printed_on stderr b (printed_on stderr a s) = printed_on stderr (a @ b) s"
  "printed_on stderr [] s = s"
  by (simp_all add: printed_on_def followed_by_def)

text \<open>
  A flood is exactly as long as asked for, however the bytes are cut into writes; one that fails has
  written no more than that.
\<close>

lemma flood_length:
  "\<exists>n\<le>unat remaining. fst (write_fixture_bytes fails flushed stderr i remaining s) =
       printed_on stderr (replicate n (CHR ''x'')) s \<and>
     ((\<forall>i. fails i = None) \<longrightarrow> n = unat remaining \<and>
       snd (write_fixture_bytes fails flushed stderr i remaining s) = map_err from_io flushed)"
proof (induction fails flushed stderr i remaining s rule: write_fixture_bytes.induct)
  case (1 fails flushed stderr i remaining s)
  note unfold = write_fixture_bytes.simps [of fails flushed stderr i remaining s]
  show ?case
  proof (cases "0 < remaining")
    case False
    then have "remaining = 0" by (simp add: word_gt_0)
    then show ?thesis unfolding unfold by (auto intro: exI [of _ 0])
  next
    case True
    define count where "count = unat (min remaining chunk_bytes)"
    have count: "count \<le> unat remaining" "unat (sat_sub remaining (of_nat count)) = unat remaining - count"
      by (auto simp: count_def min_def word_le_nat_alt unat_sat_sub)
    show ?thesis
    proof (cases "fails i")
      case (Some p)
      obtain e n where "p = (e, n)" by (cases p)
      then have "write_fixture_bytes fails flushed stderr i remaining s =
          (printed_on stderr (replicate (min count n) (CHR ''x'')) s, Inl (from_io e))"
        using True Some unfolding unfold by (simp add: Let_def count_def [symmetric]) (simp add: min.commute)
      then show ?thesis using count(1) Some by (intro exI [of _ "min count n"]) auto
    next
      case None
      let ?chunk = "replicate count (CHR ''x'')"
      have run: "write_fixture_bytes fails flushed stderr i remaining s =
          write_fixture_bytes fails flushed stderr (Suc i) (sat_sub remaining (of_nat count)) (printed_on stderr ?chunk s)"
        using True None unfolding unfold by (simp add: Let_def count_def [symmetric])
      from "1.IH" [OF True count_def refl None] obtain n where
        n: "n \<le> unat remaining - count"
          "fst (write_fixture_bytes fails flushed stderr i remaining s) =
            printed_on stderr (replicate n (CHR ''x'')) (printed_on stderr ?chunk s)"
          "(\<forall>i. fails i = None) \<longrightarrow> n = unat remaining - count \<and>
            snd (write_fixture_bytes fails flushed stderr i remaining s) = map_err from_io flushed"
        unfolding run [symmetric] count(2) by auto
      have "count + n \<le> unat remaining" "n = unat remaining - count \<Longrightarrow> count + n = unat remaining"
        using n(1) count(1) by simp_all
      moreover have "fst (write_fixture_bytes fails flushed stderr i remaining s) =
          printed_on stderr (replicate (count + n) (CHR ''x'')) s"
        using n(2) by (simp add: replicate_add)
      ultimately show ?thesis using n(3) by blast
    qed
  qed
qed

theorem flood_exact:
  assumes "\<forall>i. fa_fails f i = None" and "fa_flushed f = Inr ()"
  shows "run_fixture f (Flood bytes hold_ms stderr) s =
    (printed_on stderr (replicate (unat bytes) (CHR ''x'')) s, Inr Completed)"
proof -
  obtain x r where "write_fixture_bytes (fa_fails f) (fa_flushed f) stderr 0 bytes s = (x, r)" by (metis surj_pair)
  then show ?thesis
    using flood_length [of bytes "fa_fails f" "fa_flushed f" stderr 0 s] assms by auto
qed

end
