(* ===== verification/Spec2Isabelle.thy ===== *)
theory Spec2Isabelle
  imports Win_Quote Lease_Book Exit_Codes Observed_Logs Fixtures
begin

text \<open>
  A model of procherd, a command line that starts local processes under a detached supervisor and
  reacquires them later by the identity of their run, with the theorems that make it correct.

  \<^bold>\<open>The parts and how they interact.\<close> Every run has a directory in the store with the state
  (\<^verbatim>\<open>state.json\<close>), the specification for its supervisor, an owner token, the log and a lock file. The
  command \<open>start\<close> makes the documents and launches a supervisor, which takes the lock, acquires leases of
  ports and directories, starts the process, captures its output into the log, follows its readiness,
  persists the state, and ends by stamping a terminal state and releasing lock and leases. All other
  commands are separate processes that only share the file system with it: they observe a run by its state
  together with its lock, stop it by writing a request that the supervisor reads, page through its log, and
  collect old runs. The port leases of all runs of a store are in one registry behind a lock of its own.

  \<^bold>\<open>Theories and sources\<close> (each definition carries the name of its function or type):

  \<^item> \<open>Prelude\<close>, \<open>Strings\<close>: results as sums (\<open>bindE\<close>, \<open>map_err\<close>, \<open>mapE\<close>), saturating and checked words,
    texts and their bytes, decimal numbers.
  \<^item> \<open>Errors\<close> (\<^verbatim>\<open>error.rs\<close>), \<open>Hex\<close> (\<^verbatim>\<open>hex.rs\<close>), \<open>Model\<close> (\<^verbatim>\<open>model.rs\<close>): errors with their exit codes; the
    documents as records and datatypes with the fields of the source.
  \<^item> \<open>Fs\<close>, \<open>Store\<close>, \<open>Run_Id\<close> (\<^verbatim>\<open>store.rs\<close>): a world of files, locks and faults; the operations of the store on
    it. A \<open>world\<close> maps paths to nodes, lists who holds locks, and says which operation fails at which path, so
    that every \<open>?\<close> of the source is a branch.
  \<^item> \<open>Lease_Names\<close>, \<open>Placeholders\<close>, \<open>Registry\<close>, \<open>Port_Safety\<close>, \<open>Lease_Book\<close>, \<open>Leases\<close> (\<^verbatim>\<open>leases.rs\<close>): the requests, the
    template replacement, the shared registry with the step relation of all supervisors of a store, the
    abstract book that the registry refines, and the allocation of a run.
  \<^item> \<open>Net_Addr\<close>, \<open>Readiness_Conditions\<close>, \<open>Readiness_Tracker\<close>, \<open>Readiness_Poll\<close> (\<^verbatim>\<open>readiness.rs\<close>): the standard
    library's parsers of addresses, the conditions and probes, the tracker and its operations.
  \<^item> \<open>Log_Codec\<close>, \<open>Log_Writer\<close>, \<open>Log_Reader\<close>, \<open>Log_Live\<close> (\<^verbatim>\<open>logs.rs\<close>): the codec the logs rely on with one instance
    of it, capture, writer and reader, and a reader beside a writer that goes on. \<open>Live_Logs\<close> follows the log file,
    and the bytes that the supervisor was given, through the iterations of the supervisor.
  \<^item> \<open>Supervisor\<close> (\<^verbatim>\<open>supervisor.rs\<close>): one definition per phase of the supervisor, and its loop as a list of ticks;
    \<open>Supervision\<close>, \<open>Supervised_Runs\<close>, \<open>Terminal_Runs\<close>, \<open>Run_Outcomes\<close>, \<open>Log_Evidence\<close>, \<open>Supervisor_Failures\<close> hold its lemmas and
    \<open>Supervised_Example\<close> a run that is supervised from its start to its end.
  \<^item> \<open>Durations\<close>, \<open>Views\<close>, \<open>Collection\<close>, \<open>Waiting\<close>, \<open>Start\<close>, \<open>Brief_Schema\<close>, \<open>Commands\<close>, \<open>Exit_Codes\<close>, \<open>Fixtures\<close>
    (\<^verbatim>\<open>cli.rs\<close>): durations, the observation of runs, the commands, what the program says about itself, the
    dispatch, the rendering and the exit codes, and the hidden fixtures that the tests supervise, with the
    whole program (\<open>run_program\<close>). \<open>Observed_Runs\<close> and \<open>Observed_Logs\<close> compose supervisor and observer.
  \<^item> \<open>Win_Quote\<close> (\<^verbatim>\<open>windows_detach.rs\<close>): the command line of the detached supervisor on Windows.
  \<^item> \<open>Systems\<close>: the interfaces, as locales, of step relations with an invariant (\<open>safe_system\<close>), with an observation
    that settles (\<open>settling_system\<close>) or only moves up (\<open>graded_system\<close>), and that implement an abstract relation
    (\<open>refined_system\<close>); the registry, the readiness, the supervised run and its log interpret them.
\<close>

text \<open>
  \<^bold>\<open>What the theorems show.\<close> Two live runs never hold the same port, and the registry on disk refines the
  book of leases. However a supervisor ends, no process is left without a kill, and the document on disk is
  terminal, so that an observer does not take the run for orphaned; the one exception is a supervisor that
  failed and whose operations on the document failed once more when it recorded that. The document of a
  completed run gives the exit status of the process and the way it ended. The collection of old runs spares
  every run that stays live, and reports what it did. The documents that \<open>start\<close> prepares are well-formed, and are what the
  supervisor loads; the request that \<open>stop\<close> writes is what it reads. The log holds exactly the first bytes up to
  its bound, reading gives them back page by page, and the evidence of a log condition
  is kept in it. The command \<open>logs\<close> answers at every moment of a supervised run, in the middle of a record too,
  with the records that the document it read counts; only after a recorded failure of the supervisor it
  cannot reach what was flushed since the last document. A literal is found however the output is cut into chunks; readiness is consistent, final and
  not starved; conditions and probes stay on the loopback. An answer of \<open>wait\<close>, \<open>stop\<close> and \<open>start\<close> is so in the view
  it gives, and each ends by its deadline. A command prints one document or one error, and its exit code
  tells success, a deadline of its own and an absent run from everything else.

  \<^bold>\<open>Time, other processes and bounds.\<close> The answers of the system (clocks, binds, spawns, waits, signals, what
  arrives on the pipes) and what other processes do to the world between two looks are arguments: \<open>boot\<close>,
  \<open>tick\<close>, \<open>meanwhile\<close>, \<open>turn\<close>, \<open>surroundings\<close>. A loop of the source that waits takes the list of its rounds, so that it
  is total, and has the result \<open>Waiting\<close> when the list ends first; the theorems about ends say from which
  round on this is not the result: a clock past the deadline for \<open>wait\<close>, \<open>stop\<close>, \<open>start\<close> and the final drain of two
  seconds. The loop over the lines of a log and the other loops are total by their measures. Words have the
  width of the source (\<open>u8\<close>, \<open>u16\<close>, \<open>u32\<close>, \<open>u64\<close>) with its saturating and checked operations; durations are in
  milliseconds and instants are natural numbers of nanoseconds.

  \<^bold>\<open>Parameters.\<close> Code outside of the repository: the ULID, JSON, base64, SHA-256 and URL libraries, the parser of the
  arguments, the schemas derived from types and completion scripts, the kernel. What is assumed of a library is a named predicate
  (\<open>ulid_documented\<close>, \<open>json_documented\<close>, \<open>registry_documented\<close>, \<open>log_codec_documented\<close>, \<open>summary_readable\<close>), and
  the witnesses discharge it for concrete functions (\<open>crockford\<close>, \<open>plain_registry_codec\<close>, \<open>standard_codec\<close>).

  \<^bold>\<open>Not modelled.\<close> The threads of the capture and the bounded channel show as the chunks they deliver; the deadlines of
  sockets as reads that fail; the handles and flags of \<open>CreateProcessW\<close>, sessions, process groups and job objects
  as the answers to signals. Serde attributes, the module declarations and the entry point are left
  out; sleeping only passes time. Files are written by one write
  each in the world, which may fail with a part of its bytes; file modes are not part of it, and a path is its
  text. The supervisor's log file is the content of its writer, not a node of the world; \<open>beside_writer\<close> says
  which node an observer finds.

  \<^bold>\<open>What modelling showed.\<close> Lease names that differ only in dashes and underscores share one variable; the log of
  a run that was marked as failed may be unreadable past an old summary; a request to stop that appears
  between two looks makes the supervisor fail; IPv6 URLs are refused; one unreadable run directory makes
  \<open>list\<close> and \<open>gc\<close> fail; and a readiness timeout has exit code 1, where the README has 3.
\<close>

end
